(* ===== verification/Prelude.thy ===== *)
theory Prelude
  imports Complex_Main "HOL-Library.List_Lexorder" "HOL-Library.Char_ord"
    "HOL-Library.Product_Lexorder" "HOL-Library.Multiset"
begin

text \<open>
  Shared vocabulary of the development: the types the code's schemas share (identifiers,
  session dates, UTC instants, exact decimals), Python's \<open>max(..., default=None)\<close>,
  the \<open>Decimal.quantize\<close> of \<open>schemas/common.py\<close>'s two-decimal grid with its
  half-even rounding, and the generic list facts the component theories use.

  A date is the number of days since 1970-01-01; an instant is a number of microseconds
  since the epoch (the resolution of \<open>datetime\<close>), so comparing two instants is comparing
  two integers; a \<open>Decimal\<close> is an exact rational.
\<close>

type_synonym ident = string
type_synonym date = int
type_synonym instant = int
type_synonym decimal = rat

named_theorems cents_intros \<open>closure of the two-decimal grid under the ledger's arithmetic\<close>
named_theorems fact_simps \<open>projections of the execution records' times and identifiers\<close>

subsection \<open>Guards that raise\<close>

text \<open>
  A function that may raise returns a sum, \<open>Inl\<close> the exception; a guard
  \<open>if bad: raise E\<close> is \<open>if bad then Inl E else ...\<close>. A result \<open>Inr x\<close> means that every
  guard on the way was passed.
\<close>

lemma guard_Inr_iff: "(if P then Inl e else x) = Inr u \<longleftrightarrow> \<not> P \<and> x = Inr u"
  by simp

lemma try_Inr_iff:
  "(case x of Inl e \<Rightarrow> Inl (g e) | Inr y \<Rightarrow> f y) = Inr u \<longleftrightarrow> (\<exists>y. x = Inr y \<and> f y = Inr u)"
  by (auto split: sum.splits)

lemmas raise_simps = guard_Inr_iff try_Inr_iff

text \<open>Whether a call returned, as a value that evaluates.\<close>

definition returned :: "'e + 'a \<Rightarrow> bool" where
  "returned x \<longleftrightarrow> (case x of Inl _ \<Rightarrow> False | Inr _ \<Rightarrow> True)"

lemma returned_projr: "returned x \<Longrightarrow> x = Inr (projr x)"
  by (cases x) (simp_all add: returned_def)

lemma returnedD: "returned x \<Longrightarrow> \<exists>y. x = Inr y"
  by (cases x) (simp_all add: returned_def)

subsection \<open>Identifiers\<close>

text \<open>\<open>IdStr\<close> strips its input, so a stored identifier is nonempty without white space at its ends.\<close>

definition is_space :: "char \<Rightarrow> bool" where
  "is_space c \<longleftrightarrow> c = CHR '' '' \<or> (9 \<le> (of_char c :: nat) \<and> (of_char c :: nat) \<le> 13)"

definition id_str :: "string \<Rightarrow> bool" where
  "id_str s \<longleftrightarrow> s \<noteq> [] \<and> \<not> is_space (hd s) \<and> \<not> is_space (last s)"

subsection \<open>Rounding a decimal to the cent\<close>

text \<open>Half-even rounding to an integer, the default rounding of Python's decimal context.\<close>

definition round_half_even :: "rat \<Rightarrow> int" where
  "round_half_even x =
     (let f = \<lfloor>x\<rfloor>; r = x - of_int f
      in if r < 1 / 2 then f else if 1 / 2 < r then f + 1 else if even f then f else f + 1)"

text \<open>\<open>x.quantize(Decimal("0.01"))\<close>; \<open>FEE_TICK\<close> and \<open>PRICE_TICK\<close> are both 0.01.\<close>

definition quantize :: "decimal \<Rightarrow> decimal" where
  "quantize x = of_int (round_half_even (x * 100)) / 100"

text \<open>The decimals that have at most two decimal places.\<close>

definition on_cents :: "decimal \<Rightarrow> bool" where
  "on_cents x \<longleftrightarrow> of_int \<lfloor>x * 100\<rfloor> = x * 100"

text \<open>\<open>Money\<close> is \<open>max_digits=18, decimal_places=2\<close>; \<open>Price\<close> is positive with
  \<open>max_digits=12, decimal_places=2\<close>.\<close>

definition money_ok :: "decimal \<Rightarrow> bool" where
  "money_ok x \<longleftrightarrow> on_cents x \<and> \<bar>x\<bar> < 10 ^ 16"

definition price_ok :: "decimal \<Rightarrow> bool" where
  "price_ok x \<longleftrightarrow> 0 < x \<and> on_cents x \<and> x < 10 ^ 10"

lemma floor_rat_numeral [simp]:
  "\<lfloor>numeral a / (numeral b :: rat)\<rfloor> = numeral a div numeral b"
  by (metis floor_divide_of_int_eq of_int_numeral)

lemma floor_rat_neg_numeral [simp]:
  "\<lfloor>- (numeral a / (numeral b :: rat))\<rfloor> = (- numeral a) div numeral b"
proof -
  have "- (numeral a / (numeral b :: rat)) = of_int (- numeral a) / of_int (numeral b)"
    by simp
  then show ?thesis by (metis floor_divide_of_int_eq)
qed

lemma round_half_even_of_int [simp]: "round_half_even (of_int n) = n"
  by (simp add: round_half_even_def)

lemma on_cents_iff: "on_cents x \<longleftrightarrow> (\<exists>n. x = of_int n / 100)"
proof
  assume "on_cents x"
  then have "of_int \<lfloor>x * 100\<rfloor> = x * 100" unfolding on_cents_def .
  then have "x = of_int \<lfloor>x * 100\<rfloor> / 100" by (metis nonzero_eq_divide_eq zero_neq_numeral)
  then show "\<exists>n. x = of_int n / 100" ..
next
  assume "\<exists>n. x = of_int n / 100"
  then obtain n where "x = of_int n / 100" ..
  then have "x * 100 = of_int n" by simp
  then show "on_cents x" by (simp add: on_cents_def)
qed

lemma quantize_id: "on_cents x \<Longrightarrow> quantize x = x"
  by (auto simp: on_cents_iff quantize_def)

lemma on_cents_quantize [cents_intros, simp]: "on_cents (quantize x)"
  by (auto simp: on_cents_iff quantize_def)

lemma quantize_idem [simp]: "quantize (quantize x) = quantize x"
  by (simp add: quantize_id)

lemma on_cents_0 [cents_intros, simp]: "on_cents 0"
  by (simp add: on_cents_def)

lemma on_cents_add [cents_intros]: "on_cents x \<Longrightarrow> on_cents y \<Longrightarrow> on_cents (x + y)"
proof -
  assume "on_cents x" "on_cents y"
  then obtain m n where "x = of_int m / 100" "y = of_int n / 100" by (auto simp: on_cents_iff)
  then have "x + y = of_int (m + n) / 100" by (simp add: field_simps)
  then show "on_cents (x + y)" unfolding on_cents_iff ..
qed

lemma on_cents_uminus [cents_intros]: "on_cents x \<Longrightarrow> on_cents (- x)"
proof -
  assume "on_cents x"
  then obtain m where "x = of_int m / 100" by (auto simp: on_cents_iff)
  then have "- x = of_int (- m) / 100" by simp
  then show "on_cents (- x)" unfolding on_cents_iff ..
qed

lemma on_cents_diff [cents_intros]: "on_cents x \<Longrightarrow> on_cents y \<Longrightarrow> on_cents (x - y)"
  using on_cents_add [of x "- y"] on_cents_uminus [of y] by simp

lemma on_cents_mult_int [cents_intros]: "on_cents x \<Longrightarrow> on_cents (x * of_int k)"
proof -
  assume "on_cents x"
  then obtain m where "x = of_int m / 100" by (auto simp: on_cents_iff)
  then have "x * of_int k = of_int (m * k) / 100" by simp
  then show "on_cents (x * of_int k)" unfolding on_cents_iff ..
qed

lemma on_cents_mult_nat [cents_intros]: "on_cents x \<Longrightarrow> on_cents (x * of_nat k)"
  using on_cents_mult_int [of x "int k"] by simp

lemma on_cents_max [cents_intros]: "on_cents x \<Longrightarrow> on_cents y \<Longrightarrow> on_cents (max x y)"
  by (simp add: max_def)

lemma on_cents_sum_list [cents_intros]: "\<forall>x \<in> set xs. on_cents x \<Longrightarrow> on_cents (sum_list xs)"
  by (induction xs) (auto intro: cents_intros)

lemma round_half_even_mono:
  assumes "x \<le> y" shows "round_half_even x \<le> round_half_even y"
proof -
  have le: "\<lfloor>x\<rfloor> \<le> \<lfloor>y\<rfloor>" using assms by (rule floor_mono)
  show ?thesis
  proof (cases "\<lfloor>x\<rfloor> = \<lfloor>y\<rfloor>")
    case True
    with assms show ?thesis by (auto simp: round_half_even_def Let_def)
  next
    case False
    with le have "\<lfloor>x\<rfloor> + 1 \<le> \<lfloor>y\<rfloor>" by simp
    then show ?thesis by (auto simp: round_half_even_def Let_def)
  qed
qed

lemma quantize_mono: "x \<le> y \<Longrightarrow> quantize x \<le> quantize y"
  by (simp add: quantize_def divide_right_mono round_half_even_mono)

subsection \<open>\<open>max\<close> and \<open>min\<close> with a default\<close>

fun max_default :: "'a::linorder list \<Rightarrow> 'a option" where
  "max_default [] = None"
| "max_default (x # xs) = Some (fold max xs x)"

lemma max_default_Max: "max_default xs = (if xs = [] then None else Some (Max (set xs)))"
proof (cases xs)
  case (Cons y ys)
  then show ?thesis using Max.set_eq_fold [of y ys] by simp
qed simp

lemma max_default_cong_set: "set xs = set ys \<Longrightarrow> max_default xs = max_default ys"
  by (auto simp: max_default_Max)

lemma max_default_None [simp]: "max_default xs = None \<longleftrightarrow> xs = []"
  by (cases xs) auto

lemma max_default_Some_iff:
  "max_default xs = Some m \<longleftrightarrow> m \<in> set xs \<and> (\<forall>x \<in> set xs. x \<le> m)"
proof (cases "xs = []")
  case True
  then show ?thesis by simp
next
  case False
  then have "finite (set xs)" "set xs \<noteq> {}" by auto
  then show ?thesis using False by (auto simp: max_default_Max Max_eq_iff)
qed

text \<open>Python's \<open>max(xs, key=k)\<close> of a nonempty list: the first of the largest.\<close>

fun first_max :: "('a \<Rightarrow> 'k::linorder) \<Rightarrow> 'a \<Rightarrow> 'a list \<Rightarrow> 'a" where
  "first_max k b [] = b"
| "first_max k b (x # xs) = first_max k (if k b < k x then x else b) xs"

lemma first_max_in: "first_max k b xs \<in> insert b (set xs)"
  by (induction xs arbitrary: b) auto

lemma first_max_ge: "x \<in> insert b (set xs) \<Longrightarrow> k x \<le> k (first_max k b xs)"
proof (induction xs arbitrary: b x)
  case (Cons y ys)
  show ?case
  proof (cases "x = b")
    case True
    have "k b \<le> k (if k b < k y then y else b)" by auto
    also have "\<dots> \<le> k (first_max k (if k b < k y then y else b) ys)" by (rule Cons.IH) simp
    finally show ?thesis using True by simp
  next
    case False
    then show ?thesis using Cons.prems Cons.IH [of x "if k b < k y then y else b"]
        Cons.IH [of "if k b < k y then y else b" "if k b < k y then y else b"]
      by (auto split: if_splits)
  qed
qed simp

lemma first_max_unique:
  assumes s: "set (x # xs) = set (y # ys)" and i: "inj_on k (set (x # xs))"
  shows "first_max k x xs = first_max k y ys"
proof -
  let ?a = "first_max k x xs" and ?b = "first_max k y ys"
  have a: "?a \<in> set (x # xs)" using first_max_in [of k x xs] by (simp only: list.set)
  have b: "?b \<in> set (x # xs)" unfolding s using first_max_in [of k y ys] by (simp only: list.set)
  have "k ?b \<le> k ?a" using first_max_ge [of ?b x xs k] b by (simp only: list.set)
  moreover have "k ?a \<le> k ?b" using first_max_ge [of ?a y ys k] a [unfolded s] by (simp only: list.set)
  ultimately have "k ?a = k ?b" by (rule antisym [rotated])
  from i this a b show ?thesis by (rule inj_onD)
qed

subsection \<open>Sorting by a key is blind to the input order\<close>

text \<open>
  Python's \<open>sorted(xs, key=k)\<close> is the stable \<open>sort_key k xs\<close>. When the key tells the
  elements apart, the result depends on the elements only, not on their order.
\<close>

lemma sort_key_mset_cong:
  assumes "mset xs = mset ys" and "inj_on k (set xs)"
  shows "sort_key k xs = sort_key k ys"
proof (rule properties_for_sort_key)
  show "mset (sort_key k ys) = mset xs" using assms(1) by simp
  show "sorted (map k (sort_key k ys))" by simp
next
  fix x assume "x \<in> set (sort_key k ys)"
  then have x: "x \<in> set xs" using assms(1) mset_eq_setD by auto
  have eq: "filter (\<lambda>y. k x = k y) zs = filter (\<lambda>y. x = y) zs" if "set zs = set xs" for zs
    using x that assms(2) by (intro filter_cong) (auto dest: inj_onD)
  have rep: "filter (\<lambda>y. x = y) zs = replicate (count (mset zs) x) x" for zs :: "'a list"
    by (induction zs) auto
  have s: "set (sort_key k ys) = set xs" using mset_eq_setD [OF assms(1)] by simp
  show "filter (\<lambda>y. k x = k y) (sort_key k ys) = filter (\<lambda>y. k x = k y) xs"
    unfolding eq [OF s] eq [OF refl] rep by (simp add: assms(1))
qed

lemma any_cong_set: "set xs = set ys \<Longrightarrow> list_ex P xs = list_ex P ys"
  by (auto simp: list_ex_iff)

lemma filter_mset_cong_list: "mset xs = mset ys \<Longrightarrow> mset (filter P xs) = mset (filter P ys)"
  by simp

subsection \<open>Strictly increasing lists and their positions\<close>

lemma sorted_wrt_less_nth:
  "sorted_wrt (<) (xs :: 'a::linorder list) \<Longrightarrow> i < length xs \<Longrightarrow> j < length xs \<Longrightarrow>
   xs ! i < xs ! j \<longleftrightarrow> i < j"
  by (metis linorder_neqE_nat order_less_asym order_less_irrefl sorted_wrt_nth_less)

lemma sorted_wrt_less_nth_eq:
  "sorted_wrt (<) (xs :: 'a::linorder list) \<Longrightarrow> i < length xs \<Longrightarrow> j < length xs \<Longrightarrow>
   xs ! i = xs ! j \<longleftrightarrow> i = j"
  by (metis order_less_irrefl linorder_neqE_nat sorted_wrt_nth_less)

lemma sorted_wrt_less_distinct: "sorted_wrt (<) (xs :: 'a::linorder list) \<Longrightarrow> distinct xs"
  by (simp add: strict_sorted_iff)

lemma set_slice_iff:
  "b \<le> length xs \<Longrightarrow> x \<in> set (take (b - a) (drop a xs)) \<longleftrightarrow> (\<exists>i. a \<le> i \<and> i < b \<and> x = xs ! i)"
proof -
  assume b: "b \<le> length xs"
  show ?thesis
  proof
    assume "x \<in> set (take (b - a) (drop a xs))"
    then obtain j where "j < b - a" "j < length xs - a" "x = xs ! (a + j)"
      by (auto simp: in_set_conv_nth)
    then show "\<exists>i. a \<le> i \<and> i < b \<and> x = xs ! i" by (intro exI [of _ "a + j"]) auto
  next
    assume "\<exists>i. a \<le> i \<and> i < b \<and> x = xs ! i"
    then obtain i where "a \<le> i" "i < b" "x = xs ! i" by blast
    then have "x = take (b - a) (drop a xs) ! (i - a)" "i - a < length (take (b - a) (drop a xs))"
      using b by auto
    then show "x \<in> set (take (b - a) (drop a xs))" by (metis nth_mem)
  qed
qed


subsection \<open>Decimal numerals in identifiers\<close>

text \<open>\<open>str(n)\<close> of a natural number, and the zero-padded \<open>f"{n:06d}"\<close>.\<close>

fun string_of_nat :: "nat \<Rightarrow> string" where
  "string_of_nat n = (if n < 10 then [char_of (48 + n)]
     else string_of_nat (n div 10) @ [char_of (48 + n mod 10)])"

declare string_of_nat.simps [simp del]

definition zero_padded :: "nat \<Rightarrow> nat \<Rightarrow> string" where
  "zero_padded w n = replicate (w - length (string_of_nat n)) (CHR ''0'') @ string_of_nat n"

lemma string_of_nat_nonempty [simp]: "string_of_nat n \<noteq> []"
  by (subst string_of_nat.simps) simp

lemma char_of_digit: "d < 10 \<Longrightarrow> e < 10 \<Longrightarrow> char_of (48 + d) = (char_of (48 + e) :: char) \<longleftrightarrow> d = (e :: nat)"
  by (auto simp: char_of_eq_iff take_bit_eq_mod)

lemma string_of_nat_inj: "string_of_nat m = string_of_nat n \<Longrightarrow> m = n"
proof (induction m arbitrary: n rule: string_of_nat.induct)
  case (1 m)
  show ?case
  proof (cases "m < 10")
    case True
    then have m: "string_of_nat m = [char_of (48 + m)]" by (subst string_of_nat.simps) simp
    show ?thesis
    proof (cases "n < 10")
      case True
      then have "string_of_nat n = [char_of (48 + n)]" by (subst string_of_nat.simps) simp
      with m 1(2) True \<open>m < 10\<close> show ?thesis by (simp add: char_of_digit)
    next
      case False
      then have "string_of_nat n = string_of_nat (n div 10) @ [char_of (48 + n mod 10)]"
        by (subst string_of_nat.simps) simp
      with m 1(2) show ?thesis by (metis append_is_Nil_conv butlast_snoc butlast.simps(2) string_of_nat_nonempty)
    qed
  next
    case False
    then have m: "string_of_nat m = string_of_nat (m div 10) @ [char_of (48 + m mod 10)]"
      by (subst string_of_nat.simps) simp
    show ?thesis
    proof (cases "n < 10")
      case True
      then have "string_of_nat n = [char_of (48 + n)]" by (subst string_of_nat.simps) simp
      with m 1(2) show ?thesis by (metis butlast_snoc butlast.simps(2) string_of_nat_nonempty)
    next
      case n: False
      then have "string_of_nat n = string_of_nat (n div 10) @ [char_of (48 + n mod 10)]"
        by (subst string_of_nat.simps) simp
      with m 1(2) have "string_of_nat (m div 10) = string_of_nat (n div 10)"
          and d: "char_of (48 + m mod 10) = (char_of (48 + n mod 10) :: char)" by simp_all
      then have "m div 10 = n div 10" using 1(1) False by blast
      moreover have "m mod 10 = n mod 10" using d by (subst (asm) char_of_digit) simp_all
      ultimately show ?thesis by (metis div_mult_mod_eq)
    qed
  qed
qed

lemma string_of_nat_digit: "x \<in> set (string_of_nat n) \<Longrightarrow> \<exists>d < 10. x = char_of (48 + d :: nat)"
proof (induction n rule: string_of_nat.induct)
  case (1 n)
  show ?case
  proof (cases "n < 10")
    case True
    then have "x = char_of (48 + n)" using 1(2) by (subst (asm) string_of_nat.simps) simp
    with True show ?thesis by blast
  next
    case False
    then have "x \<in> set (string_of_nat (n div 10)) \<or> x = char_of (48 + n mod 10)"
      using 1(2) by (subst (asm) string_of_nat.simps) auto
    then show ?thesis
    proof
      assume "x = char_of (48 + n mod 10)"
      moreover have "n mod 10 < 10" by simp
      ultimately show ?thesis by blast
    qed (use 1(1) False in simp)
  qed
qed

lemma string_of_nat_no_F: "CHR ''F'' \<notin> set (string_of_nat n)"
proof
  assume "CHR ''F'' \<in> set (string_of_nat n)"
  then obtain d where d: "d < 10" "CHR ''F'' = char_of (48 + d :: nat)"
    using string_of_nat_digit by blast
  from d(2) have "of_char (CHR ''F'') = (of_char (char_of (48 + d :: nat)) :: nat)" by simp
  with d(1) show False by (simp add: of_char_of)
qed

lemma numbered_id_inj:
  assumes "a @ ''-F'' @ string_of_nat m = b @ ''-F'' @ string_of_nat n"
  shows "m = n"
proof -
  have tw: "takeWhile (\<lambda>c. c \<noteq> CHR ''F'') (rev (x @ ''-F'' @ string_of_nat k)) = rev (string_of_nat k)"
    for x k
  proof -
    have "\<forall>c \<in> set (rev (string_of_nat k)). c \<noteq> CHR ''F''" using string_of_nat_no_F by auto
    then have "takeWhile (\<lambda>c. c \<noteq> CHR ''F'') (rev (string_of_nat k) @ CHR ''F'' # CHR ''-'' # rev x)
        = rev (string_of_nat k)" by (subst takeWhile_append2) auto
    then show ?thesis by simp
  qed
  have "rev (string_of_nat m) = rev (string_of_nat n)" using tw [of a m] tw [of b n] unfolding assms by (rule box_equals [OF refl])
  then show ?thesis by (simp add: string_of_nat_inj)
qed

text \<open>Reading a numeral back tells zero-padded slot numbers apart.\<close>

definition digits_value :: "string \<Rightarrow> nat" where
  "digits_value s = foldl (\<lambda>n c. 10 * n + (of_char c - 48)) 0 s"

lemma digits_value_string_of_nat: "digits_value (string_of_nat n) = n"
proof (induction n rule: string_of_nat.induct)
  case (1 n)
  have d: "of_char (char_of (48 + k) :: char) - 48 = k" if "k < 10" for k :: nat
    using that by (simp add: of_char_of)
  show ?case
  proof (cases "n < 10")
    case True
    then show ?thesis by (subst string_of_nat.simps) (simp add: digits_value_def d)
  next
    case False
    then have "digits_value (string_of_nat n) = 10 * digits_value (string_of_nat (n div 10)) + n mod 10"
      by (subst string_of_nat.simps) (simp add: digits_value_def d)
    then show ?thesis using 1 False by simp
  qed
qed

lemma digits_value_zero_padded: "digits_value (zero_padded w n) = n"
proof -
  have "foldl (\<lambda>n c. 10 * n + (of_char c - 48)) 0 (replicate k (CHR ''0'')) = (0 :: nat)" for k
    by (induction k) simp_all
  then show ?thesis using digits_value_string_of_nat [of n]
    by (simp add: digits_value_def zero_padded_def)
qed

end
