(* ===== verification/Calendar.thy ===== *)
theory Calendar
  imports Prelude
begin

text \<open>
  The session calendar of \<open>src/tree_options/time/calendar.py\<close> and the instants of
  \<open>time/sessions.py\<close>. A \<open>StaticSessionCalendar\<close> is a committed list of session dates
  with the set of half-day sessions; the zone table of \<open>America/New_York\<close> that
  \<open>zoneinfo\<close> loads from the system is not code of the repository and is the field
  \<open>ny_offset\<close>: for a date, the seconds that local time at 09:30, 13:00 and 16:00 is ahead
  of UTC. What the code relies on is that the offset of any date lies between minus five
  and minus four hours (\<open>zone_ok\<close>), the two values the zone has had since 1967.

  The \<open>SessionCalendar\<close> protocol, which the splitter, the availability gate and the fill
  engine take as their argument, is the locale \<open>session_calendar\<close>; the interpretation at
  the end discharges it on the static calendar.
\<close>

datatype cal_error =
    CalendarIntegrityError string
  | NotASessionError
  | ValueErrorNegative

record calendar =
  cal_name :: string
  cal_sessions :: "date list"
  early_closes :: "date list"
  ny_offset :: "date \<Rightarrow> int"

subsection \<open>Session instants\<close>

definition second :: int where "second = 1000000"

definition local_instant :: "(date \<Rightarrow> int) \<Rightarrow> date \<Rightarrow> int \<Rightarrow> instant" where
  "local_instant off d secs = (d * 86400 + secs - off d) * second"

definition session_open_instant :: "(date \<Rightarrow> int) \<Rightarrow> date \<Rightarrow> instant" where
  "session_open_instant off d = local_instant off d (9 * 3600 + 30 * 60)"

definition early_close_instant :: "(date \<Rightarrow> int) \<Rightarrow> date \<Rightarrow> instant" where
  "early_close_instant off d = local_instant off d (13 * 3600)"

definition session_close_instant :: "(date \<Rightarrow> int) \<Rightarrow> date \<Rightarrow> instant" where
  "session_close_instant off d = local_instant off d (16 * 3600)"

definition shift_instant :: "instant \<Rightarrow> int \<Rightarrow> instant" where
  "shift_instant ts seconds = ts + seconds * second"

subsection \<open>The calendar over a decoded fixture\<close>

text \<open>
  The JSON fixture after decoding; a key the file lacks is \<open>None\<close>. The early-close list
  defaults to the empty list.
\<close>

record cal_payload =
  p_calendar :: "string option"
  p_timezone :: "string option"
  p_open :: "string option"
  p_close :: "string option"
  p_sessions :: "date list option"
  p_early :: "date list option"

fun pairwise_increasing :: "date list \<Rightarrow> bool" where
  "pairwise_increasing (a # b # xs) \<longleftrightarrow> a < b \<and> pairwise_increasing (b # xs)"
| "pairwise_increasing _ \<longleftrightarrow> True"

definition static_calendar ::
  "(date \<Rightarrow> int) \<Rightarrow> cal_payload \<Rightarrow> cal_error + calendar" where
  "static_calendar off p =
     (if p_calendar p = None \<or> p_timezone p = None \<or> p_open p = None \<or> p_close p = None
         \<or> p_sessions p = None
      then Inl (CalendarIntegrityError ''missing key'')
      else if p_timezone p \<noteq> Some ''America/New_York''
      then Inl (CalendarIntegrityError ''timezone'')
      else if p_open p \<noteq> Some ''09:30'' then Inl (CalendarIntegrityError ''open'')
      else if p_close p \<noteq> Some ''16:00'' then Inl (CalendarIntegrityError ''close'')
      else let sessions = the (p_sessions p);
               early = (case p_early p of None \<Rightarrow> [] | Some e \<Rightarrow> e)
        in if sessions = [] then Inl (CalendarIntegrityError ''no sessions'')
           else if \<not> pairwise_increasing sessions
           then Inl (CalendarIntegrityError ''not strictly increasing'')
           else if \<not> distinct sessions then Inl (CalendarIntegrityError ''duplicates'')
           else if list_ex (\<lambda>d. d \<notin> set sessions) early
           then Inl (CalendarIntegrityError ''early-close sessions not sessions'')
           else Inr \<lparr>cal_name = the (p_calendar p), cal_sessions = sessions,
                     early_closes = early, ny_offset = off\<rparr>)"

definition is_session :: "calendar \<Rightarrow> date \<Rightarrow> bool" where
  "is_session c d \<longleftrightarrow> d \<in> set (cal_sessions c)"

fun index_of :: "date list \<Rightarrow> date \<Rightarrow> nat option" where
  "index_of [] d = None"
| "index_of (x # xs) d = (if x = d then Some 0 else map_option Suc (index_of xs d))"

definition ordinal :: "calendar \<Rightarrow> date \<Rightarrow> cal_error + nat" where
  "ordinal c d = (case index_of (cal_sessions c) d of
      None \<Rightarrow> Inl NotASessionError | Some i \<Rightarrow> Inr i)"

definition nth_after :: "calendar \<Rightarrow> date \<Rightarrow> int \<Rightarrow> cal_error + date" where
  "nth_after c d n =
     (if n < 0 then Inl ValueErrorNegative
      else case ordinal c d of
          Inl e \<Rightarrow> Inl e
        | Inr start \<Rightarrow>
            let idx = start + nat n
            in if idx \<ge> length (cal_sessions c) then Inl NotASessionError
               else Inr (cal_sessions c ! idx))"

definition session_open :: "calendar \<Rightarrow> date \<Rightarrow> cal_error + instant" where
  "session_open c d = (case ordinal c d of
      Inl e \<Rightarrow> Inl e | Inr _ \<Rightarrow> Inr (session_open_instant (ny_offset c) d))"

definition session_close :: "calendar \<Rightarrow> date \<Rightarrow> cal_error + instant" where
  "session_close c d = (case ordinal c d of
      Inl e \<Rightarrow> Inl e
    | Inr _ \<Rightarrow> Inr (if d \<in> set (early_closes c) then early_close_instant (ny_offset c) d
                     else session_close_instant (ny_offset c) d))"

definition contains_instant :: "calendar \<Rightarrow> date \<Rightarrow> instant \<Rightarrow> cal_error + bool" where
  "contains_instant c d ts = (case session_open c d of
      Inl e \<Rightarrow> Inl e
    | Inr o' \<Rightarrow> (case session_close c d of
          Inl e \<Rightarrow> Inl e | Inr k \<Rightarrow> Inr (o' \<le> ts \<and> ts \<le> k)))"

subsection \<open>Well-formed calendars\<close>

definition zone_ok :: "(date \<Rightarrow> int) \<Rightarrow> bool" where
  "zone_ok off \<longleftrightarrow> (\<forall>d. - 18000 \<le> off d \<and> off d \<le> - 14400)"

definition calendar_ok :: "calendar \<Rightarrow> bool" where
  "calendar_ok c \<longleftrightarrow> cal_sessions c \<noteq> [] \<and> sorted_wrt (<) (cal_sessions c)
     \<and> set (early_closes c) \<subseteq> set (cal_sessions c) \<and> zone_ok (ny_offset c)"

lemma pairwise_increasing_sorted: "pairwise_increasing xs \<longleftrightarrow> sorted_wrt (<) xs"
  by (induction xs rule: pairwise_increasing.induct) (auto intro: less_trans)

lemma index_of_SomeD: "index_of xs d = Some i \<Longrightarrow> i < length xs \<and> xs ! i = d"
proof (induction xs arbitrary: i)
  case (Cons x xs)
  then show ?case by (cases i) (auto split: if_splits)
qed simp

lemma index_of_nth: "distinct xs \<Longrightarrow> i < length xs \<Longrightarrow> index_of xs (xs ! i) = Some i"
proof (induction xs arbitrary: i)
  case (Cons x xs)
  then show ?case by (cases i) auto
qed simp

lemma index_of_Some_iff:
  "distinct xs \<Longrightarrow> index_of xs d = Some i \<longleftrightarrow> i < length xs \<and> xs ! i = d"
  using index_of_SomeD index_of_nth by blast

lemma index_of_None_iff: "index_of xs d = None \<longleftrightarrow> d \<notin> set xs"
  by (induction xs) auto

lemma ordinal_Inr_iff:
  "calendar_ok c \<Longrightarrow> ordinal c d = Inr i \<longleftrightarrow> i < length (cal_sessions c) \<and> cal_sessions c ! i = d"
  using index_of_Some_iff [of "cal_sessions c" d i]
  by (auto simp: ordinal_def calendar_ok_def sorted_wrt_less_distinct split: option.splits)

lemma ordinal_Inl_iff: "ordinal c d = Inl e \<longleftrightarrow> e = NotASessionError \<and> \<not> is_session c d"
  using index_of_None_iff [of "cal_sessions c" d]
  by (auto simp: ordinal_def is_session_def split: option.splits)

lemma session_ordinal: "is_session c d \<Longrightarrow> \<exists>i. ordinal c d = Inr i"
  by (cases "ordinal c d") (auto simp: ordinal_Inl_iff)

lemma ordinal_is_session: "ordinal c d = Inr i \<Longrightarrow> is_session c d"
  using ordinal_Inl_iff [of c d NotASessionError] by fastforce

lemma session_close_Inr:
  "session_close c d = Inr k \<longleftrightarrow> is_session c d \<and>
     k = (if d \<in> set (early_closes c) then early_close_instant (ny_offset c) d
          else session_close_instant (ny_offset c) d)"
  by (auto simp: session_close_def ordinal_Inl_iff dest: ordinal_is_session split: sum.splits)

lemma session_open_Inr:
  "session_open c d = Inr k \<longleftrightarrow> is_session c d \<and> k = session_open_instant (ny_offset c) d"
  by (auto simp: session_open_def ordinal_Inl_iff dest: ordinal_is_session split: sum.splits)

lemma session_close_Inl: "session_close c d = Inl e \<longleftrightarrow> e = NotASessionError \<and> \<not> is_session c d"
  by (auto simp: session_close_def ordinal_Inl_iff dest: ordinal_is_session split: sum.splits)

lemma open_before_close:
  assumes "session_open c d = Inr o'" and "session_close c d = Inr k"
  shows "o' < k"
  using assms by (auto simp: session_open_Inr session_close_Inr session_open_instant_def
      early_close_instant_def session_close_instant_def local_instant_def second_def)

lemma close_before_next_open:
  assumes z: "zone_ok (ny_offset c)" and "d < d'"
    and "session_close c d = Inr k" and "session_open c d' = Inr o'"
  shows "k < o'"
proof -
  have "- 18000 \<le> ny_offset c d" "ny_offset c d' \<le> - 14400"
    using z by (auto simp: zone_ok_def)
  then show ?thesis
    using assms(2-) by (auto simp: session_open_Inr session_close_Inr session_open_instant_def
        early_close_instant_def session_close_instant_def local_instant_def second_def)
qed

subsection \<open>The interface the clients rely on\<close>

locale session_calendar =
  fixes valid :: "'c \<Rightarrow> bool"
    and sessions :: "'c \<Rightarrow> date list"
    and ordinal_of :: "'c \<Rightarrow> date \<Rightarrow> cal_error + nat"
    and open_at :: "'c \<Rightarrow> date \<Rightarrow> cal_error + instant"
    and close_at :: "'c \<Rightarrow> date \<Rightarrow> cal_error + instant"
  assumes sessions_nonempty: "valid c \<Longrightarrow> sessions c \<noteq> []"
    and sessions_increasing: "valid c \<Longrightarrow> sorted_wrt (<) (sessions c)"
    and ordinal_of_iff:
      "valid c \<Longrightarrow> ordinal_of c d = Inr i \<longleftrightarrow> i < length (sessions c) \<and> sessions c ! i = d"
    and close_session: "close_at c d = Inr k \<Longrightarrow> d \<in> set (sessions c)"
    and session_window:
      "d \<in> set (sessions c) \<Longrightarrow> \<exists>o' k. open_at c d = Inr o' \<and> close_at c d = Inr k \<and> o' < k"
    and windows_apart:
      "valid c \<Longrightarrow> d < d' \<Longrightarrow> close_at c d = Inr k \<Longrightarrow> open_at c d' = Inr o' \<Longrightarrow> k < o'"
begin

lemma ordinal_nth: "valid c \<Longrightarrow> i < length (sessions c) \<Longrightarrow> ordinal_of c (sessions c ! i) = Inr i"
  by (simp add: ordinal_of_iff)

lemma ordinal_strict_mono:
  assumes "valid c" "ordinal_of c d = Inr i" "ordinal_of c d' = Inr j"
  shows "i < j \<longleftrightarrow> d < d'"
  using assms sorted_wrt_less_nth [OF sessions_increasing [OF assms(1)]]
  by (auto simp: ordinal_of_iff)

lemma close_strict_mono:
  assumes "valid c" "d < d'" "close_at c d = Inr k" "close_at c d' = Inr k'"
  shows "k < k'"
proof -
  obtain o' where "open_at c d' = Inr o'" "o' < k'"
    using session_window [OF close_session [OF assms(4)]] assms(4) by auto
  with windows_apart [OF assms(1-3)] show ?thesis by fastforce
qed

lemma instant_in_one_session:
  assumes "valid c"
    and "open_at c d = Inr o1" "close_at c d = Inr k1" "o1 \<le> ts" "ts \<le> k1"
    and "open_at c d' = Inr o2" "close_at c d' = Inr k2" "o2 \<le> ts" "ts \<le> k2"
  shows "d = d'"
proof (rule ccontr)
  assume "d \<noteq> d'"
  then consider "d < d'" | "d' < d" by linarith
  then show False
  proof cases
    case 1
    then show ?thesis using windows_apart [OF assms(1) 1 assms(3) assms(6)] assms by linarith
  next
    case 2
    then show ?thesis using windows_apart [OF assms(1) 2 assms(7) assms(2)] assms by linarith
  qed
qed

lemma later_session_after_close:
  assumes "valid c" "close_at c d = Inr k" "open_at c d' = Inr o'" "o' \<le> ts" "d < d'"
  shows "k < ts"
  using windows_apart [OF assms(1) assms(5) assms(2) assms(3)] assms(4) by linarith

end

interpretation static_cal: session_calendar calendar_ok cal_sessions ordinal session_open
    session_close
proof unfold_locales
  fix c d d' i k o'
  show "calendar_ok c \<Longrightarrow> cal_sessions c \<noteq> []"
    and "calendar_ok c \<Longrightarrow> sorted_wrt (<) (cal_sessions c)"
    by (simp_all add: calendar_ok_def)
  show "calendar_ok c \<Longrightarrow> (ordinal c d = Inr i) = (i < length (cal_sessions c) \<and> cal_sessions c ! i = d)"
    by (rule ordinal_Inr_iff)
  show "session_close c d = Inr k \<Longrightarrow> d \<in> set (cal_sessions c)"
    by (simp add: session_close_Inr is_session_def)
  show "d \<in> set (cal_sessions c) \<Longrightarrow>
      \<exists>o' k. session_open c d = Inr o' \<and> session_close c d = Inr k \<and> o' < k"
    using open_before_close [of c d] by (auto simp: session_open_Inr session_close_Inr is_session_def)
  show "calendar_ok c \<Longrightarrow> d < d' \<Longrightarrow> session_close c d = Inr k \<Longrightarrow>
      session_open c d' = Inr o' \<Longrightarrow> k < o'"
    by (auto intro: close_before_next_open simp: calendar_ok_def)
qed

subsection \<open>What a constructed calendar guarantees\<close>

lemma static_calendar_ok:
  assumes "static_calendar off p = Inr c" and "zone_ok off"
  shows "calendar_ok c"
  using assms by (auto simp: static_calendar_def calendar_ok_def Let_def
      pairwise_increasing_sorted list_ex_iff split: if_splits option.splits)

lemma nth_after_0: "is_session c d \<Longrightarrow> calendar_ok c \<Longrightarrow> nth_after c d 0 = Inr d"
proof -
  assume "is_session c d" and ok: "calendar_ok c"
  then obtain i where i: "ordinal c d = Inr i" using session_ordinal by blast
  then have "i < length (cal_sessions c)" "cal_sessions c ! i = d"
    using ok by (auto simp: ordinal_Inr_iff)
  then show ?thesis using i by (simp add: nth_after_def)
qed

lemma nth_after_Inr:
  assumes "calendar_ok c" "nth_after c d n = Inr e"
  shows "\<exists>i. ordinal c d = Inr i \<and> ordinal c e = Inr (i + nat n)"
proof -
  obtain i where i: "ordinal c d = Inr i" "i + nat n < length (cal_sessions c)"
      "e = cal_sessions c ! (i + nat n)"
    using assms(2) by (auto simp: nth_after_def Let_def split: if_splits sum.splits)
  then show ?thesis using static_cal.ordinal_nth [OF assms(1)] by blast
qed

lemma nth_after_add:
  assumes "calendar_ok c" "0 \<le> m" "nth_after c d m = Inr e"
  shows "nth_after c e n = (if n < 0 then Inl ValueErrorNegative else nth_after c d (m + n))"
proof -
  obtain i where "ordinal c d = Inr i" "ordinal c e = Inr (i + nat m)"
    using nth_after_Inr [OF assms(1,3)] by blast
  with assms show ?thesis by (simp add: nth_after_def nat_add_distrib add.assoc)
qed

subsection \<open>A small calendar\<close>

text \<open>Sixteen consecutive days with one half day: the calendar the witnesses run on.\<close>

definition sample_calendar :: calendar where
  "sample_calendar = \<lparr>cal_name = ''XNYS'', cal_sessions = [100..115], early_closes = [107],
     ny_offset = (\<lambda>_. - 18000)\<rparr>"

lemma sample_calendar_sessions:
  "cal_sessions sample_calendar
     = [100, 101, 102, 103, 104, 105, 106, 107, 108, 109, 110, 111, 112, 113, 114, 115]"
  by code_simp

lemma sample_calendar_ok: "calendar_ok sample_calendar"
  unfolding calendar_ok_def sample_calendar_sessions
  by (simp add: sample_calendar_def zone_ok_def)

text \<open>The session arithmetic of a calendar built from a checked fixture: an ordinal is
  the position of its date, \<open>nth_after\<close> moves by positions and composes, every session opens
  before it closes, and it closes before any later session opens.\<close>

lemma calendar_arithmetic:
  assumes "static_calendar off p = Inr c" and "zone_ok off"
  shows "(ordinal c d = Inr i \<longleftrightarrow> i < length (cal_sessions c) \<and> cal_sessions c ! i = d)
    \<and> (is_session c d \<longrightarrow> nth_after c d 0 = Inr d)
    \<and> (0 \<le> m \<and> 0 \<le> n \<and> nth_after c d m = Inr e \<longrightarrow> nth_after c e n = nth_after c d (m + n))
    \<and> (session_open c d = Inr o1 \<and> session_close c d = Inr k1 \<longrightarrow> o1 < k1)
    \<and> (d < e \<and> session_close c d = Inr k1 \<and> session_open c e = Inr o2 \<longrightarrow> k1 < o2)"
proof -
  have ok: "calendar_ok c" using assms by (rule static_calendar_ok)
  then have z: "zone_ok (ny_offset c)" by (simp add: calendar_ok_def)
  show ?thesis
    using ordinal_Inr_iff [OF ok] nth_after_0 [OF _ ok] nth_after_add [OF ok, of m d e n]
      open_before_close close_before_next_open [OF z] by auto
qed

theorem calendar_arithmetic_witness:
  "static_calendar (\<lambda>_. - 18000) \<lparr>p_calendar = Some ''XNYS'', p_timezone = Some ''America/New_York'',
      p_open = Some ''09:30'', p_close = Some ''16:00'', p_sessions = Some [100, 101, 104],
      p_early = None\<rparr> = Inr \<lparr>cal_name = ''XNYS'', cal_sessions = [100, 101, 104],
      early_closes = [], ny_offset = (\<lambda>_. - 18000)\<rparr>
   \<and> nth_after \<lparr>cal_name = ''XNYS'', cal_sessions = [100, 101, 104], early_closes = [],
      ny_offset = (\<lambda>_. - 18000)\<rparr> 101 0 = Inr 101"
proof -
  let ?c = "\<lparr>cal_name = ''XNYS'', cal_sessions = [100, 101, 104], early_closes = [],
      ny_offset = (\<lambda>_. - 18000)\<rparr>"
  have built: "static_calendar (\<lambda>_. - 18000) \<lparr>p_calendar = Some ''XNYS'',
      p_timezone = Some ''America/New_York'', p_open = Some ''09:30'', p_close = Some ''16:00'',
      p_sessions = Some [100, 101, 104], p_early = None\<rparr> = Inr ?c"
    by (simp add: static_calendar_def)
  have "is_session ?c 101" by (simp add: is_session_def)
  then show ?thesis
    using built calendar_arithmetic [OF built, of 101] by (simp add: zone_ok_def)
qed

end
