(* ===== verification/Splitting.thy ===== *)
theory Splitting
  imports Calendar
begin

text \<open>
  The purged, anchored-expanding walk-forward splitter of \<open>splitting/splitter.py\<close> and the
  fold checker of \<open>splitting/checks.py\<close>. A \<open>Fold\<close>'s frozensets are sets of dates; the
  splitter's while loop is \<open>splits_loop\<close>, whose \<open>None\<close> means that the loop never ends;
  \<open>check_folds\<close> returns the code of the first violated invariant.
\<close>

record fold =
  fold_id :: nat
  train_sessions :: "date set"
  validation_sessions :: "date set"
  test_sessions :: "date set"
  final_fit_train_sessions :: "date set"

definition all_eval_sessions :: "fold \<Rightarrow> date set" where
  "all_eval_sessions f = validation_sessions f \<union> test_sessions f"

record splitter =
  sp_horizon :: nat
  sp_embargo :: nat
  sp_gap :: nat
  sp_val :: nat
  sp_test :: nat
  sp_roll :: nat
  sp_min_train :: nat

subsection \<open>The splitter\<close>

definition make_splitter ::
  "int \<Rightarrow> int \<Rightarrow> int \<Rightarrow> int \<Rightarrow> int \<Rightarrow> int \<Rightarrow> string + splitter" where
  "make_splitter horizon embargo val test roll min_train =
     (if horizon < 1 then Inl ''label_horizon_sessions''
      else if val < 1 then Inl ''val_sessions''
      else if test < 1 then Inl ''test_sessions''
      else if roll < 1 then Inl ''roll_sessions''
      else if min_train < 1 then Inl ''min_train_sessions''
      else if embargo < 0 then Inl ''embargo_sessions''
      else Inr \<lparr>sp_horizon = nat horizon, sp_embargo = nat embargo,
                sp_gap = nat horizon + nat embargo, sp_val = nat val, sp_test = nat test,
                sp_roll = nat roll, sp_min_train = nat min_train\<rparr>)"

text \<open>The fold whose test block starts at ordinal \<open>t0\<close>.\<close>

definition fold_at :: "calendar \<Rightarrow> splitter \<Rightarrow> nat \<Rightarrow> nat \<Rightarrow> fold" where
  "fold_at c sp t0 k =
     (let sessions = cal_sessions c;
          test_block = take (sp_test sp) (drop t0 sessions);
          val_block = take (sp_val sp) (drop (t0 - sp_val sp) sessions);
          train_end = t0 - sp_val sp - sp_gap sp;
          train_block = take train_end sessions;
          val_ordinals = [t0 - sp_val sp ..< t0];
          keep_val = map (\<lambda>i. sessions ! i) (filter (\<lambda>i. t0 - i > sp_gap sp) val_ordinals)
      in \<lparr>fold_id = k, train_sessions = set train_block,
          validation_sessions = set val_block, test_sessions = set test_block,
          final_fit_train_sessions = set train_block \<union> set keep_val\<rparr>)"

partial_function (option) splits_loop ::
  "calendar \<Rightarrow> splitter \<Rightarrow> nat \<Rightarrow> nat \<Rightarrow> fold list \<Rightarrow> fold list option" where
  "splits_loop c sp t0 k folds =
     (if t0 + sp_test sp \<le> length (cal_sessions c)
      then if t0 - sp_val sp - sp_gap sp < sp_min_train sp
           then splits_loop c sp (t0 + sp_roll sp) k folds
           else splits_loop c sp (t0 + sp_roll sp) (Suc k) (folds @ [fold_at c sp t0 k])
      else Some folds)"

definition first_test_start :: "splitter \<Rightarrow> nat" where
  "first_test_start sp = sp_min_train sp + sp_gap sp + sp_val sp"

definition splits ::
  "calendar \<Rightarrow> splitter \<Rightarrow> date list option \<Rightarrow> (string + fold list) option" where
  "splits c sp panel =
     (case panel of
        Some ds \<Rightarrow> if list_ex (\<lambda>d. \<not> is_session c d) ds
                   then Some (Inl ''panel sessions not in calendar'')
                   else map_option Inr (splits_loop c sp (first_test_start sp) 0 [])
      | None \<Rightarrow> map_option Inr (splits_loop c sp (first_test_start sp) 0 []))"

subsection \<open>Row assignment\<close>

text \<open>The dict of the four roles, as its items in insertion order.\<close>

type_synonym assignment = "(string \<times> nat list) list"

fun assign_loop :: "fold \<Rightarrow> nat \<Rightarrow> date list \<Rightarrow> nat list \<Rightarrow> nat list \<Rightarrow> nat list \<Rightarrow> nat list \<Rightarrow> assignment"
where
  "assign_loop f idx [] tr va te ff =
     [(''train'', tr), (''validation'', va), (''test'', te), (''final_fit_train'', ff)]"
| "assign_loop f idx (d # ds) tr va te ff =
     (if d \<in> train_sessions f
      then assign_loop f (Suc idx) ds (tr @ [idx]) va te (ff @ [idx])
      else if d \<in> validation_sessions f
      then assign_loop f (Suc idx) ds tr (va @ [idx]) te
             (if d \<in> final_fit_train_sessions f then ff @ [idx] else ff)
      else if d \<in> test_sessions f
      then assign_loop f (Suc idx) ds tr va (te @ [idx]) ff
      else assign_loop f (Suc idx) ds tr va te ff)"

definition assign_rows :: "fold \<Rightarrow> date list \<Rightarrow> assignment" where
  "assign_rows f ds = assign_loop f 0 ds [] [] [] []"

subsection \<open>The fold checker\<close>

datatype fold_violation =
    SETS_DISJOINT | PURGE_OVERLAP | EMBARGO_GAP | FINAL_FIT_PURGE | ANCHOR_MONOTONE
  | DUPLICATE_FOLD_ID | COVERAGE | SESSION_GROUPING
  | FOLD_NOT_A_SESSION | FOLD_VALUE_ERROR | FOLD_INDEX_ERROR

definition ord_of :: "calendar \<Rightarrow> date \<Rightarrow> int" where
  "ord_of c d = (case ordinal c d of Inl _ \<Rightarrow> 0 | Inr i \<Rightarrow> int i)"

text \<open>
  One iteration of the checker's main loop. Each loop over a set first looks every date up,
  and an unknown date raises; where a fold has both an unknown date and a violation of the
  same loop, the code reports the one its set iteration meets first and the model the
  unknown date.
\<close>

definition check_fold :: "calendar \<Rightarrow> int \<Rightarrow> int \<Rightarrow> fold \<Rightarrow> fold_violation + unit" where
  "check_fold c horizon embargo f =
     (let train = train_sessions f; evals = all_eval_sessions f;
          retained = final_fit_train_sessions f - train; gap = horizon + embargo
      in if train \<inter> validation_sessions f \<noteq> {} \<or> train \<inter> test_sessions f \<noteq> {}
            \<or> validation_sessions f \<inter> test_sessions f \<noteq> {}
         then Inl SETS_DISJOINT
         else if (\<exists>s \<in> train. \<not> is_session c s) \<or> (train \<noteq> {} \<and> (\<exists>t \<in> evals. \<not> is_session c t))
         then Inl FOLD_NOT_A_SESSION
         else if \<exists>s \<in> train. \<exists>t \<in> evals. ord_of c t - ord_of c s \<le> horizon
         then Inl PURGE_OVERLAP
         else if train \<noteq> {} \<and> evals = {} then Inl FOLD_VALUE_ERROR
         else if train \<noteq> {} \<and> Min (ord_of c ` evals) - Max (ord_of c ` train) \<le> gap
         then Inl EMBARGO_GAP
         else if test_sessions f \<noteq> {} \<and> retained \<noteq> {}
              \<and> ((\<exists>s \<in> retained. \<not> is_session c s) \<or> (\<exists>t \<in> test_sessions f. \<not> is_session c t))
         then Inl FOLD_NOT_A_SESSION
         else if \<exists>s \<in> retained. \<exists>t \<in> test_sessions f. ord_of c t - ord_of c s \<le> horizon + embargo
         then Inl FINAL_FIT_PURGE
         else if train \<noteq> {} \<and> Min train \<noteq> hd (cal_sessions c)
         then Inl ANCHOR_MONOTONE
         else Inr ())"

fun check_each :: "calendar \<Rightarrow> int \<Rightarrow> int \<Rightarrow> fold list \<Rightarrow> fold_violation + unit" where
  "check_each c h e [] = Inr ()"
| "check_each c h e (f # fs) =
     (case check_fold c h e f of Inl v \<Rightarrow> Inl v | Inr _ \<Rightarrow> check_each c h e fs)"

fun tests_disjoint :: "date set \<Rightarrow> fold list \<Rightarrow> bool" where
  "tests_disjoint seen [] \<longleftrightarrow> True"
| "tests_disjoint seen (f # fs) \<longleftrightarrow>
     test_sessions f \<inter> seen = {} \<and> tests_disjoint (seen \<union> test_sessions f) fs"

definition check_folds :: "calendar \<Rightarrow> fold list \<Rightarrow> int \<Rightarrow> int \<Rightarrow> fold_violation + unit" where
  "check_folds c folds horizon embargo =
     (if cal_sessions c = [] then Inl FOLD_INDEX_ERROR
      else case check_each c horizon embargo folds of
          Inl v \<Rightarrow> Inl v
        | Inr _ \<Rightarrow>
            if \<not> distinct (map fold_id folds) then Inl DUPLICATE_FOLD_ID
            else if \<not> tests_disjoint {} folds then Inl COVERAGE
            else Inr ())"

definition roles_of :: "assignment \<Rightarrow> date list \<Rightarrow> date \<Rightarrow> string set" where
  "roles_of asg ds d =
     set (map fst (filter (\<lambda>(role, idxs). role \<noteq> ''final_fit_train''
                              \<and> list_ex (\<lambda>i. ds ! i = d) idxs) asg))"

definition check_same_session_grouping ::
  "assignment \<Rightarrow> date list \<Rightarrow> fold_violation + unit" where
  "check_same_session_grouping asg ds =
     (if list_ex (\<lambda>(role, idxs). role \<noteq> ''final_fit_train''
                     \<and> list_ex (\<lambda>i. i \<ge> length ds) idxs) asg
      then Inl FOLD_INDEX_ERROR
      else if list_ex (\<lambda>d. card (roles_of asg ds d) > 1) ds then Inl SESSION_GROUPING
      else Inr ())"


subsection \<open>The loop of the splitter\<close>

definition splitter_ok :: "splitter \<Rightarrow> bool" where
  "splitter_ok sp \<longleftrightarrow> 1 \<le> sp_horizon sp \<and> 1 \<le> sp_val sp \<and> 1 \<le> sp_test sp \<and> 1 \<le> sp_roll sp
     \<and> 1 \<le> sp_min_train sp \<and> sp_gap sp = sp_horizon sp + sp_embargo sp"

lemma make_splitter_ok: "make_splitter h e v t r m = Inr sp \<Longrightarrow> splitter_ok sp"
  by (auto simp: make_splitter_def splitter_ok_def split: if_splits)

definition fold_count :: "calendar \<Rightarrow> splitter \<Rightarrow> nat \<Rightarrow> nat" where
  "fold_count c sp t0 =
     (if t0 + sp_test sp \<le> length (cal_sessions c)
      then (length (cal_sessions c) - (t0 + sp_test sp)) div sp_roll sp + 1 else 0)"

definition folds_from :: "calendar \<Rightarrow> splitter \<Rightarrow> nat \<Rightarrow> nat \<Rightarrow> fold list" where
  "folds_from c sp t0 k =
     map (\<lambda>j. fold_at c sp (t0 + j * sp_roll sp) (k + j)) [0..<fold_count c sp t0]"

lemma fold_count_step:
  assumes "t0 + sp_test sp \<le> length (cal_sessions c)" and "1 \<le> sp_roll sp"
  shows "fold_count c sp t0 = Suc (fold_count c sp (t0 + sp_roll sp))"
proof -
  define m where "m = length (cal_sessions c) - (t0 + sp_test sp)"
  show ?thesis
  proof (cases "sp_roll sp \<le> m")
    case True
    then have "m div sp_roll sp = (m - sp_roll sp) div sp_roll sp + 1"
      using assms(2) by (simp add: le_div_geq)
    then show ?thesis using True assms by (auto simp: fold_count_def m_def algebra_simps)
  next
    case False
    then show ?thesis using assms by (auto simp: fold_count_def m_def)
  qed
qed

lemma folds_from_step:
  assumes "t0 + sp_test sp \<le> length (cal_sessions c)" and "1 \<le> sp_roll sp"
  shows "folds_from c sp t0 k = fold_at c sp t0 k # folds_from c sp (t0 + sp_roll sp) (Suc k)"
  by (simp add: folds_from_def fold_count_step [OF assms] upt_conv_Cons map_Suc_upt [symmetric]
      o_def algebra_simps del: upt_Suc)

lemma splits_loop_eq:
  assumes "splitter_ok sp" and "first_test_start sp \<le> t0"
  shows "splits_loop c sp t0 k acc = Some (acc @ folds_from c sp t0 k)"
  using assms(2)
proof (induction "length (cal_sessions c) - t0" arbitrary: t0 k acc rule: less_induct)
  case less
  show ?case
  proof (cases "t0 + sp_test sp \<le> length (cal_sessions c)")
    case True
    from assms(1) have pos: "1 \<le> sp_roll sp" "1 \<le> sp_test sp" by (auto simp: splitter_ok_def)
    have "\<not> t0 - sp_val sp - sp_gap sp < sp_min_train sp"
      using less.prems by (simp add: first_test_start_def)
    then have "splits_loop c sp t0 k acc
        = splits_loop c sp (t0 + sp_roll sp) (Suc k) (acc @ [fold_at c sp t0 k])"
      using True by (subst splits_loop.simps) simp
    also have "\<dots> = Some ((acc @ [fold_at c sp t0 k]) @ folds_from c sp (t0 + sp_roll sp) (Suc k))"
      using True pos less.prems by (intro less.hyps) auto
    finally show ?thesis using folds_from_step [OF True pos(1)] by simp
  next
    case False
    then show ?thesis by (subst splits_loop.simps) (simp add: folds_from_def fold_count_def)
  qed
qed

lemma folds_from_in_range:
  assumes "f \<in> set (folds_from c sp t0 k)"
  shows "\<exists>j. f = fold_at c sp (t0 + j * sp_roll sp) (k + j)
             \<and> t0 + j * sp_roll sp + sp_test sp \<le> length (cal_sessions c)"
proof -
  obtain j where j: "f = fold_at c sp (t0 + j * sp_roll sp) (k + j)" "j < fold_count c sp t0"
    using assms by (auto simp: folds_from_def)
  then have n: "t0 + sp_test sp \<le> length (cal_sessions c)"
    by (auto simp: fold_count_def split: if_splits)
  with j(2) have "j \<le> (length (cal_sessions c) - (t0 + sp_test sp)) div sp_roll sp"
    by (simp add: fold_count_def)
  then have "j * sp_roll sp \<le> length (cal_sessions c) - (t0 + sp_test sp)"
    by (meson div_times_less_eq_dividend le_trans mult_le_mono1)
  with j(1) n show ?thesis by (intro exI [of _ j]) auto
qed

subsection \<open>The blocks of one fold, by ordinal\<close>

lemma image_take: "a \<le> length xs \<Longrightarrow> set (take a xs) = (\<lambda>i. xs ! i) ` {..<a}"
  using nth_image [of a xs] by (simp add: atLeast0LessThan)

lemma image_slice:
  "a + m \<le> length xs \<Longrightarrow> set (take m (drop a xs)) = (\<lambda>i. xs ! i) ` {a..<a + m}"
proof -
  assume "a + m \<le> length xs"
  then have "x \<in> set (take m (drop a xs)) \<longleftrightarrow> (\<exists>i. a \<le> i \<and> i < a + m \<and> x = xs ! i)" for x
    using set_slice_iff [of "a + m" xs x a] by simp
  then show ?thesis by (intro set_eqI) (auto simp: image_iff Bex_def)
qed

lemma fold_at_blocks:
  assumes "first_test_start sp \<le> t0" and "t0 + sp_test sp \<le> length (cal_sessions c)"
  defines "s \<equiv> \<lambda>i. cal_sessions c ! i"
  shows "train_sessions (fold_at c sp t0 k) = s ` {..<t0 - sp_val sp - sp_gap sp}"
    and "validation_sessions (fold_at c sp t0 k) = s ` {t0 - sp_val sp..<t0}"
    and "test_sessions (fold_at c sp t0 k) = s ` {t0..<t0 + sp_test sp}"
    and "final_fit_train_sessions (fold_at c sp t0 k) =
      s ` {..<t0 - sp_val sp - sp_gap sp} \<union> s ` {i. t0 - sp_val sp \<le> i \<and> i + sp_gap sp < t0}"
    and "fold_id (fold_at c sp t0 k) = k"
proof -
  have v: "sp_val sp \<le> t0" using assms(1) by (simp add: first_test_start_def)
  show "train_sessions (fold_at c sp t0 k) = s ` {..<t0 - sp_val sp - sp_gap sp}"
    using assms by (simp add: fold_at_def Let_def image_take)
  show "validation_sessions (fold_at c sp t0 k) = s ` {t0 - sp_val sp..<t0}"
    using assms v image_slice [of "t0 - sp_val sp" "sp_val sp" "cal_sessions c"]
    by (simp add: fold_at_def Let_def)
  show "test_sessions (fold_at c sp t0 k) = s ` {t0..<t0 + sp_test sp}"
    using assms by (simp add: fold_at_def Let_def image_slice)
  show "final_fit_train_sessions (fold_at c sp t0 k) =
      s ` {..<t0 - sp_val sp - sp_gap sp} \<union> s ` {i. t0 - sp_val sp \<le> i \<and> i + sp_gap sp < t0}"
    using assms by (auto simp: fold_at_def Let_def image_take image_iff)
  show "fold_id (fold_at c sp t0 k) = k" by (simp add: fold_at_def Let_def)
qed

lemma ord_of_nth: "calendar_ok c \<Longrightarrow> i < length (cal_sessions c) \<Longrightarrow> ord_of c (cal_sessions c ! i) = int i"
  by (simp add: ord_of_def static_cal.ordinal_nth)

lemma nth_session: "i < length (cal_sessions c) \<Longrightarrow> is_session c (cal_sessions c ! i)"
  by (simp add: is_session_def)

lemma nth_image_disjoint:
  assumes "calendar_ok c" "A \<subseteq> {..<length (cal_sessions c)}" "B \<subseteq> {..<length (cal_sessions c)}"
    and "A \<inter> B = {}"
  shows "(\<lambda>i. cal_sessions c ! i) ` A \<inter> (\<lambda>i. cal_sessions c ! i) ` B = {}"
proof -
  have "inj_on (\<lambda>i. cal_sessions c ! i) {..<length (cal_sessions c)}"
    using sorted_wrt_less_nth_eq [of "cal_sessions c"] assms(1)
    by (auto simp: inj_on_def calendar_ok_def)
  then show ?thesis using assms(2-) by (metis inj_on_image_Int image_empty)
qed

lemma fold_at_check:
  assumes ok: "calendar_ok c" and sp: "splitter_ok sp" and t0: "first_test_start sp \<le> t0"
    and n: "t0 + sp_test sp \<le> length (cal_sessions c)"
  shows "check_fold c (int (sp_horizon sp)) (int (sp_embargo sp)) (fold_at c sp t0 k) = Inr ()"
proof -
  let ?s = "\<lambda>i. cal_sessions c ! i" and ?n = "length (cal_sessions c)"
  let ?a = "t0 - sp_val sp - sp_gap sp" and ?v = "t0 - sp_val sp"
  have pos: "1 \<le> sp_test sp" "1 \<le> sp_val sp" "1 \<le> ?a" "?a + sp_gap sp = ?v" "?v < t0" "t0 < ?n"
    and gap: "sp_gap sp = sp_horizon sp + sp_embargo sp"
    using sp t0 n by (auto simp: splitter_ok_def first_test_start_def)
  note bl = fold_at_blocks [OF t0 n, of k]
  have ev: "all_eval_sessions (fold_at c sp t0 k) = ?s ` {?v..<t0 + sp_test sp}"
  proof -
    have "{?v..<t0} \<union> {t0..<t0 + sp_test sp} = {?v..<t0 + sp_test sp}" using pos by auto
    then show ?thesis by (simp add: all_eval_sessions_def bl image_Un [symmetric])
  qed
  have nth: "ord_of c (?s i) = int i" if "i < ?n" for i using that ok by (simp add: ord_of_nth)
  have tr: "ord_of c ` train_sessions (fold_at c sp t0 k) = int ` {..<?a}"
    using pos n by (simp add: bl image_image nth)
  have evo: "ord_of c ` all_eval_sessions (fold_at c sp t0 k) = int ` {?v..<t0 + sp_test sp}"
    using pos n by (simp add: ev image_image nth)
  have disj: "train_sessions (fold_at c sp t0 k) \<inter> validation_sessions (fold_at c sp t0 k) = {}"
      "train_sessions (fold_at c sp t0 k) \<inter> test_sessions (fold_at c sp t0 k) = {}"
      "validation_sessions (fold_at c sp t0 k) \<inter> test_sessions (fold_at c sp t0 k) = {}"
    unfolding bl using pos n by (intro nth_image_disjoint [OF ok]; auto)+
  have ne: "train_sessions (fold_at c sp t0 k) \<noteq> {}" "all_eval_sessions (fold_at c sp t0 k) \<noteq> {}"
    using pos by (auto simp: bl ev lessThan_empty_iff)
  have known: "\<forall>x \<in> train_sessions (fold_at c sp t0 k). is_session c x"
      "\<forall>x \<in> all_eval_sessions (fold_at c sp t0 k). is_session c x"
    using pos n by (auto simp: bl ev nth_session)
  have mm: "Min (int ` {?v..<t0 + sp_test sp}) = int ?v" "Max (int ` {..<?a}) = int ?a - 1"
  proof -
    show "Min (int ` {?v..<t0 + sp_test sp}) = int ?v" by (rule Min_eqI) (use pos in \<open>auto simp del: of_nat_diff\<close>)
    show "Max (int ` {..<?a}) = int ?a - 1"
      by (rule Max_eqI) (use pos in \<open>auto intro!: image_eqI [of _ _ "?a - 1"]\<close>)
  qed
  have purge: "\<not> (\<exists>x \<in> train_sessions (fold_at c sp t0 k).
      \<exists>y \<in> all_eval_sessions (fold_at c sp t0 k). ord_of c y - ord_of c x \<le> int (sp_horizon sp))"
    using pos n gap by (auto simp: bl ev nth)
  have ret: "final_fit_train_sessions (fold_at c sp t0 k) - train_sessions (fold_at c sp t0 k)
      \<subseteq> ?s ` {i. ?v \<le> i \<and> i + sp_gap sp < t0}"
    by (auto simp: bl)
  have final: "\<forall>x \<in> final_fit_train_sessions (fold_at c sp t0 k) - train_sessions (fold_at c sp t0 k).
      is_session c x \<and> (\<forall>y \<in> test_sessions (fold_at c sp t0 k).
        is_session c y \<and> \<not> ord_of c y - ord_of c x \<le> int (sp_horizon sp) + int (sp_embargo sp))"
    using ret pos n gap by (fastforce simp: bl nth nth_session)
  have hd: "hd (cal_sessions c) = ?s 0" using ok by (simp add: calendar_ok_def hd_conv_nth)
  have anchor: "Min (train_sessions (fold_at c sp t0 k)) = hd (cal_sessions c)"
  proof (rule Min_eqI)
    show "hd (cal_sessions c) \<in> train_sessions (fold_at c sp t0 k)"
      using pos by (auto simp: bl hd intro!: image_eqI [of _ _ 0])
    fix y assume "y \<in> train_sessions (fold_at c sp t0 k)"
    then obtain i where "y = ?s i" "i < ?n" using pos n by (auto simp: bl)
    then show "hd (cal_sessions c) \<le> y"
      using ok sorted_wrt_less_nth [of "cal_sessions c" 0 i] pos
      by (cases "i = 0") (auto simp: calendar_ok_def hd)
  qed (simp add: bl)
  show ?thesis
    using disj ne known purge final anchor gap pos mm
    by (auto simp: check_fold_def Let_def tr evo)
qed

subsection \<open>The whole list of folds\<close>

lemma tests_disjoint_iff:
  "tests_disjoint seen fs \<longleftrightarrow>
     (\<forall>f \<in> set fs. test_sessions f \<inter> seen = {}) \<and>
     sorted_wrt (\<lambda>f g. test_sessions f \<inter> test_sessions g = {}) fs"
  by (induction fs arbitrary: seen) auto

lemma check_each_ok: "(\<forall>f \<in> set fs. check_fold c h e f = Inr ()) \<Longrightarrow> check_each c h e fs = Inr ()"
  by (induction fs) auto

lemma check_each_okD: "check_each c h e fs = Inr u \<Longrightarrow> f \<in> set fs \<Longrightarrow> check_fold c h e f = Inr ()"
  by (induction fs) (auto split: sum.splits)

lemma folds_from_ids: "map fold_id (folds_from c sp t0 k) = [k..<k + fold_count c sp t0]"
  by (rule nth_equalityI) (auto simp: folds_from_def fold_at_def Let_def)

lemma folds_from_tests:
  assumes ok: "calendar_ok c" and sp: "splitter_ok sp" and "sp_test sp \<le> sp_roll sp"
    and t0: "first_test_start sp \<le> t0"
  shows "tests_disjoint {} (folds_from c sp t0 k)"
proof -
  have pair: "test_sessions (fold_at c sp (t0 + i * sp_roll sp) (k + i))
      \<inter> test_sessions (fold_at c sp (t0 + j * sp_roll sp) (k + j)) = {}"
    if ij: "i < j" and j: "j < fold_count c sp t0" for i j
  proof -
    have n: "t0 + j * sp_roll sp + sp_test sp \<le> length (cal_sessions c)"
    proof -
      have "fold_at c sp (t0 + j * sp_roll sp) (k + j) \<in> set (folds_from c sp t0 k)"
        using j by (auto simp: folds_from_def)
      then obtain j' where "fold_at c sp (t0 + j * sp_roll sp) (k + j)
            = fold_at c sp (t0 + j' * sp_roll sp) (k + j')"
          "t0 + j' * sp_roll sp + sp_test sp \<le> length (cal_sessions c)"
        using folds_from_in_range by blast
      then show ?thesis by (auto simp: fold_at_def Let_def dest: arg_cong [of _ _ fold_id])
    qed
    have "i * sp_roll sp + sp_roll sp \<le> j * sp_roll sp"
      using ij mult_le_mono1 [of "Suc i" j "sp_roll sp"] by simp
    then have le: "t0 + i * sp_roll sp + sp_test sp \<le> t0 + j * sp_roll sp" using assms(3) by simp
    have "test_sessions (fold_at c sp (t0 + i * sp_roll sp) (k + i))
        = (\<lambda>i. cal_sessions c ! i) ` {t0 + i * sp_roll sp..<t0 + i * sp_roll sp + sp_test sp}"
      using t0 le n by (intro fold_at_blocks) auto
    moreover have "test_sessions (fold_at c sp (t0 + j * sp_roll sp) (k + j))
        = (\<lambda>i. cal_sessions c ! i) ` {t0 + j * sp_roll sp..<t0 + j * sp_roll sp + sp_test sp}"
      using t0 n by (intro fold_at_blocks) auto
    ultimately show ?thesis using le n nth_image_disjoint [OF ok] by (simp add: subset_eq)
  qed
  then show ?thesis
    by (auto simp: tests_disjoint_iff sorted_wrt_iff_nth_less folds_from_def)
qed

lemma splits_closed_form:
  assumes "splitter_ok sp"
  shows "splits c sp None = Some (Inr (folds_from c sp (first_test_start sp) 0))"
  using splits_loop_eq [OF assms, of "first_test_start sp" c 0 "[]"] by (simp add: splits_def)

lemma folds_from_checked:
  assumes "calendar_ok c" "splitter_ok sp" "sp_test sp \<le> sp_roll sp"
  shows "check_folds c (folds_from c sp (first_test_start sp) 0)
           (int (sp_horizon sp)) (int (sp_embargo sp)) = Inr ()"
proof -
  have "check_each c (int (sp_horizon sp)) (int (sp_embargo sp))
      (folds_from c sp (first_test_start sp) 0) = Inr ()"
    using folds_from_in_range fold_at_check [OF assms(1,2)]
    by (intro check_each_ok ballI) (metis le_add1)
  then show ?thesis
    using folds_from_tests [OF assms, of "first_test_start sp" 0] assms(1)
    by (simp add: check_folds_def folds_from_ids calendar_ok_def)
qed

subsection \<open>Soundness of the checker\<close>

lemma check_fold_purged:
  assumes "check_fold c h e f = Inr ()" and "s \<in> train_sessions f" and "t \<in> all_eval_sessions f"
  shows "ord_of c t - ord_of c s > h" and "is_session c s" and "is_session c t"
proof -
  note chk = assms(1) [unfolded check_fold_def Let_def raise_simps]
  have ne: "train_sessions f \<noteq> {}" using assms(2) by blast
  show "ord_of c t - ord_of c s > h" using chk assms(2,3) by (meson not_le)
  show "is_session c s" using chk assms(2) by blast
  show "is_session c t" using chk ne assms(3) by blast
qed

lemma check_fold_embargo:
  assumes fin: "finite (train_sessions f)" "finite (all_eval_sessions f)"
    and chk: "check_fold c h e f = Inr ()"
    and s: "s \<in> train_sessions f" and t: "t \<in> all_eval_sessions f"
  shows "ord_of c t - ord_of c s > h + e"
proof -
  have "\<not> Min (ord_of c ` all_eval_sessions f) - Max (ord_of c ` train_sessions f) \<le> h + e"
    using chk [unfolded check_fold_def Let_def raise_simps] s by blast
  moreover have "Min (ord_of c ` all_eval_sessions f) \<le> ord_of c t"
      "ord_of c s \<le> Max (ord_of c ` train_sessions f)"
    using fin s t by auto
  ultimately show ?thesis by linarith
qed

lemma check_fold_refit:
  assumes chk: "check_fold c h e f = Inr ()"
    and fin: "finite (train_sessions f)" "finite (all_eval_sessions f)"
    and s: "s \<in> final_fit_train_sessions f" and t: "t \<in> test_sessions f"
  shows "ord_of c t - ord_of c s > h + e"
proof (cases "s \<in> train_sessions f")
  case True
  moreover have "t \<in> all_eval_sessions f" using t by (simp add: all_eval_sessions_def)
  ultimately show ?thesis using check_fold_embargo [OF fin chk] by simp
next
  case False
  with s have "s \<in> final_fit_train_sessions f - train_sessions f" by blast
  then show ?thesis using chk [unfolded check_fold_def Let_def raise_simps] t by (meson not_le)
qed

lemma check_folds_each: "check_folds c fs h e = Inr () \<Longrightarrow> f \<in> set fs \<Longrightarrow> check_fold c h e f = Inr ()"
  by (auto simp: check_folds_def split: if_splits sum.splits intro: check_each_okD)

subsection \<open>Row assignment\<close>

definition rows_where :: "nat \<Rightarrow> date list \<Rightarrow> (date \<Rightarrow> bool) \<Rightarrow> nat list" where
  "rows_where idx ds P = map (\<lambda>(i, d). idx + i) (filter (\<lambda>(i, d). P d) (List.enumerate 0 ds))"

lemma rows_where_Cons:
  "rows_where idx (d # ds) P = (if P d then [idx] else []) @ rows_where (Suc idx) ds P"
proof -
  have "List.enumerate (Suc 0) ds = map (apfst Suc) (List.enumerate 0 ds)"
    by (simp add: enumerate_eq_zip zip_map1 [symmetric] map_Suc_upt [symmetric] del: upt_Suc)
       (simp add: zip_map1 apfst_def map_prod_def split_beta)
  then show ?thesis
    by (simp add: rows_where_def filter_map o_def case_prod_beta')
qed

lemma rows_where_Nil [simp]: "rows_where idx [] P = []"
  by (simp add: rows_where_def)

lemma rows_where_set: "set (rows_where idx ds P) = {idx + i |i. i < length ds \<and> P (ds ! i)}"
  by (force simp: rows_where_def in_set_enumerate_eq)

lemma assign_loop_eq:
  "assign_loop f idx ds tr va te ff =
     [(''train'', tr @ rows_where idx ds (\<lambda>d. d \<in> train_sessions f)),
      (''validation'', va @ rows_where idx ds (\<lambda>d. d \<notin> train_sessions f \<and> d \<in> validation_sessions f)),
      (''test'', te @ rows_where idx ds (\<lambda>d. d \<notin> train_sessions f \<and> d \<notin> validation_sessions f
                                            \<and> d \<in> test_sessions f)),
      (''final_fit_train'', ff @ rows_where idx ds (\<lambda>d. d \<in> train_sessions f
          \<or> d \<in> validation_sessions f \<and> d \<in> final_fit_train_sessions f))]"
  by (induction f idx ds tr va te ff rule: assign_loop.induct) (auto simp: rows_where_Cons)

definition role_of :: "fold \<Rightarrow> date \<Rightarrow> string set" where
  "role_of f d = (if d \<in> train_sessions f then {''train''}
     else if d \<in> validation_sessions f then {''validation''}
     else if d \<in> test_sessions f then {''test''} else {})"

lemma roles_of_assign: "d \<in> set ds \<Longrightarrow> roles_of (assign_rows f ds) ds d = role_of f d"
  by (auto simp: roles_of_def assign_rows_def assign_loop_eq role_of_def list_ex_iff rows_where_set
      in_set_conv_nth)

subsection \<open>Properties\<close>

definition sample_splitter :: splitter where
  "sample_splitter = \<lparr>sp_horizon = 1, sp_embargo = 1, sp_gap = 2, sp_val = 3, sp_test = 2,
     sp_roll = 2, sp_min_train = 3\<rparr>"

lemma sample_splitter_made: "make_splitter 1 1 3 2 2 3 = Inr sample_splitter"
  by (simp add: make_splitter_def sample_splitter_def)

text \<open>A roll shorter than the test window makes overlapping test blocks, and the checker
  refuses them: with room for a second fold, \<open>check_folds\<close> reports COVERAGE.\<close>

lemma short_roll_refused:
  assumes "calendar_ok c" and "make_splitter h e v t r m = Inr sp" and "r < t"
    and "first_test_start sp + nat r + nat t \<le> length (cal_sessions c)"
  shows "\<exists>folds. splits c sp None = Some (Inr folds) \<and> check_each c h e folds = Inr ()
    \<and> check_folds c folds h e = Inl COVERAGE"
proof -
  let ?t0 = "first_test_start sp" and ?folds = "folds_from c sp (first_test_start sp) 0"
  have sp: "splitter_ok sp" using assms(2) by (rule make_splitter_ok)
  have par: "sp_test sp = nat t" "sp_roll sp = nat r" "int (sp_horizon sp) = h"
      "int (sp_embargo sp) = e" "1 \<le> r"
    using assms(2) by (auto simp: make_splitter_def split: if_splits)
  have n: "?t0 + sp_test sp \<le> length (cal_sessions c)"
      "?t0 + sp_roll sp + sp_test sp \<le> length (cal_sessions c)"
    using assms(4) par by auto
  have each: "check_each c h e ?folds = Inr ()"
    using folds_from_in_range fold_at_check [OF assms(1) sp] par
    by (intro check_each_ok ballI) (metis le_add1)
  have pos: "1 \<le> sp_roll sp" using sp by (simp add: splitter_ok_def)
  let ?x = "cal_sessions c ! (?t0 + sp_roll sp)"
  have "?x \<in> test_sessions (fold_at c sp ?t0 0)"
      "?x \<in> test_sessions (fold_at c sp (?t0 + sp_roll sp) (Suc 0))"
    using fold_at_blocks(3) [OF order_refl n(1)] fold_at_blocks(3) [OF le_add1 n(2)] par assms(3)
    by auto
  then have "\<not> tests_disjoint {} ?folds"
    using folds_from_step [OF n(1) pos, of 0] folds_from_step [OF n(2) pos, of "Suc 0"] by auto
  then have "check_folds c ?folds h e = Inl COVERAGE"
    using each assms(1) by (simp add: check_folds_def folds_from_ids calendar_ok_def)
  then show ?thesis using splits_closed_form [OF sp] each by blast
qed

lemma folds_from_each:
  assumes "calendar_ok c" "splitter_ok sp"
  shows "check_each c (int (sp_horizon sp)) (int (sp_embargo sp)) (folds_from c sp (first_test_start sp) 0) = Inr ()"
  using folds_from_in_range fold_at_check [OF assms]
  by (intro check_each_ok ballI) (metis le_add1)

lemma folds_from_lone:
  assumes "calendar_ok c" "splitter_ok sp" "length (cal_sessions c) < first_test_start sp + sp_roll sp + sp_test sp"
  shows "check_folds c (folds_from c sp (first_test_start sp) 0)
           (int (sp_horizon sp)) (int (sp_embargo sp)) = Inr ()"
proof -
  let ?t0 = "first_test_start sp"
  have pos: "1 \<le> sp_roll sp" using assms(2) by (simp add: splitter_ok_def)
  have stop: "folds_from c sp (?t0 + sp_roll sp) (Suc 0) = []"
    using assms(3) by (simp add: folds_from_def fold_count_def)
  have "tests_disjoint {} (folds_from c sp ?t0 0)"
  proof (cases "?t0 + sp_test sp \<le> length (cal_sessions c)")
    case True
    then show ?thesis using folds_from_step [OF True pos, of 0] stop by simp
  next
    case False
    then show ?thesis by (simp add: folds_from_def fold_count_def)
  qed
  then show ?thesis
    using folds_from_each [OF assms(1,2)] assms(1)
    by (simp add: check_folds_def folds_from_ids calendar_ok_def)
qed

text \<open>Claim C24. The splitter's loop ends, and each of its folds passes the per-fold checks whatever the
  roll: disjointness of roles, purge, embargo, the refit purge, the anchor (INV-05, INV-06). The check of
  the whole list, distinct ids and disjoint test blocks included, succeeds except when the roll is shorter
  than the test window and the calendar has room for a second fold; then it reports COVERAGE.\<close>

theorem splits_pass_checks:
  assumes "calendar_ok c" and "make_splitter h e v t r m = Inr sp"
  shows "\<exists>folds. splits c sp None = Some (Inr folds) \<and> check_each c h e folds = Inr ()
    \<and> check_folds c folds h e =
        (if r < t \<and> m + h + e + v + r + t \<le> int (length (cal_sessions c)) then Inl COVERAGE else Inr ())"
proof -
  have sp: "splitter_ok sp" using assms(2) by (rule make_splitter_ok)
  have par: "int (sp_test sp) = t" "int (sp_roll sp) = r" "int (sp_horizon sp) = h" "int (sp_embargo sp) = e"
      "int (first_test_start sp) = m + h + e + v" "0 \<le> r" "0 \<le> t"
    using assms(2) by (auto simp: make_splitter_def first_test_start_def split: if_splits)
  show ?thesis
  proof (cases "r < t \<and> m + h + e + v + r + t \<le> int (length (cal_sessions c))")
    case True
    moreover have "first_test_start sp + nat r + nat t \<le> length (cal_sessions c)" using True par by linarith
    ultimately show ?thesis using short_roll_refused [OF assms] by auto
  next
    case False
    have "check_folds c (folds_from c sp (first_test_start sp) 0) h e = Inr ()"
    proof (cases "r < t")
      case True
      with False have "length (cal_sessions c) < first_test_start sp + sp_roll sp + sp_test sp"
        using par by linarith
      then show ?thesis using folds_from_lone [OF assms(1) sp] par(3,4) by simp
    next
      case False
      then have "sp_test sp \<le> sp_roll sp" using par(1,2) by linarith
      then show ?thesis using folds_from_checked [OF assms(1) sp] par(3,4) by simp
    qed
    then show ?thesis
      using False splits_closed_form [OF sp, of c] folds_from_each [OF assms(1) sp] par(3,4) by auto
  qed
qed

theorem splits_pass_checks_witness:
  "(\<exists>folds. splits sample_calendar sample_splitter None = Some (Inr folds)
      \<and> check_folds sample_calendar folds 1 1 = Inr ())
   \<and> (\<exists>folds. splits sample_calendar (sample_splitter\<lparr>sp_roll := 1\<rparr>) None = Some (Inr folds)
      \<and> check_folds sample_calendar folds 1 1 = Inl COVERAGE)"
proof
  show "\<exists>folds. splits sample_calendar sample_splitter None = Some (Inr folds)
      \<and> check_folds sample_calendar folds 1 1 = Inr ()"
    using splits_pass_checks [OF sample_calendar_ok sample_splitter_made] by auto
  have "make_splitter 1 1 3 2 1 3 = Inr (sample_splitter\<lparr>sp_roll := 1\<rparr>)"
    by (simp add: make_splitter_def sample_splitter_def)
  from splits_pass_checks [OF sample_calendar_ok this]
  show "\<exists>folds. splits sample_calendar (sample_splitter\<lparr>sp_roll := 1\<rparr>) None = Some (Inr folds)
      \<and> check_folds sample_calendar folds 1 1 = Inl COVERAGE"
    by (auto simp: sample_calendar_sessions)
qed

text \<open>The folds, in closed form: fold \<open>j\<close> tests the block of ordinals
  \<open>[T + j * roll, T + j * roll + test)\<close> with \<open>T = min_train + G + val\<close>, validates on the
  \<open>val\<close> ordinals before it, trains on \<open>[0, T + j * roll - val - G)\<close> and refits on the training
  set with the validation ordinals more than \<open>G\<close> before the test block; a next fold would not fit.\<close>

lemma splits_blocks:
  assumes "make_splitter h e v t r m = Inr sp" and "splits c sp None = Some (Inr folds)"
    and "j < length folds"
  defines "s \<equiv> \<lambda>i. cal_sessions c ! i" and "T \<equiv> nat m + nat (h + e) + nat v + j * nat r"
  shows "fold_id (folds ! j) = j
    \<and> test_sessions (folds ! j) = s ` {T..<T + nat t}
    \<and> validation_sessions (folds ! j) = s ` {T - nat v..<T}
    \<and> train_sessions (folds ! j) = s ` {..<T - nat v - nat (h + e)}
    \<and> final_fit_train_sessions (folds ! j) = s ` {..<T - nat v - nat (h + e)}
        \<union> s ` {i. T - nat v \<le> i \<and> i + nat (h + e) < T}
    \<and> T + nat t \<le> length (cal_sessions c)
    \<and> length (cal_sessions c) < nat m + nat (h + e) + nat v + length folds * nat r + nat t"
proof -
  have sp: "splitter_ok sp" using assms(1) by (rule make_splitter_ok)
  have par: "sp_test sp = nat t" "sp_roll sp = nat r" "sp_val sp = nat v" "sp_gap sp = nat (h + e)"
      "first_test_start sp = nat m + nat (h + e) + nat v"
    using assms(1)
    by (auto simp: make_splitter_def first_test_start_def nat_add_distrib split: if_splits)
  let ?t0 = "first_test_start sp"
  have folds: "folds = folds_from c sp ?t0 0" using splits_closed_form [OF sp, of c] assms(2) by simp
  then have j: "j < fold_count c sp ?t0" using assms(3) by (simp add: folds_from_def)
  have fj: "folds ! j = fold_at c sp (?t0 + j * sp_roll sp) j"
    using j by (simp add: folds folds_from_def)
  have "folds ! j \<in> set folds" using assms(3) by simp
  then obtain j' where j': "folds ! j = fold_at c sp (?t0 + j' * sp_roll sp) j'"
      "?t0 + j' * sp_roll sp + sp_test sp \<le> length (cal_sessions c)"
    using folds_from_in_range unfolding folds by fastforce
  then have n: "?t0 + j * sp_roll sp + sp_test sp \<le> length (cal_sessions c)"
    using fj by (auto simp: fold_at_def Let_def)
  have last: "length (cal_sessions c) < ?t0 + length folds * sp_roll sp + sp_test sp"
  proof -
    let ?m = "length (cal_sessions c) - (?t0 + sp_test sp)"
    have "length folds = ?m div sp_roll sp + 1"
      using n by (simp add: folds folds_from_def fold_count_def)
    moreover have "?m < (?m div sp_roll sp + 1) * sp_roll sp"
      using sp dividend_less_times_div [of "sp_roll sp" ?m]
      by (simp add: splitter_ok_def algebra_simps)
    ultimately show ?thesis by simp
  qed
  show ?thesis
    using fold_at_blocks [OF le_add1 n, of j] n last fj
    by (simp add: s_def T_def par)
qed

theorem splits_blocks_witness:
  "test_sessions (folds_from sample_calendar sample_splitter 8 0 ! 1)
     = (\<lambda>i. cal_sessions sample_calendar ! i) ` {10..<12}"
proof -
  have sp: "splitter_ok sample_splitter" using sample_splitter_made by (rule make_splitter_ok)
  have "first_test_start sample_splitter = 8" by (simp add: first_test_start_def sample_splitter_def)
  then have run: "splits sample_calendar sample_splitter None
      = Some (Inr (folds_from sample_calendar sample_splitter 8 0))"
    using splits_closed_form [OF sp, of sample_calendar] by simp
  have len: "1 < length (folds_from sample_calendar sample_splitter 8 0)"
    by (simp add: folds_from_def fold_count_def sample_splitter_def sample_calendar_sessions)
  show ?thesis using splits_blocks [OF sample_splitter_made run len] by simp
qed

text \<open>Claim C29. What the checker accepts has no label leak: the label window
  \<open>[s + 1, s + H]\<close> of a training session never reaches an evaluation session, every evaluation
  session is more than \<open>H + E\<close> after every training session, and so is every test session after
  every session of the refit set (INV-06).\<close>

theorem accepted_folds_purged:
  assumes "check_folds c folds h e = Inr ()" and "f \<in> set folds"
    and "finite (train_sessions f)" and "finite (all_eval_sessions f)"
  shows "(\<forall>s \<in> train_sessions f. \<forall>t \<in> all_eval_sessions f.
        ord_of c t \<notin> {ord_of c s + 1..ord_of c s + h} \<and> ord_of c s + h + e < ord_of c t)
    \<and> (\<forall>s \<in> final_fit_train_sessions f. \<forall>t \<in> test_sessions f. ord_of c s + h + e < ord_of c t)"
proof -
  have chk: "check_fold c h e f = Inr ()" using assms(1,2) by (rule check_folds_each)
  show ?thesis
    using check_fold_purged(1) [OF chk] check_fold_embargo [OF assms(3,4) chk]
      check_fold_refit [OF chk assms(3,4)] by fastforce
qed

theorem accepted_folds_purged_witness:
  "ord_of sample_calendar 100 + 1 + 1 < ord_of sample_calendar 105"
proof -
  let ?f = "fold_at sample_calendar sample_splitter 8 0"
  have n: "first_test_start sample_splitter \<le> 8"
      "8 + sp_test sample_splitter \<le> length (cal_sessions sample_calendar)"
    by (simp_all add: first_test_start_def sample_splitter_def sample_calendar_sessions)
  have "check_fold sample_calendar 1 1 ?f = Inr ()"
    using fold_at_check [OF sample_calendar_ok make_splitter_ok [OF sample_splitter_made] n, of 0]
    by (simp add: sample_splitter_def)
  then have chk: "check_folds sample_calendar [?f] 1 1 = Inr ()"
    by (simp add: check_folds_def sample_calendar_sessions)
  have "100 \<in> train_sessions ?f" "105 \<in> all_eval_sessions ?f"
      "finite (train_sessions ?f)" "finite (all_eval_sessions ?f)"
    by (auto simp: all_eval_sessions_def fold_at_def sample_splitter_def sample_calendar_sessions)
  then show ?thesis using accepted_folds_purged [OF chk] by auto
qed

text \<open>Rows of one decision session stay in one role: whatever the fold and the rows, the
  assignment passes the grouping check, and a row index lies in a role exactly when its session's
  membership says so (INV-05).\<close>

lemma assign_rows_grouped:
  "check_same_session_grouping (assign_rows f ds) ds = Inr ()
   \<and> assign_rows f ds =
     [(''train'', rows_where 0 ds (\<lambda>d. d \<in> train_sessions f)),
      (''validation'', rows_where 0 ds (\<lambda>d. d \<notin> train_sessions f \<and> d \<in> validation_sessions f)),
      (''test'', rows_where 0 ds (\<lambda>d. d \<notin> train_sessions f \<and> d \<notin> validation_sessions f
                                       \<and> d \<in> test_sessions f)),
      (''final_fit_train'', rows_where 0 ds (\<lambda>d. d \<in> train_sessions f
          \<or> d \<in> validation_sessions f \<and> d \<in> final_fit_train_sessions f))]"
proof -
  have rows: "list_ex (\<lambda>(role, idxs). role \<noteq> ''final_fit_train'' \<and> list_ex (\<lambda>i. i \<ge> length ds) idxs)
      (assign_rows f ds) = False"
    by (auto simp: assign_rows_def assign_loop_eq list_ex_iff rows_where_set)
  have "list_ex (\<lambda>d. card (roles_of (assign_rows f ds) ds d) > 1) ds = False"
    by (auto simp: list_ex_iff roles_of_assign role_of_def)
  then have "check_same_session_grouping (assign_rows f ds) ds = Inr ()"
    unfolding check_same_session_grouping_def rows by simp
  then show ?thesis by (simp add: assign_rows_def assign_loop_eq)
qed

end
