(* ===== verification/Market.thy ===== *)
theory Market
  imports Prelude Calendar
begin

text \<open>
  Quotes, of \<open>schemas/market.py\<close>: the raw two-sided quote and the daily VWAP bar, the graded
  refusals of \<open>as_tradable\<close> and \<open>as_tradable_vwap\<close>, the choice of the latest quote by
  \<open>select_quote\<close> and the tick rounding against the taker; and the midpoint price of
  \<open>guards/fills.py\<close>. A stream of quotes of both kinds is a list of the sum type \<open>quote\<close>.
\<close>

datatype side = Buy | Sell

record quote_event =
  qe_contract_id :: ident
  qe_exchange_timestamp :: instant
  qe_received_timestamp :: instant
  qe_bid :: decimal
  qe_ask :: decimal
  qe_bid_size :: int
  qe_ask_size :: int
  qe_condition :: string
  qe_source :: string

record vwap_quote_event =
  vw_contract_id :: ident
  vw_session :: date
  vw_exchange_timestamp :: instant
  vw_received_timestamp :: instant
  vw_vwap :: decimal
  vw_volume :: int
  vw_trade_count :: int
  vw_condition :: string
  vw_source :: string

datatype quote = TwoSided quote_event | Vwap vwap_quote_event

datatype quote_error =
    StaleQuoteError | NonpositiveQuoteError | NonTickQuoteError | CrossedQuoteError
  | LockedQuoteError | ZeroSizeQuoteError | NonTradableConditionError | ZeroVolumeVwapError
  | AmbiguousQuoteTie | QuoteValidationError

definition tradable_conditions :: "string set" where
  "tradable_conditions = {''regular'', ''opening'', ''closing'', ''regular_trading''}"

subsection \<open>Schema validation of the raw events\<close>

definition quote_event_ok :: "quote_event \<Rightarrow> bool" where
  "quote_event_ok q \<longleftrightarrow> 0 \<le> qe_bid q \<and> 0 \<le> qe_ask q \<and> 0 \<le> qe_bid_size q \<and> 0 \<le> qe_ask_size q
     \<and> qe_exchange_timestamp q \<le> qe_received_timestamp q"

definition vwap_event_ok :: "vwap_quote_event \<Rightarrow> bool" where
  "vwap_event_ok q \<longleftrightarrow> 0 < vw_vwap q \<and> 0 \<le> vw_volume q \<and> 0 \<le> vw_trade_count q
     \<and> vw_exchange_timestamp q \<le> vw_received_timestamp q"

subsection \<open>The two doors a fill may use\<close>

definition on_tick :: "decimal \<Rightarrow> bool" where
  "on_tick price \<longleftrightarrow> of_int \<lfloor>price * 100\<rfloor> = price * 100"

definition tradable_quote_ok :: "quote_event \<Rightarrow> bool" where
  "tradable_quote_ok q \<longleftrightarrow> (0 < qe_bid q \<and> qe_bid q \<le> qe_ask q)
     \<and> \<not> (qe_bid_size q < 1 \<or> qe_ask_size q < 1) \<and> qe_condition q \<in> tradable_conditions"

definition as_tradable ::
  "quote_event \<Rightarrow> instant \<Rightarrow> int \<Rightarrow> bool \<Rightarrow> quote_error + quote_event" where
  "as_tradable q execution_at max_quote_age_seconds reject_locked =
     (if qe_received_timestamp q > execution_at then Inl StaleQuoteError
      else if execution_at - qe_received_timestamp q > max_quote_age_seconds * second
      then Inl StaleQuoteError
      else if qe_bid q \<le> 0 \<or> qe_ask q \<le> 0 then Inl NonpositiveQuoteError
      else if \<not> on_tick (qe_bid q) then Inl NonTickQuoteError
      else if \<not> on_tick (qe_ask q) then Inl NonTickQuoteError
      else if qe_bid q > qe_ask q then Inl CrossedQuoteError
      else if reject_locked \<and> qe_bid q = qe_ask q then Inl LockedQuoteError
      else if qe_bid_size q < 1 \<or> qe_ask_size q < 1 then Inl ZeroSizeQuoteError
      else if qe_condition q \<notin> tradable_conditions then Inl NonTradableConditionError
      else if \<not> tradable_quote_ok q then Inl QuoteValidationError
      else Inr q)"

definition vwap_tradable_ok :: "vwap_quote_event \<Rightarrow> bool" where
  "vwap_tradable_ok q \<longleftrightarrow> \<not> vw_volume q < 1 \<and> vw_condition q \<in> tradable_conditions"

definition as_tradable_vwap ::
  "vwap_quote_event \<Rightarrow> instant \<Rightarrow> quote_error + vwap_quote_event" where
  "as_tradable_vwap q execution_at =
     (if vw_received_timestamp q > execution_at then Inl StaleQuoteError
      else if vw_volume q < 1 then Inl ZeroVolumeVwapError
      else if vw_condition q \<notin> tradable_conditions then Inl NonTradableConditionError
      else if \<not> vwap_tradable_ok q then Inl QuoteValidationError
      else Inr q)"

subsection \<open>Selecting a quote from the stream\<close>

fun q_contract_id :: "quote \<Rightarrow> ident" where
  "q_contract_id (TwoSided q) = qe_contract_id q"
| "q_contract_id (Vwap q) = vw_contract_id q"

fun q_received :: "quote \<Rightarrow> instant" where
  "q_received (TwoSided q) = qe_received_timestamp q"
| "q_received (Vwap q) = vw_received_timestamp q"

fun q_exchange :: "quote \<Rightarrow> instant" where
  "q_exchange (TwoSided q) = qe_exchange_timestamp q"
| "q_exchange (Vwap q) = vw_exchange_timestamp q"

fun q_is_vwap :: "quote \<Rightarrow> bool" where
  "q_is_vwap (TwoSided _) = False"
| "q_is_vwap (Vwap _) = True"

definition q_key :: "quote \<Rightarrow> instant \<times> instant" where
  "q_key q = (q_received q, q_exchange q)"

definition select_quote :: "quote list \<Rightarrow> instant \<Rightarrow> quote_error + quote" where
  "select_quote quotes execution_at =
     (case filter (\<lambda>q. q_received q \<le> execution_at) quotes of
        [] \<Rightarrow> Inl StaleQuoteError
      | q # qs \<Rightarrow>
          let top = first_max q_key q qs;
              tied = filter (\<lambda>x. q_key x = q_key top) (q # qs)
          in if list_ex q_is_vwap tied \<and> list_ex (\<lambda>x. \<not> q_is_vwap x) tied
             then Inl AmbiguousQuoteTie
             else Inr top)"

subsection \<open>Prices against the taker\<close>

definition conservative_tick :: "decimal \<Rightarrow> side \<Rightarrow> decimal" where
  "conservative_tick price s = (case s of
      Buy \<Rightarrow> quantize (of_int \<lceil>price * 100\<rceil> / 100)
    | Sell \<Rightarrow> quantize (of_int \<lfloor>price * 100\<rfloor> / 100))"

text \<open>\<open>int(x * 100)\<close> truncates towards zero.\<close>

definition cents :: "decimal \<Rightarrow> int" where
  "cents x = (if 0 \<le> x then \<lfloor>x * 100\<rfloor> else \<lceil>x * 100\<rceil>)"

definition fraction_to_midpoint :: "decimal \<Rightarrow> decimal \<Rightarrow> side \<Rightarrow> decimal \<Rightarrow> string + decimal" where
  "fraction_to_midpoint bid ask s f =
     (if \<not> (0 \<le> f \<and> f \<le> 1) then Inl ''fraction not in [0, 1]''
      else let b = cents bid; a = cents ask
      in if b \<le> 0 \<or> a < b then Inl ''invalid quote''
      else let mid_half = b + a;
               price_cents = (case s of
                   Buy \<Rightarrow>
                     (let exact = of_int (2 * a) + f * of_int (mid_half - 2 * a);
                          ticks = \<lceil>exact / 2\<rceil>;
                          drop' = max 0 (min (a - ticks) (a - b))
                      in a - drop')
                 | Sell \<Rightarrow>
                     (let exact = of_int (2 * b) + f * of_int (mid_half - 2 * b);
                          ticks = \<lfloor>exact / 2\<rfloor>;
                          rise = max 0 (min (ticks - b) (a - b))
                      in b + rise))
           in Inr (quantize (of_int price_cents / 100)))"

subsection \<open>Lemmas\<close>

lemma on_tick_cents: "on_tick x \<longleftrightarrow> on_cents x"
  by (simp add: on_tick_def on_cents_def)

lemma as_tradable_Inr:
  "as_tradable q ts age lock = Inr q' \<longleftrightarrow> q' = q \<and> qe_received_timestamp q \<le> ts
     \<and> ts - qe_received_timestamp q \<le> age * second \<and> tradable_quote_ok q
     \<and> on_cents (qe_bid q) \<and> on_cents (qe_ask q) \<and> \<not> (lock \<and> qe_bid q = qe_ask q)"
  unfolding as_tradable_def raise_simps on_tick_cents tradable_quote_ok_def
  by (auto simp: not_less)

lemma as_tradable_backstop: "as_tradable q ts age lock \<noteq> Inl QuoteValidationError"
  by (auto simp: as_tradable_def tradable_quote_ok_def split: if_splits)

lemma as_tradable_vwap_Inr:
  "as_tradable_vwap q ts = Inr q' \<longleftrightarrow> q' = q \<and> vw_received_timestamp q \<le> ts \<and> vwap_tradable_ok q"
  unfolding as_tradable_vwap_def raise_simps vwap_tradable_ok_def by auto

lemma select_quote_latest:
  assumes "select_quote qs ts = Inr q"
  shows "q \<in> set qs" and "q_received q \<le> ts"
    and "x \<in> set qs \<Longrightarrow> q_received x \<le> ts \<Longrightarrow> q_key x \<le> q_key q"
    and "x \<in> set qs \<Longrightarrow> q_received x \<le> ts \<Longrightarrow> q_key x = q_key q \<Longrightarrow> q_is_vwap x = q_is_vwap q"
proof -
  obtain y ys where fil: "filter (\<lambda>q. q_received q \<le> ts) qs = y # ys"
    using assms by (auto simp: select_quote_def split: list.splits)
  then have q: "q = first_max q_key y ys"
    using assms by (auto simp: select_quote_def Let_def split: if_splits)
  have elig: "x \<in> set (y # ys) \<longleftrightarrow> x \<in> set qs \<and> q_received x \<le> ts" for x
    by (simp add: fil [symmetric])
  have "q \<in> set (y # ys)" using first_max_in [of q_key y ys] q by simp
  then show "q \<in> set qs" "q_received q \<le> ts" using elig by blast+
  show "q_key x \<le> q_key q" if "x \<in> set qs" "q_received x \<le> ts"
    using that elig [of x] first_max_ge [of x y ys q_key] q by simp
  show "q_is_vwap x = q_is_vwap q" if "x \<in> set qs" "q_received x \<le> ts" "q_key x = q_key q"
  proof -
    have "x \<in> set (filter (\<lambda>x. q_key x = q_key q) (y # ys))"
        "q \<in> set (filter (\<lambda>x. q_key x = q_key q) (y # ys))"
      using that elig [of x] \<open>q \<in> set (y # ys)\<close> by auto
    moreover have "\<not> (list_ex q_is_vwap (filter (\<lambda>x. q_key x = q_key q) (y # ys))
        \<and> list_ex (\<lambda>x. \<not> q_is_vwap x) (filter (\<lambda>x. q_key x = q_key q) (y # ys)))"
      using assms unfolding select_quote_def fil list.case Let_def q [symmetric]
      by (metis Inl_Inr_False)
    ultimately show ?thesis by (auto simp: list_ex_iff simp del: filter.simps)
  qed
qed

text \<open>A later instant before which no further quote was received selects the same quote.\<close>

lemma select_quote_later:
  assumes "ts \<le> ts'" and "\<forall>x \<in> set qs. q_received x \<notin> {ts<..ts'}"
  shows "select_quote qs ts' = select_quote qs ts"
proof -
  have "filter (\<lambda>q. q_received q \<le> ts') qs = filter (\<lambda>q. q_received q \<le> ts) qs"
    using assms by (intro filter_cong) (auto simp: not_less)
  then show ?thesis by (simp add: select_quote_def)
qed

lemma conservative_tick_Buy: "price \<le> conservative_tick price Buy"
  and conservative_tick_Sell: "conservative_tick price Sell \<le> price"
  and conservative_tick_near: "\<bar>conservative_tick price s - price\<bar> < 1 / 100"
proof -
  have q: "quantize (of_int n / 100) = of_int n / 100" for n by (simp add: quantize_def)
  have "price * 100 \<le> of_int \<lceil>price * 100\<rceil>" "of_int \<lceil>price * 100\<rceil> < price * 100 + 1"
    by linarith+
  moreover have "of_int \<lfloor>price * 100\<rfloor> \<le> price * 100" "price * 100 - 1 < of_int \<lfloor>price * 100\<rfloor>"
    by linarith+
  ultimately show "price \<le> conservative_tick price Buy" "conservative_tick price Sell \<le> price"
      "\<bar>conservative_tick price s - price\<bar> < 1 / 100"
    by (cases s; simp add: conservative_tick_def q field_simps)+
qed

lemma conservative_tick_cents: "on_cents (conservative_tick price s)"
  by (cases s) (simp_all add: conservative_tick_def)

lemma cents_exact: "on_cents x \<Longrightarrow> of_int (cents x) = x * 100"
  by (auto simp: cents_def on_cents_iff)

lemma fraction_to_midpoint_bounds:
  assumes "fraction_to_midpoint bid ask s f = Inr p" and "on_cents bid" and "on_cents ask"
  shows "bid \<le> p" and "p \<le> ask" and "on_cents p"
    and "s = Buy \<Longrightarrow> ask + f * ((bid + ask) / 2 - ask) \<le> p"
    and "s = Sell \<Longrightarrow> p \<le> bid + f * ((bid + ask) / 2 - bid)"
proof -
  define a b where "a = cents ask" and "b = cents bid"
  note pr = assms(1) [unfolded fraction_to_midpoint_def Let_def raise_simps,
      folded a_def b_def]
  have f: "0 \<le> f" "f \<le> 1" and ab: "0 < b" "b \<le> a" using pr by auto
  have ca: "ask = of_int a / 100" "bid = of_int b / 100"
    using cents_exact [OF assms(2)] cents_exact [OF assms(3)] by (simp_all add: a_def b_def)
  have q: "quantize (of_int n / 100) = of_int n / 100" for n by (simp add: quantize_def)
  have le: "f * (of_int a - of_int b) \<le> of_int a - of_int b"
    using f ab by (simp add: mult_left_le_one_le)
  have nn: "0 \<le> f * (of_int a - of_int b :: rat)" using f ab by simp
  have abr: "of_int b \<le> (of_int a :: rat)" "0 < (of_int b :: rat)" using ab by simp_all
  show "on_cents p" using pr by auto
  define n where "n = (case s of Buy \<Rightarrow> a - max 0 (min (a - \<lceil>(of_int (2 * a) + f * of_int (b + a - 2 * a)) / 2\<rceil>) (a - b))
      | Sell \<Rightarrow> b + max 0 (min (\<lfloor>(of_int (2 * b) + f * of_int (b + a - 2 * b)) / 2\<rfloor> - b) (a - b)))"
  have "quantize (of_int n / 100) = p"
    unfolding n_def using pr by (cases s) (simp_all only: side.case Inr_inject sum.inject)
  then have p: "p = of_int n / 100" by (simp add: q)
  have "b \<le> n" "n \<le> a" using ab by (cases s; simp add: n_def)+
  then show "bid \<le> p" "p \<le> ask" by (simp_all add: p ca divide_right_mono)
  show "ask + f * ((bid + ask) / 2 - ask) \<le> p" if "s = Buy"
  proof -
    let ?x = "(of_int (2 * a) + f * of_int (b + a - 2 * a)) / 2 :: rat"
    have x: "?x = of_int a - f * (of_int a - of_int b) / 2" by (simp add: field_simps)
    have "?x \<le> of_int a" "of_int b \<le> ?x" unfolding x using le nn abr by linarith+
    then have "\<lceil>?x\<rceil> \<le> a" "b \<le> \<lceil>?x\<rceil>" by linarith+
    then have "n = \<lceil>?x\<rceil>" using that by (auto simp: n_def)
    then have "?x \<le> of_int n" by linarith
    then have "?x / 100 \<le> p" by (simp add: p divide_right_mono)
    moreover have "?x / 100 = ask + f * ((bid + ask) / 2 - ask)" by (simp add: ca x field_simps)
    ultimately show ?thesis by simp
  qed
  show "p \<le> bid + f * ((bid + ask) / 2 - bid)" if "s = Sell"
  proof -
    let ?x = "(of_int (2 * b) + f * of_int (b + a - 2 * b)) / 2 :: rat"
    have x: "?x = of_int b + f * (of_int a - of_int b) / 2" by (simp add: field_simps)
    have "of_int b \<le> ?x" "?x \<le> of_int a" unfolding x using le nn abr by linarith+
    then have "b \<le> \<lfloor>?x\<rfloor>" "\<lfloor>?x\<rfloor> \<le> a" by linarith+
    then have "n = \<lfloor>?x\<rfloor>" using that by (auto simp: n_def)
    then have "of_int n \<le> ?x" by linarith
    then have "p \<le> ?x / 100" by (simp add: p divide_right_mono)
    moreover have "?x / 100 = bid + f * ((bid + ask) / 2 - bid)" by (simp add: ca x field_simps)
    ultimately show ?thesis by simp
  qed
qed

end
