(* ===== verification/Options.thy ===== *)
theory Options
  imports Prelude
begin

text \<open>
  The option contract master of \<open>schemas/options.py\<close>, the daily bar of \<open>data/bars.py\<close>, the
  settlement events of \<open>options/settlement.py\<close> with their single constructor
  \<open>mint_settlement\<close>, and the early-exercise election of \<open>options/exercise.py\<close>. A pydantic
  model is a record; its validators are the function that returns the record or the refusal.
\<close>

datatype call_put = Call | Put

datatype exercise_style = American | European

record deliverable_spec =
  ds_shares_per_contract :: decimal
  ds_underlier_per_share_terms :: ident
  ds_corporate_action_id :: "ident option"

record option_contract =
  oc_contract_id :: ident
  oc_option_root :: ident
  oc_underlying_security_id :: ident
  oc_expiration :: date
  oc_strike :: decimal
  oc_call_put :: call_put
  oc_multiplier :: int
  oc_exercise_style :: exercise_style
  oc_listing_start :: date
  oc_listing_end :: "date option"
  oc_deliverable :: deliverable_spec
  oc_standard_contract_flag :: bool
  oc_corporate_action_id :: "ident option"

datatype contract_error =
    ContractFieldError | ListingEndRequired | ListingOrder | ExpirationBeforeListing
  | NonstandardNeedsAction | NonstandardHundredShares | ActionMismatch
  | StandardNotHundredShares | StandardCarriesAction | StandardMultiplier

definition make_contract :: "option_contract \<Rightarrow> contract_error + option_contract" where
  "make_contract c =
     (if \<not> price_ok (oc_strike c) \<or> oc_multiplier c < 1
         \<or> \<not> 0 < ds_shares_per_contract (oc_deliverable c)
      then Inl ContractFieldError
      else case oc_listing_end c of
          None \<Rightarrow> Inl ListingEndRequired
        | Some listing_end \<Rightarrow>
            if listing_end < oc_listing_start c then Inl ListingOrder
            else if oc_expiration c < oc_listing_start c then Inl ExpirationBeforeListing
            else if \<not> oc_standard_contract_flag c
            then (if oc_corporate_action_id c = None then Inl NonstandardNeedsAction
                  else if ds_shares_per_contract (oc_deliverable c) = 100
                  then Inl NonstandardHundredShares
                  else if ds_corporate_action_id (oc_deliverable c) \<noteq> oc_corporate_action_id c
                  then Inl ActionMismatch
                  else Inr c)
            else (if ds_shares_per_contract (oc_deliverable c) \<noteq> 100
                  then Inl StandardNotHundredShares
                  else if ds_corporate_action_id (oc_deliverable c) \<noteq> None
                  then Inl StandardCarriesAction
                  else if oc_multiplier c \<noteq> 100 then Inl StandardMultiplier
                  else Inr c))"

definition exists_on :: "option_contract \<Rightarrow> date \<Rightarrow> bool" where
  "exists_on c d \<longleftrightarrow> oc_listing_start c \<le> d
     \<and> d \<le> (case oc_listing_end c of None \<Rightarrow> d | Some e \<Rightarrow> e)"

definition expired_on :: "option_contract \<Rightarrow> date \<Rightarrow> bool" where
  "expired_on c d \<longleftrightarrow> d > oc_expiration c"

subsection \<open>Settlement\<close>

record bar_record =
  br_security_id :: ident
  br_session :: date
  br_open :: decimal
  br_high :: decimal
  br_low :: decimal
  br_close :: decimal
  br_volume :: int
  br_source :: ident
  br_source_record_id :: ident
  br_source_row_hash :: ident
  br_snapshot_id :: ident
  br_available_at :: instant

definition bar_ok :: "bar_record \<Rightarrow> bool" where
  "bar_ok b \<longleftrightarrow> price_ok (br_open b) \<and> price_ok (br_high b) \<and> price_ok (br_low b)
     \<and> price_ok (br_close b) \<and> 0 \<le> br_volume b
     \<and> (br_low b \<le> br_open b \<and> br_open b \<le> br_high b)
     \<and> (br_low b \<le> br_close b \<and> br_close b \<le> br_high b)"

datatype settlement_kind = Expiry | EarlyExercise | Terminal

definition intrinsic_value :: "call_put \<Rightarrow> decimal \<Rightarrow> decimal \<Rightarrow> decimal" where
  "intrinsic_value cp strike underlying = (case cp of
      Call \<Rightarrow> max (underlying - strike) 0 | Put \<Rightarrow> max (strike - underlying) 0)"

record exercise_settlement =
  es_settlement_id :: ident
  es_contract_id :: ident
  es_kind :: settlement_kind
  es_quantity :: int
  es_strike :: decimal
  es_call_put :: call_put
  es_multiplier :: int
  es_settlement_price :: decimal
  es_cash :: decimal
  es_session :: date
  es_ts :: instant
  es_ref_id :: ident

datatype settlement_error =
    QuantityBelowOne | BeforeListing | NotOnExpiration | TerminalPastExpiration | NoEarlyRight
  | NotBeforeExpiration | DetectKind | ReferenceAfterDetection | DetectBeforePublication
  | ReferenceSession | ReferenceSecurity | SettlementValidation

text \<open>The fields' own bounds, then \<open>_cash_matches_intrinsic\<close>.\<close>

definition make_settlement :: "exercise_settlement \<Rightarrow> settlement_error + exercise_settlement" where
  "make_settlement s =
     (if es_quantity s < 1 \<or> \<not> price_ok (es_strike s) \<or> es_multiplier s < 1
         \<or> \<not> price_ok (es_settlement_price s) \<or> \<not> money_ok (es_cash s) \<or> es_cash s < 0
      then Inl SettlementValidation
      else if es_cash s \<noteq> quantize (intrinsic_value (es_call_put s) (es_strike s)
              (es_settlement_price s) * of_int (es_quantity s) * of_int (es_multiplier s))
      then Inl SettlementValidation
      else Inr s)"

definition mint_settlement ::
  "option_contract \<Rightarrow> ident \<Rightarrow> settlement_kind \<Rightarrow> int \<Rightarrow> date \<Rightarrow> bar_record \<Rightarrow> instant option
   \<Rightarrow> settlement_error + exercise_settlement" where
  "mint_settlement c sid kind quantity session bar terminal_detect_at =
     (if quantity < 1 then Inl QuantityBelowOne
      else if session < oc_listing_start c then Inl BeforeListing
      else if kind = Expiry \<and> session \<noteq> oc_expiration c then Inl NotOnExpiration
      else if kind = Terminal \<and> session > oc_expiration c then Inl TerminalPastExpiration
      else if kind = EarlyExercise \<and> oc_exercise_style c \<noteq> American then Inl NoEarlyRight
      else if kind = EarlyExercise \<and> session \<ge> oc_expiration c then Inl NotBeforeExpiration
      else if terminal_detect_at \<noteq> None \<and> kind \<noteq> Terminal then Inl DetectKind
      else if terminal_detect_at \<noteq> None \<and> br_session bar > session
      then Inl ReferenceAfterDetection
      else if terminal_detect_at \<noteq> None \<and> the terminal_detect_at < br_available_at bar
      then Inl DetectBeforePublication
      else if terminal_detect_at = None \<and> br_session bar \<noteq> session then Inl ReferenceSession
      else if br_security_id bar \<noteq> oc_underlying_security_id c then Inl ReferenceSecurity
      else let cash = quantize (intrinsic_value (oc_call_put c) (oc_strike c) (br_close bar)
                        * of_int quantity * of_int (oc_multiplier c))
           in make_settlement
                \<lparr>es_settlement_id = sid, es_contract_id = oc_contract_id c, es_kind = kind,
                 es_quantity = quantity, es_strike = oc_strike c, es_call_put = oc_call_put c,
                 es_multiplier = oc_multiplier c, es_settlement_price = br_close bar,
                 es_cash = cash, es_session = session,
                 es_ts = (case terminal_detect_at of
                     None \<Rightarrow> br_available_at bar | Some ts \<Rightarrow> ts),
                 es_ref_id = br_source_record_id bar\<rparr>)"

subsection \<open>Early-exercise election\<close>

record election_inputs =
  ei_exercise_style :: exercise_style
  ei_call_put :: call_put
  ei_expiration_seen :: bool
  ei_mid_premium :: decimal
  ei_bid :: decimal
  ei_intrinsic :: decimal
  ei_pending_dividend :: "decimal option"

definition exercise_discount :: decimal where "exercise_discount = 98 / 100"

definition should_elect_exercise :: "election_inputs \<Rightarrow> bool" where
  "should_elect_exercise i =
     (if ei_exercise_style i \<noteq> American then False
      else if \<not> ei_expiration_seen i then False
      else let time_value = max (ei_mid_premium i - ei_intrinsic i) 0;
               dividend_dominates = (ei_call_put i = Call
                  \<and> (case ei_pending_dividend i of None \<Rightarrow> False | Some d \<Rightarrow> d \<ge> time_value));
               market_underpays = (ei_intrinsic i > 0
                  \<and> ei_bid i < ei_intrinsic i * exercise_discount)
           in dividend_dominates \<or> market_underpays)"

subsection \<open>Lemmas\<close>

lemma make_contract_Inr: "make_contract c = Inr c' \<Longrightarrow> c' = c \<and> price_ok (oc_strike c)
    \<and> 1 \<le> oc_multiplier c \<and> 0 < ds_shares_per_contract (oc_deliverable c)
    \<and> (\<exists>e. oc_listing_end c = Some e \<and> oc_listing_start c \<le> e)
    \<and> oc_listing_start c \<le> oc_expiration c
    \<and> (oc_standard_contract_flag c \<longrightarrow> oc_multiplier c = 100
        \<and> ds_shares_per_contract (oc_deliverable c) = 100)
    \<and> (\<not> oc_standard_contract_flag c \<longrightarrow> oc_corporate_action_id c \<noteq> None
        \<and> ds_corporate_action_id (oc_deliverable c) = oc_corporate_action_id c)"
  by (auto simp: make_contract_def split: if_splits option.splits)

lemma intrinsic_nonneg: "0 \<le> intrinsic_value cp k s"
  by (cases cp) (simp_all add: intrinsic_value_def)

lemma intrinsic_cents: "on_cents k \<Longrightarrow> on_cents s \<Longrightarrow> on_cents (intrinsic_value cp k s)"
  by (cases cp) (auto simp: intrinsic_value_def intro: cents_intros)

definition settlement_ok :: "exercise_settlement \<Rightarrow> bool" where
  "settlement_ok s \<longleftrightarrow> make_settlement s = Inr s"

lemma settlement_okD:
  assumes "settlement_ok s"
  shows "1 \<le> es_quantity s" "1 \<le> es_multiplier s" "price_ok (es_strike s)"
    "price_ok (es_settlement_price s)" "money_ok (es_cash s)" "0 \<le> es_cash s"
    "es_cash s = intrinsic_value (es_call_put s) (es_strike s) (es_settlement_price s)
       * of_int (es_quantity s) * of_int (es_multiplier s)"
proof -
  note g = assms [unfolded settlement_ok_def make_settlement_def raise_simps]
  show "1 \<le> es_quantity s" "1 \<le> es_multiplier s" and p: "price_ok (es_strike s)"
    "price_ok (es_settlement_price s)" and "money_ok (es_cash s)" "0 \<le> es_cash s"
    using g by auto
  have "on_cents (intrinsic_value (es_call_put s) (es_strike s) (es_settlement_price s)
       * of_int (es_quantity s) * of_int (es_multiplier s))"
    using p by (intro cents_intros intrinsic_cents) (simp_all add: price_ok_def)
  then show "es_cash s = intrinsic_value (es_call_put s) (es_strike s) (es_settlement_price s)
       * of_int (es_quantity s) * of_int (es_multiplier s)"
    using g by (simp add: quantize_id)
qed

lemma make_settlement_Inr: "make_settlement s = Inr s' \<Longrightarrow> s' = s \<and> settlement_ok s"
  by (auto simp: settlement_ok_def make_settlement_def split: if_splits)

lemma mint_settlement_ok: "mint_settlement c sid k n d b t = Inr s \<Longrightarrow> settlement_ok s"
  unfolding mint_settlement_def Let_def raise_simps using make_settlement_Inr by blast

lemma mint_settlement_fields:
  "mint_settlement c sid kind n session b detect = Inr s \<Longrightarrow>
     es_call_put s = oc_call_put c \<and> es_strike s = oc_strike c \<and> es_quantity s = n
     \<and> es_multiplier s = oc_multiplier c \<and> es_settlement_price s = br_close b
     \<and> es_ts s = (case detect of None \<Rightarrow> br_available_at b | Some ts \<Rightarrow> ts)"
  unfolding mint_settlement_def make_settlement_def Let_def raise_simps sum.inject
  by (elim conjE, hypsubst, simp)

subsection \<open>Properties\<close>

definition sample_contract :: option_contract where
  "sample_contract = \<lparr>oc_contract_id = ''SPY-C-100'', oc_option_root = ''SPY'',
     oc_underlying_security_id = ''SEC-SPY'', oc_expiration = 112, oc_strike = 100,
     oc_call_put = Call, oc_multiplier = 100, oc_exercise_style = American,
     oc_listing_start = 90, oc_listing_end = Some 112,
     oc_deliverable = \<lparr>ds_shares_per_contract = 100,
       ds_underlier_per_share_terms = ''1.0 share of underlying'',
       ds_corporate_action_id = None\<rparr>,
     oc_standard_contract_flag = True, oc_corporate_action_id = None\<rparr>"

definition sample_bar :: bar_record where
  "sample_bar = \<lparr>br_security_id = ''SEC-SPY'', br_session = 112, br_open = 101, br_high = 104,
     br_low = 100, br_close = 10325 / 100, br_volume = 5000, br_source = ''vendor'',
     br_source_record_id = ''BAR-1'', br_source_row_hash = ''h'', br_snapshot_id = ''s'',
     br_available_at = 9760000000000\<rparr>"

text \<open>Claim C30. The settlement door: for a valid contract and bar, a minted settlement credits exactly
  \<open>max(intrinsic, 0) * quantity * multiplier\<close> at the reference bar's close, is never negative, is
  never dated before the bar is published, respects the session rule of its kind, and an early
  exercise is of an american contract before its expiration.\<close>

theorem mint_settlement_sound:
  assumes "make_contract c = Inr c" and "bar_ok b"
    and "mint_settlement c sid kind n session b detect = Inr s"
  shows "es_cash s = intrinsic_value (oc_call_put c) (oc_strike c) (br_close b)
        * of_int n * of_int (oc_multiplier c)
    \<and> 0 \<le> es_cash s \<and> br_available_at b \<le> es_ts s
    \<and> br_security_id b = oc_underlying_security_id c
    \<and> br_session b \<le> session \<and> oc_listing_start c \<le> session \<and> session \<le> oc_expiration c
    \<and> (kind = Expiry \<longrightarrow> session = oc_expiration c)
    \<and> (kind = EarlyExercise \<longrightarrow> oc_exercise_style c = American \<and> session < oc_expiration c)
    \<and> (br_session b \<noteq> session \<longrightarrow> kind = Terminal \<and> detect = Some (es_ts s))"
proof -
  note g = assms(3) [unfolded mint_settlement_def Let_def raise_simps]
  note s = mint_settlement_fields [OF assms(3)]
  have ok: "settlement_ok s" using mint_settlement_ok [OF assms(3)] .
  have ts: "br_available_at b \<le> es_ts s" using g s by (cases detect) auto
  have kind: "session \<le> oc_expiration c" using g by (cases kind) auto
  show ?thesis
    using settlement_okD [OF ok] s g ts kind by (cases detect) auto
qed

theorem mint_settlement_sound_witness:
  "\<exists>s. mint_settlement sample_contract ''SET-1'' Expiry 2 112 sample_bar None = Inr s
     \<and> es_cash s = 650"
proof -
  have c: "make_contract sample_contract = Inr sample_contract" and b: "bar_ok sample_bar"
    by code_simp+
  have "\<not> mint_settlement sample_contract ''SET-1'' Expiry 2 112 sample_bar None
      = Inl SettlementValidation"
    by code_simp
  then obtain s where m: "mint_settlement sample_contract ''SET-1'' Expiry 2 112 sample_bar None = Inr s"
    by (auto simp: mint_settlement_def make_settlement_def sample_contract_def sample_bar_def Let_def
        split: if_splits)
  have "es_cash s = intrinsic_value Call 100 (10325 / 100) * 2 * 100"
    using mint_settlement_sound [OF c b m] by (simp add: sample_contract_def sample_bar_def)
  then show ?thesis using m by (simp add: intrinsic_value_def)
qed

text \<open>A terminal settlement dated on the expiration session itself is accepted: the door only
  refuses a terminal settlement after expiration, for any contract that would settle there.\<close>

lemma terminal_at_expiration_accepted:
  assumes "make_contract c = Inr c" and "bar_ok b" and "1 \<le> n"
    and "br_session b = oc_expiration c" and "br_security_id b = oc_underlying_security_id c"
    and "intrinsic_value (oc_call_put c) (oc_strike c) (br_close b) * of_int n
           * of_int (oc_multiplier c) < 10 ^ 16"
  shows "\<exists>s. mint_settlement c sid Terminal n (oc_expiration c) b None = Inr s
    \<and> es_kind s = Terminal \<and> es_session s = oc_expiration c"
proof -
  let ?x = "intrinsic_value (oc_call_put c) (oc_strike c) (br_close b) * of_int n
      * of_int (oc_multiplier c)"
  have k: "price_ok (oc_strike c)" "1 \<le> oc_multiplier c" "oc_listing_start c \<le> oc_expiration c"
    using make_contract_Inr [OF assms(1)] by auto
  have cents: "on_cents ?x"
    using k assms(2) by (intro cents_intros intrinsic_cents) (auto simp: price_ok_def bar_ok_def)
  have nn: "0 \<le> ?x" using k assms(3) by (simp add: intrinsic_nonneg)
  have "money_ok ?x" using cents nn assms(6) by (simp add: money_ok_def)
  then show ?thesis
    using k assms cents nn
    by (simp add: mint_settlement_def make_settlement_def quantize_id bar_ok_def Let_def)
qed

theorem terminal_at_expiration_accepted_witness:
  "\<exists>s. mint_settlement sample_contract ''SET-2'' Terminal 1 112 sample_bar None = Inr s
     \<and> es_kind s = Terminal \<and> es_session s = 112"
proof -
  have "make_contract sample_contract = Inr sample_contract" "bar_ok sample_bar"
    by code_simp+
  from terminal_at_expiration_accepted [OF this, of 1 "''SET-2''"] show ?thesis
    by (simp add: sample_contract_def sample_bar_def intrinsic_value_def)
qed

end
