(* ===== verification/Trading.thy ===== *)
theory Trading
  imports Market Options
begin

text \<open>
  Orders and fills of \<open>schemas/trading.py\<close>, and the commission models of \<open>ledger/fees.py\<close> with
  the surcharge of \<open>guards/fills.py\<close>. The \<open>FeeModel\<close> protocol the fill engine calls is the
  locale \<open>fee_schedule\<close>; both models of the code interpret it.
\<close>

datatype intent = OpenLong | CloseLong | SellToOpen

datatype order_type = Market | Limit

record order =
  or_order_id :: ident
  or_contract_id :: ident
  or_side :: side
  or_intent :: intent
  or_quantity :: int
  or_order_type :: order_type
  or_limit_price :: "decimal option"
  or_budget_notional :: "decimal option"
  or_decision_at :: instant
  or_decision_session :: date

datatype order_error =
    OrderFieldError | NakedShortProhibited | LimitRequiresPrice | MarketCarriesPrice

definition make_order :: "order \<Rightarrow> order_error + order" where
  "make_order r =
     (if or_quantity r < 1 \<or> (case or_limit_price r of None \<Rightarrow> False | Some p \<Rightarrow> \<not> price_ok p)
         \<or> (case or_budget_notional r of None \<Rightarrow> False | Some b \<Rightarrow> \<not> money_ok b)
      then Inl OrderFieldError
      else if or_intent r = SellToOpen
         \<or> (or_side r, or_intent r) \<notin> {(Buy, OpenLong), (Sell, CloseLong)}
      then Inl NakedShortProhibited
      else if or_order_type r = Limit \<and> or_limit_price r = None then Inl LimitRequiresPrice
      else if or_order_type r = Market \<and> or_limit_price r \<noteq> None then Inl MarketCarriesPrice
      else Inr r)"

record fill =
  fl_fill_id :: ident
  fl_order_id :: ident
  fl_contract_id :: ident
  fl_side :: side
  fl_quantity :: int
  fl_price :: decimal
  fl_multiplier :: int
  fl_deliverable :: decimal
  fl_fees :: decimal
  fl_execution_at :: instant
  fl_execution_session :: date
  fl_fraction_to_midpoint :: decimal

definition fill_ok :: "fill \<Rightarrow> bool" where
  "fill_ok f \<longleftrightarrow> 1 \<le> fl_quantity f \<and> price_ok (fl_price f) \<and> 1 \<le> fl_multiplier f
     \<and> 0 < fl_deliverable f \<and> money_ok (fl_fees f) \<and> 0 \<le> fl_fees f
     \<and> 0 \<le> fl_fraction_to_midpoint f \<and> fl_fraction_to_midpoint f \<le> 1"

definition notional :: "fill \<Rightarrow> decimal" where
  "notional f = quantize (fl_price f * of_int (fl_quantity f) * of_int (fl_multiplier f))"

definition signed_cash :: "fill \<Rightarrow> decimal" where
  "signed_cash f =
     (let sgn' = (if fl_side f = Buy then - 1 else 1)
      in quantize (sgn' * fl_price f * of_int (fl_quantity f) * of_int (fl_multiplier f)))"

record position =
  po_contract_id :: ident
  po_quantity :: int
  po_average_cost :: decimal
  po_opened_session :: date

subsection \<open>Fees\<close>

record per_contract_fee_model =
  fee_per_contract :: decimal
  minimum_per_order :: decimal

definition default_fee_per_contract :: decimal where "default_fee_per_contract = 65 / 100"

definition default_minimum_per_order :: decimal where "default_minimum_per_order = 1"

definition make_fee_model :: "decimal \<Rightarrow> decimal \<Rightarrow> string + per_contract_fee_model" where
  "make_fee_model fpc minimum =
     (if fpc < 0 \<or> minimum < 0 then Inl ''fee parameters must be >= 0''
      else Inr \<lparr>fee_per_contract = fpc, minimum_per_order = minimum\<rparr>)"

definition order_fees :: "per_contract_fee_model \<Rightarrow> int \<Rightarrow> string + decimal" where
  "order_fees m quantity =
     (if quantity < 1 then Inl ''quantity must be >= 1''
      else let raw = fee_per_contract m * of_int quantity
           in Inr (quantize (max raw (minimum_per_order m))))"

text \<open>The wrapper around any fee model that adds a surcharge per contract.\<close>

definition stressed_order_fees ::
  "(int \<Rightarrow> string + decimal) \<Rightarrow> decimal \<Rightarrow> int \<Rightarrow> string + decimal" where
  "stressed_order_fees base extra quantity =
     (case base quantity of Inl e \<Rightarrow> Inl e
      | Inr x \<Rightarrow> Inr (quantize (x + extra * of_int quantity)))"

locale fee_schedule =
  fixes valid :: "'m \<Rightarrow> bool"
    and fees :: "'m \<Rightarrow> int \<Rightarrow> string + decimal"
  assumes fees_defined: "1 \<le> q \<Longrightarrow> \<exists>x. fees m q = Inr x"
    and fees_refused: "q < 1 \<Longrightarrow> \<exists>e. fees m q = Inl e"
    and fees_cents: "fees m q = Inr x \<Longrightarrow> on_cents x"
    and fees_nonneg: "valid m \<Longrightarrow> fees m q = Inr x \<Longrightarrow> 0 \<le> x"
begin

lemma surcharge_defined: "1 \<le> q \<Longrightarrow> \<exists>x. stressed_order_fees (fees m) extra q = Inr x"
  using fees_defined [of q m] by (auto simp: stressed_order_fees_def)

lemma surcharge_only_worsens:
  assumes "0 \<le> extra" "fees m q = Inr x" "stressed_order_fees (fees m) extra q = Inr y"
  shows "x \<le> y"
proof -
  have "1 \<le> q" using fees_refused [of q m] assms(2) by fastforce
  then have "x \<le> x + extra * of_int q" using assms(1) by simp
  then have "quantize x \<le> quantize (x + extra * of_int q)" by (rule quantize_mono)
  then show ?thesis using assms fees_cents [OF assms(2)]
    by (simp add: stressed_order_fees_def quantize_id)
qed

lemma surcharge_nonneg:
  assumes "valid m" "0 \<le> extra" "stressed_order_fees (fees m) extra q = Inr y"
  shows "0 \<le> y"
proof -
  obtain x where x: "fees m q = Inr x"
    using assms(3) by (auto simp: stressed_order_fees_def split: sum.splits)
  then have "x \<le> y" using assms surcharge_only_worsens by blast
  with fees_nonneg [OF assms(1) x] show ?thesis by linarith
qed

end

definition fee_model_ok :: "per_contract_fee_model \<Rightarrow> bool" where
  "fee_model_ok m \<longleftrightarrow> 0 \<le> fee_per_contract m \<and> 0 \<le> minimum_per_order m"

lemma quantize_nonneg: "0 \<le> x \<Longrightarrow> 0 \<le> quantize x"
  using quantize_mono [of 0 x] by (simp add: quantize_id)

interpretation per_contract: fee_schedule fee_model_ok order_fees
proof unfold_locales
  fix q :: int and m x
  show "1 \<le> q \<Longrightarrow> \<exists>x. order_fees m q = Inr x" and "q < 1 \<Longrightarrow> \<exists>e. order_fees m q = Inl e"
    by (simp_all add: order_fees_def Let_def)
  show "order_fees m q = Inr x \<Longrightarrow> on_cents x"
    by (auto simp: order_fees_def Let_def split: if_splits)
  show "fee_model_ok m \<Longrightarrow> order_fees m q = Inr x \<Longrightarrow> 0 \<le> x"
    by (auto simp: order_fees_def Let_def fee_model_ok_def quantize_nonneg max.coboundedI2
        split: if_splits)
qed

definition stressed_fees :: "per_contract_fee_model \<times> decimal \<Rightarrow> int \<Rightarrow> string + decimal" where
  "stressed_fees m = stressed_order_fees (order_fees (fst m)) (snd m)"

interpretation stressed: fee_schedule "\<lambda>m. fee_model_ok (fst m) \<and> 0 \<le> snd m" stressed_fees
proof unfold_locales
  fix q :: int and m :: "per_contract_fee_model \<times> decimal" and x
  show "1 \<le> q \<Longrightarrow> \<exists>x. stressed_fees m q = Inr x"
    unfolding stressed_fees_def by (rule per_contract.surcharge_defined)
  show "q < 1 \<Longrightarrow> \<exists>e. stressed_fees m q = Inl e"
    by (simp add: stressed_fees_def stressed_order_fees_def order_fees_def)
  show "stressed_fees m q = Inr x \<Longrightarrow> on_cents x"
    by (auto simp: stressed_fees_def stressed_order_fees_def split: sum.splits)
  show "fee_model_ok (fst m) \<and> 0 \<le> snd m \<Longrightarrow> stressed_fees m q = Inr x \<Longrightarrow> 0 \<le> x"
    unfolding stressed_fees_def by (rule per_contract.surcharge_nonneg) auto
qed

subsection \<open>Lemmas\<close>

lemma make_order_Inr: "make_order r = Inr r' \<Longrightarrow>
    r' = r \<and> 1 \<le> or_quantity r \<and> (or_side r = Buy \<longleftrightarrow> or_intent r = OpenLong)
    \<and> (or_side r = Sell \<longleftrightarrow> or_intent r = CloseLong) \<and> or_intent r \<noteq> SellToOpen
    \<and> (or_order_type r = Limit \<longleftrightarrow> or_limit_price r \<noteq> None)"
  by (cases "or_side r"; cases "or_intent r"; cases "or_order_type r")
     (auto simp: make_order_def split: if_splits)

lemma fill_price_cents: "fill_ok f \<Longrightarrow> on_cents (fl_price f)"
  by (simp add: fill_ok_def price_ok_def)

lemma signed_cash_notional: "fill_ok f \<Longrightarrow>
    signed_cash f = (if fl_side f = Buy then - notional f else notional f)"
proof -
  assume f: "fill_ok f"
  have c: "on_cents (fl_price f * of_int (fl_quantity f) * of_int (fl_multiplier f))"
    using fill_price_cents [OF f] by (intro cents_intros)
  then show ?thesis using on_cents_uminus [OF c]
    by (simp add: signed_cash_def notional_def quantize_id)
qed

end
