(* ===== verification/Ledger.thy ===== *)
theory Ledger
  imports Trading
begin

text \<open>
  The cash and position ledger of \<open>ledger/book.py\<close>: FIFO lots, ledger entries, the running
  cash, fees and realized PnL, and the independent replay that \<open>assert_conservation\<close> compares
  them with (INV-12).

  A \<open>LedgerBook\<close> is the record \<open>book\<close>; its \<open>defaultdict\<close>s are total functions with the default
  value. A method that mutates the book and may raise returns the book it leaves behind together
  with the exception or the unit value, so that what a refused call leaves behind is visible.
  Sums and products of \<open>Decimal\<close>s are exact, as they are in the code up to the 28 digits of the
  decimal context; a notional that \<open>Money\<close> cannot hold is refused in \<open>stage_fill_entries\<close>.
\<close>

datatype ledger_error =
    DUPLICATE_FILL | DUPLICATE_SETTLEMENT | OUT_OF_ORDER_FILL | OUT_OF_ORDER_SETTLEMENT
  | POSITION_UNDERFLOW | SETTLEMENT_CASH_MISMATCH | CASH_MISMATCH | FEE_MISMATCH
  | POSITION_MISMATCH | REALIZED_MISMATCH | ENTRY_MISMATCH
  | LedgerValidation | LedgerIndexError | LedgerKeyError

record lot =
  lot_fill_id :: ident
  lot_order_id :: ident
  lot_execution_at :: instant
  lot_execution_session :: date
  lot_quantity :: int
  lot_unit_price :: decimal
  lot_multiplier :: int
  lot_cost_basis :: decimal

datatype entry_kind =
  FillNotional | Fee | ExerciseSettlementEntry | Assignment | CorporateAction | CashAdjustment

record ledger_entry =
  le_entry_id :: ident
  le_ts :: instant
  le_session :: date
  le_kind :: entry_kind
  le_amount :: decimal
  le_contract_id :: "ident option"
  le_ref_id :: ident

datatype ledger_event = FillEvent fill | SettleEvent exercise_settlement

record book =
  bk_initial_cash :: decimal
  bk_cash :: decimal
  bk_total_fees :: decimal
  bk_events :: "ledger_event list"
  bk_lots :: "ident \<Rightarrow> lot list"
  bk_realized :: "ident \<Rightarrow> decimal"
  bk_entries :: "ledger_entry list"
  bk_entry_seq :: nat
  bk_last_execution_at :: "instant option"
  bk_fill_ids :: "ident set"
  bk_settlement_ids :: "ident set"

definition new_book :: "decimal \<Rightarrow> book" where
  "new_book initial_cash =
     \<lparr>bk_initial_cash = quantize initial_cash, bk_cash = quantize initial_cash,
      bk_total_fees = 0, bk_events = [], bk_lots = (\<lambda>_. []), bk_realized = (\<lambda>_. 0),
      bk_entries = [], bk_entry_seq = 0, bk_last_execution_at = None, bk_fill_ids = {},
      bk_settlement_ids = {}\<rparr>"

subsection \<open>Accessors\<close>

definition lots_quantity :: "lot list \<Rightarrow> int" where
  "lots_quantity ls = sum_list (map lot_quantity ls)"

definition bk_quantity :: "book \<Rightarrow> ident \<Rightarrow> int" where
  "bk_quantity b c = lots_quantity (bk_lots b c)"

definition opened_session :: "book \<Rightarrow> ident \<Rightarrow> ledger_error + date" where
  "opened_session b c = (case bk_lots b c of
      [] \<Rightarrow> Inl LedgerKeyError
    | l # ls \<Rightarrow> Inr (foldl min (lot_execution_session l) (map lot_execution_session ls)))"

definition book_position :: "book \<Rightarrow> ident \<Rightarrow> ledger_error + position" where
  "book_position b c =
     (let q = bk_quantity b c
      in if q = 0 then Inl LedgerKeyError
         else case bk_lots b c of
            [] \<Rightarrow> Inl LedgerIndexError
          | l # _ \<Rightarrow>
              let basis = sum_list (map lot_cost_basis (bk_lots b c));
                  average = quantize (basis / of_int (q * lot_multiplier l))
              in case opened_session b c of
                   Inl e \<Rightarrow> Inl e
                 | Inr s \<Rightarrow> if q < 0 \<or> \<not> price_ok average then Inl LedgerValidation
                     else Inr \<lparr>po_contract_id = c, po_quantity = q, po_average_cost = average,
                               po_opened_session = s\<rparr>)"

subsection \<open>The FIFO walk\<close>

text \<open>
  \<open>while remaining > 0\<close> over the head of the lot list. The triple is the lots left, the cost
  removed, and whether the walk ended normally (\<open>False\<close>: \<open>lots[0]\<close> of an empty list).
\<close>

function fifo_walk :: "int \<Rightarrow> lot list \<Rightarrow> decimal \<Rightarrow> lot list \<times> decimal \<times> bool" where
  "fifo_walk remaining lots cost =
     (if remaining \<le> 0 then (lots, cost, True)
      else case lots of
          [] \<Rightarrow> ([], cost, False)
        | h # t \<Rightarrow>
            let take' = min (lot_quantity h) remaining;
                removed = quantize (lot_unit_price h * of_int take' * of_int (lot_multiplier h));
                h' = h\<lparr>lot_quantity := lot_quantity h - take',
                       lot_cost_basis := quantize (lot_cost_basis h - removed)\<rparr>
            in fifo_walk (remaining - take') (if lot_quantity h' = 0 then t else h' # t)
                 (cost + removed))"
  by pat_completeness auto
termination
  by (relation "measures [\<lambda>(r, ls, c). length ls, \<lambda>(r, ls, c). nat r]") (auto simp: min_def)

declare fifo_walk.simps [simp del]

subsection \<open>Applying a fill\<close>

definition primitive_cash :: "fill \<Rightarrow> decimal" where
  "primitive_cash f =
     (let magnitude = quantize (fl_price f * of_int (fl_quantity f) * of_int (fl_multiplier f))
      in if fl_side f = Buy then - magnitude else magnitude)"

definition entry_id :: "nat \<Rightarrow> ident" where
  "entry_id n = ''ENT-'' @ zero_padded 6 n"

definition stage_fill_entries :: "book \<Rightarrow> fill \<Rightarrow> ledger_error + ledger_entry list" where
  "stage_fill_entries b f =
     (let first = bk_entry_seq b + 1; second_seq = first + 1
      in if \<not> money_ok (primitive_cash f) \<or> \<not> money_ok (- fl_fees f) then Inl LedgerValidation
         else Inr
          [\<lparr>le_entry_id = entry_id first, le_ts = fl_execution_at f,
            le_session = fl_execution_session f, le_kind = FillNotional,
            le_amount = primitive_cash f, le_contract_id = Some (fl_contract_id f),
            le_ref_id = fl_fill_id f\<rparr>,
           \<lparr>le_entry_id = entry_id second_seq, le_ts = fl_execution_at f,
            le_session = fl_execution_session f, le_kind = Fee,
            le_amount = - fl_fees f, le_contract_id = Some (fl_contract_id f),
            le_ref_id = fl_fill_id f\<rparr>])"

definition lot_of_fill :: "fill \<Rightarrow> lot" where
  "lot_of_fill f =
     \<lparr>lot_fill_id = fl_fill_id f, lot_order_id = fl_order_id f,
      lot_execution_at = fl_execution_at f, lot_execution_session = fl_execution_session f,
      lot_quantity = fl_quantity f, lot_unit_price = fl_price f,
      lot_multiplier = fl_multiplier f,
      lot_cost_basis = quantize (fl_price f * of_int (fl_quantity f) * of_int (fl_multiplier f))\<rparr>"

definition apply_fill_arithmetic :: "book \<Rightarrow> fill \<Rightarrow> book \<times> (ledger_error + unit)" where
  "apply_fill_arithmetic b f =
     (let c = fl_contract_id f;
          booked = (\<lambda>b. b\<lparr>bk_cash := quantize (bk_cash b + primitive_cash f - fl_fees f),
                          bk_total_fees := quantize (bk_total_fees b + fl_fees f),
                          bk_fill_ids := insert (fl_fill_id f) (bk_fill_ids b)\<rparr>)
      in if fl_side f = Buy
         then (booked (b\<lparr>bk_lots := (bk_lots b)(c := bk_lots b c @ [lot_of_fill f])\<rparr>), Inr ())
         else case fifo_walk (fl_quantity f) (bk_lots b c) 0 of
             (lots', cost_removed, False) \<Rightarrow>
               (b\<lparr>bk_lots := (bk_lots b)(c := lots')\<rparr>, Inl LedgerIndexError)
           | (lots', cost_removed, True) \<Rightarrow>
               let proceeds = quantize (fl_price f * of_int (fl_quantity f) * of_int (fl_multiplier f))
               in (booked (b\<lparr>bk_lots := (bk_lots b)(c := lots'),
                             bk_realized := (bk_realized b)
                               (c := bk_realized b c + (proceeds - cost_removed))\<rparr>), Inr ()))"

definition apply_fill :: "book \<Rightarrow> fill \<Rightarrow> book \<times> (ledger_error + unit)" where
  "apply_fill b f =
     (if fl_fill_id f \<in> bk_fill_ids b then (b, Inl DUPLICATE_FILL)
      else if (case bk_last_execution_at b of None \<Rightarrow> False | Some l \<Rightarrow> fl_execution_at f < l)
      then (b, Inl OUT_OF_ORDER_FILL)
      else if fl_side f = Sell \<and> lots_quantity (bk_lots b (fl_contract_id f)) < fl_quantity f
      then (b, Inl POSITION_UNDERFLOW)
      else case stage_fill_entries b f of
          Inl e \<Rightarrow> (b, Inl e)
        | Inr staged \<Rightarrow>
            (case apply_fill_arithmetic b f of
               (b', Inl e) \<Rightarrow> (b', Inl e)
             | (b', Inr _) \<Rightarrow>
                 (b'\<lparr>bk_entries := bk_entries b' @ staged, bk_entry_seq := bk_entry_seq b' + 2,
                     bk_last_execution_at := Some (fl_execution_at f),
                     bk_events := bk_events b' @ [FillEvent f]\<rparr>, Inr ())))"

subsection \<open>Applying a settlement\<close>

definition apply_settlement :: "book \<Rightarrow> exercise_settlement \<Rightarrow> book \<times> (ledger_error + unit)" where
  "apply_settlement b s =
     (let c = es_contract_id s
      in if es_settlement_id s \<in> bk_settlement_ids b then (b, Inl DUPLICATE_SETTLEMENT)
         else if (case bk_last_execution_at b of None \<Rightarrow> False | Some l \<Rightarrow> es_ts s < l)
         then (b, Inl OUT_OF_ORDER_SETTLEMENT)
         else if lots_quantity (bk_lots b c) < es_quantity s then (b, Inl POSITION_UNDERFLOW)
         else
           let b1 = b\<lparr>bk_last_execution_at := Some (es_ts s),
                      bk_events := bk_events b @ [SettleEvent s]\<rparr>
           in case fifo_walk (es_quantity s) (bk_lots b1 c) 0 of
               (lots', cost_removed, False) \<Rightarrow>
                 (b1\<lparr>bk_lots := (bk_lots b1)(c := lots')\<rparr>, Inl LedgerIndexError)
             | (lots', cost_removed, True) \<Rightarrow>
                 let b2 = b1\<lparr>bk_lots := (bk_lots b1)(c := lots'),
                       bk_realized := (bk_realized b1)
                         (c := bk_realized b1 c + quantize (es_cash s - cost_removed)),
                       bk_cash := quantize (bk_cash b1 + es_cash s),
                       bk_settlement_ids := insert (es_settlement_id s) (bk_settlement_ids b1),
                       bk_entry_seq := bk_entry_seq b1 + 1\<rparr>
                 in if \<not> money_ok (es_cash s) then (b2, Inl LedgerValidation)
                    else (b2\<lparr>bk_entries := bk_entries b2 @
                            [\<lparr>le_entry_id = entry_id (bk_entry_seq b2), le_ts = es_ts s,
                              le_session = es_session s, le_kind = ExerciseSettlementEntry,
                              le_amount = es_cash s, le_contract_id = Some c,
                              le_ref_id = es_settlement_id s\<rparr>]\<rparr>, Inr ()))"

fun apply_event :: "book \<Rightarrow> ledger_event \<Rightarrow> book \<times> (ledger_error + unit)" where
  "apply_event b (FillEvent f) = apply_fill b f"
| "apply_event b (SettleEvent s) = apply_settlement b s"

text \<open>A session of calls: a refused call raises to its caller, who may go on with the book.\<close>

fun run_events :: "book \<Rightarrow> ledger_event list \<Rightarrow> book" where
  "run_events b [] = b"
| "run_events b (e # es) = run_events (fst (apply_event b e)) es"

subsection \<open>The independent replay\<close>

record replay_state =
  rp_cash :: decimal
  rp_fees :: decimal
  rp_qty :: "ident \<Rightarrow> int"
  rp_realized :: "ident \<Rightarrow> decimal"
  rp_lots :: "ident \<Rightarrow> (int \<times> decimal \<times> int) list"
  rp_fill_ids :: "ident set"
  rp_settlement_ids :: "ident set"

definition replay_init :: replay_state where
  "replay_init = \<lparr>rp_cash = 0, rp_fees = 0, rp_qty = (\<lambda>_. 0), rp_realized = (\<lambda>_. 0),
     rp_lots = (\<lambda>_. []), rp_fill_ids = {}, rp_settlement_ids = {}\<rparr>"

function replay_walk ::
  "int \<Rightarrow> (int \<times> decimal \<times> int) list \<Rightarrow> decimal \<Rightarrow> (int \<times> decimal \<times> int) list \<times> decimal \<times> bool"
where
  "replay_walk remaining lots cost =
     (if remaining \<le> 0 then (lots, cost, True)
      else case lots of
          [] \<Rightarrow> ([], cost, False)
        | (head_qty, head_price, head_mult) # t \<Rightarrow>
            let take' = min head_qty remaining
            in replay_walk (remaining - take')
                 (if head_qty - take' = 0 then t else (head_qty - take', head_price, head_mult) # t)
                 (cost + head_price * of_int take' * of_int head_mult))"
  by pat_completeness auto
termination
  by (relation "measures [\<lambda>(r, ls, c). length ls, \<lambda>(r, ls, c). nat r]") (auto simp: min_def)

declare replay_walk.simps [simp del]

definition replay_fill :: "replay_state \<Rightarrow> fill \<Rightarrow> ledger_error + replay_state" where
  "replay_fill r f =
     (let c = fl_contract_id f
      in if fl_fill_id f \<in> rp_fill_ids r then Inl DUPLICATE_FILL
         else
           let r1 = r\<lparr>rp_fill_ids := insert (fl_fill_id f) (rp_fill_ids r),
                      rp_cash := rp_cash r + (primitive_cash f - fl_fees f),
                      rp_fees := rp_fees r + fl_fees f\<rparr>
           in if fl_side f = Buy
              then Inr (r1\<lparr>rp_qty := (rp_qty r1)(c := rp_qty r1 c + fl_quantity f),
                          rp_lots := (rp_lots r1)
                            (c := rp_lots r1 c @ [(fl_quantity f, fl_price f, fl_multiplier f)])\<rparr>)
              else if rp_qty r1 c < fl_quantity f then Inl POSITION_UNDERFLOW
              else case replay_walk (fl_quantity f) (rp_lots r1 c) 0 of
                  (lots', cost_removed, False) \<Rightarrow> Inl LedgerIndexError
                | (lots', cost_removed, True) \<Rightarrow>
                    let proceeds = fl_price f * of_int (fl_quantity f) * of_int (fl_multiplier f)
                    in Inr (r1\<lparr>rp_lots := (rp_lots r1)(c := lots'),
                               rp_realized := (rp_realized r1)
                                 (c := rp_realized r1 c + quantize (proceeds - cost_removed)),
                               rp_qty := (rp_qty r1)(c := rp_qty r1 c - fl_quantity f)\<rparr>))"

definition replay_settlement ::
  "replay_state \<Rightarrow> exercise_settlement \<Rightarrow> ledger_error + replay_state" where
  "replay_settlement r s =
     (let c = es_contract_id s
      in if es_settlement_id s \<in> rp_settlement_ids r then Inl DUPLICATE_SETTLEMENT
         else
           let r1 = r\<lparr>rp_settlement_ids := insert (es_settlement_id s) (rp_settlement_ids r)\<rparr>;
               recomputed_cash = quantize (intrinsic_value (es_call_put s) (es_strike s)
                   (es_settlement_price s) * of_int (es_quantity s) * of_int (es_multiplier s))
           in if recomputed_cash \<noteq> es_cash s then Inl SETTLEMENT_CASH_MISMATCH
              else if rp_qty r1 c < es_quantity s then Inl POSITION_UNDERFLOW
              else case replay_walk (es_quantity s) (rp_lots r1 c) 0 of
                  (lots', cost_removed, False) \<Rightarrow> Inl LedgerIndexError
                | (lots', cost_removed, True) \<Rightarrow>
                    Inr (r1\<lparr>rp_lots := (rp_lots r1)(c := lots'),
                            rp_realized := (rp_realized r1)
                              (c := rp_realized r1 c + quantize (recomputed_cash - cost_removed)),
                            rp_qty := (rp_qty r1)(c := rp_qty r1 c - es_quantity s),
                            rp_cash := rp_cash r1 + recomputed_cash\<rparr>))"

fun replay_events :: "replay_state \<Rightarrow> ledger_event list \<Rightarrow> ledger_error + replay_state" where
  "replay_events r [] = Inr r"
| "replay_events r (FillEvent f # es) =
     (case replay_fill r f of Inl e \<Rightarrow> Inl e | Inr r' \<Rightarrow> replay_events r' es)"
| "replay_events r (SettleEvent s # es) =
     (case replay_settlement r s of Inl e \<Rightarrow> Inl e | Inr r' \<Rightarrow> replay_events r' es)"

fun event_contract :: "ledger_event \<Rightarrow> ident" where
  "event_contract (FillEvent f) = fl_contract_id f"
| "event_contract (SettleEvent s) = es_contract_id s"

text \<open>
  The replay's dicts hold the contracts its events touched; a contract that was never sold or
  settled has no realized entry, and comparing its default with the book's default is the same.
\<close>

definition assert_conservation :: "book \<Rightarrow> ledger_error + unit" where
  "assert_conservation b =
     (case replay_events replay_init (bk_events b) of
        Inl e \<Rightarrow> Inl e
      | Inr r \<Rightarrow>
          let cash_delta = quantize (rp_cash r); fees = quantize (rp_fees r);
              touched = map event_contract (bk_events b)
          in if bk_cash b \<noteq> quantize (bk_initial_cash b + cash_delta) then Inl CASH_MISMATCH
             else if bk_total_fees b \<noteq> fees then Inl FEE_MISMATCH
             else if list_ex (\<lambda>c. bk_quantity b c \<noteq> rp_qty r c) touched then Inl POSITION_MISMATCH
             else if list_ex (\<lambda>c. bk_realized b c \<noteq> rp_realized r c) touched
             then Inl REALIZED_MISMATCH
             else if quantize (sum_list (map le_amount (bk_entries b))) \<noteq> cash_delta
             then Inl ENTRY_MISMATCH
             else Inr ())"

end
