(* ===== verification/Conservation.thy ===== *)
theory Conservation
  imports Ledger
begin

text \<open>
  What the ledger promises: the FIFO walk closes exactly what it is asked to close, the running
  book and the independent replay agree after every sequence of calls (so \<open>assert_conservation\<close>
  never raises), refused events leave no trace, and the cash is the initial cash plus the realized
  PnL minus the fees and the cost of the open lots.
\<close>

subsection \<open>The FIFO walk\<close>

definition lot_ok :: "lot \<Rightarrow> bool" where
  "lot_ok l \<longleftrightarrow> 1 \<le> lot_quantity l \<and> 1 \<le> lot_multiplier l \<and> 0 < lot_unit_price l
     \<and> on_cents (lot_unit_price l)
     \<and> lot_cost_basis l = lot_unit_price l * of_int (lot_quantity l) * of_int (lot_multiplier l)"

definition lot_triple :: "lot \<Rightarrow> int \<times> decimal \<times> int" where
  "lot_triple l = (lot_quantity l, lot_unit_price l, lot_multiplier l)"

definition lots_basis :: "lot list \<Rightarrow> decimal" where
  "lots_basis ls = sum_list (map lot_cost_basis ls)"

definition shrink :: "lot \<Rightarrow> int \<Rightarrow> lot" where
  "shrink l n = l\<lparr>lot_quantity := lot_quantity l - n,
     lot_cost_basis := lot_unit_price l * of_int (lot_quantity l - n) * of_int (lot_multiplier l)\<rparr>"

lemma lots_quantity_Cons [simp]: "lots_quantity (l # ls) = lot_quantity l + lots_quantity ls"
  and lots_quantity_Nil [simp]: "lots_quantity [] = 0"
  and lots_quantity_append [simp]: "lots_quantity (xs @ ys) = lots_quantity xs + lots_quantity ys"
  by (simp_all add: lots_quantity_def)

lemma lots_basis_Cons [simp]: "lots_basis (l # ls) = lot_cost_basis l + lots_basis ls"
  and lots_basis_Nil [simp]: "lots_basis [] = 0"
  and lots_basis_append [simp]: "lots_basis (xs @ ys) = lots_basis xs + lots_basis ys"
  by (simp_all add: lots_basis_def)

lemma lots_quantity_nonneg: "\<forall>l \<in> set ls. lot_ok l \<Longrightarrow> 0 \<le> lots_quantity ls"
  by (induction ls) (auto simp: lot_ok_def)

lemma lot_amount_cents: "lot_ok l \<Longrightarrow> on_cents (lot_unit_price l * of_int n * of_int m)"
  by (intro cents_intros) (simp add: lot_ok_def)

lemma lot_basis_cents: "lot_ok l \<Longrightarrow> on_cents (lot_cost_basis l)"
  using lot_amount_cents [of l] by (simp add: lot_ok_def)

lemma shrink_ok: "lot_ok l \<Longrightarrow> n < lot_quantity l \<Longrightarrow> lot_ok (shrink l n)"
  by (simp add: lot_ok_def shrink_def)

lemma fifo_walk_done: "n \<le> 0 \<Longrightarrow> fifo_walk n ls c = (ls, c, True)"
  by (simp add: fifo_walk.simps [of n])

lemma replay_walk_done: "n \<le> 0 \<Longrightarrow> replay_walk n ls c = (ls, c, True)"
  by (simp add: replay_walk.simps [of n])

lemma fifo_walk_step:
  assumes "lot_ok h" and "0 < n"
  shows "fifo_walk n (h # t) c =
    (if lot_quantity h \<le> n then fifo_walk (n - lot_quantity h) t (c + lot_cost_basis h)
     else (shrink h n # t, c + lot_unit_price h * of_int n * of_int (lot_multiplier h), True))"
proof -
  note cents = lot_amount_cents [OF assms(1)]
  have basis: "lot_cost_basis h = lot_unit_price h * of_int (lot_quantity h) * of_int (lot_multiplier h)"
    using assms(1) by (simp add: lot_ok_def)
  show ?thesis
  proof (cases "lot_quantity h \<le> n")
    case True
    then show ?thesis using assms cents
      by (subst fifo_walk.simps) (simp add: Let_def min_def quantize_id basis)
  next
    case False
    have "lot_cost_basis h - lot_unit_price h * of_int n * of_int (lot_multiplier h)
        = lot_unit_price h * of_int (lot_quantity h - n) * of_int (lot_multiplier h)"
      unfolding basis by (simp add: left_diff_distrib right_diff_distrib)
    then have "quantize (lot_cost_basis h - lot_unit_price h * of_int n * of_int (lot_multiplier h))
        = lot_unit_price h * of_int (lot_quantity h - n) * of_int (lot_multiplier h)"
      using quantize_id [OF cents [of "lot_quantity h - n" "lot_multiplier h"]] by simp
    with False assms cents show ?thesis
      by (subst fifo_walk.simps) (simp add: Let_def min_def quantize_id fifo_walk_done shrink_def)
  qed
qed

lemma replay_walk_step:
  assumes "0 < n" and "1 \<le> q"
  shows "replay_walk n ((q, p, m) # t) c =
    (if q \<le> n then replay_walk (n - q) t (c + p * of_int q * of_int m)
     else ((q - n, p, m) # t, c + p * of_int n * of_int m, True))"
  using assms
  by (subst replay_walk.simps) (simp add: Let_def min_def replay_walk_done)

text \<open>The book's walk and the replay's walk remove the same lots at the same cost.\<close>

lemma replay_walk_simulates:
  "\<forall>l \<in> set ls. lot_ok l \<Longrightarrow> fifo_walk n ls c = (ls', c', ok) \<Longrightarrow>
   replay_walk n (map lot_triple ls) c = (map lot_triple ls', c', ok)"
proof (induction ls arbitrary: n c)
  case Nil
  then show ?case
    by (cases "n \<le> 0") (auto simp: fifo_walk.simps [of n] replay_walk.simps [of n])
next
  case (Cons h t)
  show ?case
  proof (cases "n \<le> 0")
    case True
    with Cons.prems show ?thesis by (auto simp: fifo_walk_done replay_walk_done)
  next
    case False
    have ok: "lot_ok h" "1 \<le> lot_quantity h" using Cons.prems by (auto simp: lot_ok_def)
    show ?thesis
    proof (cases "lot_quantity h \<le> n")
      case True
      then show ?thesis using Cons.prems Cons.IH [of "n - lot_quantity h"] False ok
        by (simp add: fifo_walk_step lot_triple_def replay_walk_step lot_ok_def)
    next
      case nle: False
      then show ?thesis using Cons.prems(2) False ok
        by (auto simp: fifo_walk_step lot_triple_def replay_walk_step shrink_def)
    qed
  qed
qed

text \<open>
  With enough quantity held, the walk ends normally, what is left is what was held minus what was
  asked for, every lot left is still valid, and the cost removed is the drop in the open basis.
\<close>

lemma fifo_walk_correct:
  "\<forall>l \<in> set ls. lot_ok l \<Longrightarrow> 0 \<le> n \<Longrightarrow> n \<le> lots_quantity ls \<Longrightarrow>
   \<exists>ls' c'. fifo_walk n ls c = (ls', c', True) \<and> lots_quantity ls' = lots_quantity ls - n
     \<and> c' + lots_basis ls' = c + lots_basis ls \<and> (\<forall>l \<in> set ls'. lot_ok l)"
proof (induction ls arbitrary: n c)
  case Nil
  then show ?case by (simp add: fifo_walk_done)
next
  case (Cons h t)
  show ?case
  proof (cases "n \<le> 0")
    case True
    with Cons.prems show ?thesis by (simp add: fifo_walk_done)
  next
    case False
    have ok: "lot_ok h" "1 \<le> lot_quantity h" using Cons.prems by (auto simp: lot_ok_def)
    show ?thesis
    proof (cases "lot_quantity h \<le> n")
      case True
      then show ?thesis
        using Cons.prems Cons.IH [of "n - lot_quantity h" "c + lot_cost_basis h"] False ok
        by (auto simp: fifo_walk_step)
    next
      case nle: False
      then show ?thesis using Cons.prems False ok shrink_ok [of h n]
        by (auto simp: fifo_walk_step) (auto simp: shrink_def lot_ok_def algebra_simps)
    qed
  qed
qed

text \<open>First in, first out: the lots left are the last lots, the first of them possibly shrunk.\<close>

lemma fifo_walk_suffix:
  "\<forall>l \<in> set ls. lot_ok l \<Longrightarrow> fifo_walk n ls c = (ls', c', True) \<Longrightarrow>
   \<exists>k. ls' = drop k ls \<or> (\<exists>m. k < length ls \<and> 0 < m \<and> m < lot_quantity (ls ! k)
        \<and> ls' = shrink (ls ! k) m # drop (Suc k) ls)"
proof (induction ls arbitrary: n c)
  case Nil
  then show ?case by (cases "n \<le> 0") (auto simp: fifo_walk.simps [of n])
next
  case (Cons h t)
  show ?case
  proof (cases "n \<le> 0")
    case True
    with Cons.prems show ?thesis by (intro exI [of _ 0]) (simp add: fifo_walk_done)
  next
    case False
    have ok: "lot_ok h" using Cons.prems by simp
    show ?thesis
    proof (cases "lot_quantity h \<le> n")
      case True
      then have "fifo_walk (n - lot_quantity h) t (c + lot_cost_basis h) = (ls', c', True)"
        using Cons.prems(2) False ok by (simp add: fifo_walk_step)
      then obtain k where "ls' = drop k t \<or> (\<exists>m. k < length t \<and> 0 < m \<and> m < lot_quantity (t ! k)
          \<and> ls' = shrink (t ! k) m # drop (Suc k) t)"
        using Cons.IH [of "n - lot_quantity h" "c + lot_cost_basis h"] Cons.prems(1) by fastforce
      then show ?thesis by (intro exI [of _ "Suc k"]) auto
    next
      case nle: False
      then show ?thesis using Cons.prems(2) False ok
        by (intro exI [of _ 0] disjI2 exI [of _ n]) (auto simp: fifo_walk_step)
    qed
  qed
qed

subsection \<open>What an accepted event does to the book\<close>

definition book_lots_ok :: "book \<Rightarrow> bool" where
  "book_lots_ok b \<longleftrightarrow> (\<forall>c. \<forall>l \<in> set (bk_lots b c). lot_ok l)"

definition not_before :: "book \<Rightarrow> instant \<Rightarrow> bool" where
  "not_before b t \<longleftrightarrow> (case bk_last_execution_at b of None \<Rightarrow> True | Some l \<Rightarrow> l \<le> t)"

lemma primitive_cash_eq: "fill_ok f \<Longrightarrow> primitive_cash f =
    (if fl_side f = Buy then -1 else 1) * (fl_price f * of_int (fl_quantity f) * of_int (fl_multiplier f))"
proof -
  assume f: "fill_ok f"
  have "on_cents (fl_price f * of_int (fl_quantity f) * of_int (fl_multiplier f))"
    using fill_price_cents [OF f] by (intro cents_intros)
  then show ?thesis by (simp add: primitive_cash_def Let_def quantize_id)
qed

lemma primitive_cash_cents [cents_intros]: "on_cents (primitive_cash f)"
  by (auto simp: primitive_cash_def Let_def intro: cents_intros)

lemma lot_of_fill_ok: "fill_ok f \<Longrightarrow> lot_ok (lot_of_fill f)"
proof -
  assume f: "fill_ok f"
  have "on_cents (fl_price f * of_int (fl_quantity f) * of_int (fl_multiplier f))"
    using fill_price_cents [OF f] by (intro cents_intros)
  with f show ?thesis by (simp add: lot_of_fill_def lot_ok_def fill_ok_def price_ok_def quantize_id)
qed

text \<open>The change of a contract's lots and realized PnL; the walk of an accepted event is normal.\<close>

definition closes_lots :: "book \<Rightarrow> book \<Rightarrow> ident \<Rightarrow> int \<Rightarrow> decimal \<Rightarrow> bool" where
  "closes_lots b b' c n proceeds \<longleftrightarrow> (\<exists>ls' cost. 0 \<le> n \<and> n \<le> lots_quantity (bk_lots b c)
     \<and> fifo_walk n (bk_lots b c) 0 = (ls', cost, True)
     \<and> bk_lots b' = (bk_lots b)(c := ls')
     \<and> bk_realized b' = (bk_realized b)(c := bk_realized b c + (proceeds - cost)))"

lemma walk_normal:
  assumes "book_lots_ok b" and "0 \<le> n" and "n \<le> lots_quantity (bk_lots b c)"
  obtains ls' cost where "fifo_walk n (bk_lots b c) 0 = (ls', cost, True)" and "on_cents cost"
proof -
  have lots: "\<forall>l \<in> set (bk_lots b c). lot_ok l" using assms(1) by (simp add: book_lots_ok_def)
  from fifo_walk_correct [OF this assms(2,3), of 0] obtain ls' cost where
    w: "fifo_walk n (bk_lots b c) 0 = (ls', cost, True)" and
    c: "cost = lots_basis (bk_lots b c) - lots_basis ls'" and ok: "\<forall>l \<in> set ls'. lot_ok l"
    by (auto simp: algebra_simps)
  have "on_cents (lots_basis ls)" if "\<forall>l \<in> set ls. lot_ok l" for ls
    using that by (induction ls) (auto simp: lot_basis_cents intro: cents_intros)
  then have "on_cents cost" unfolding c using lots ok by (intro on_cents_diff) auto
  with w show thesis by (rule that)
qed

lemma apply_fill_outcome:
  assumes "book_lots_ok b" and "fill_ok f" and "apply_fill b f = (b', res)"
  shows "(\<exists>e. res = Inl e) \<and> b' = b
    \<or> res = Inr () \<and> fl_fill_id f \<notin> bk_fill_ids b \<and> not_before b (fl_execution_at f)
      \<and> bk_initial_cash b' = bk_initial_cash b
      \<and> bk_cash b' = quantize (bk_cash b + primitive_cash f - fl_fees f)
      \<and> bk_total_fees b' = quantize (bk_total_fees b + fl_fees f)
      \<and> bk_events b' = bk_events b @ [FillEvent f]
      \<and> map le_amount (bk_entries b') = map le_amount (bk_entries b) @ [primitive_cash f, - fl_fees f]
      \<and> map le_entry_id (bk_entries b') = map le_entry_id (bk_entries b)
          @ [entry_id (bk_entry_seq b + 1), entry_id (bk_entry_seq b + 2)]
      \<and> bk_entry_seq b' = bk_entry_seq b + 2
      \<and> bk_last_execution_at b' = Some (fl_execution_at f)
      \<and> bk_fill_ids b' = insert (fl_fill_id f) (bk_fill_ids b)
      \<and> bk_settlement_ids b' = bk_settlement_ids b
      \<and> (if fl_side f = Buy
         then bk_lots b' = (bk_lots b)
                (fl_contract_id f := bk_lots b (fl_contract_id f) @ [lot_of_fill f])
              \<and> bk_realized b' = bk_realized b
         else closes_lots b b' (fl_contract_id f) (fl_quantity f) (primitive_cash f))"
proof -
  have fees: "on_cents (fl_fees f)" and q: "0 \<le> fl_quantity f"
    using assms(2) by (simp_all add: fill_ok_def money_ok_def)
  show ?thesis
  proof (cases "fl_fill_id f \<in> bk_fill_ids b \<or> \<not> not_before b (fl_execution_at f)
      \<or> (fl_side f = Sell \<and> lots_quantity (bk_lots b (fl_contract_id f)) < fl_quantity f)
      \<or> \<not> money_ok (primitive_cash f) \<or> \<not> money_ok (- fl_fees f)")
    case True
    with assms(3) show ?thesis
      by (auto simp: apply_fill_def stage_fill_entries_def Let_def not_before_def
          split: if_splits option.splits)
  next
    case False
    then have g: "fl_fill_id f \<notin> bk_fill_ids b" "not_before b (fl_execution_at f)"
      "\<not> (fl_side f = Sell \<and> lots_quantity (bk_lots b (fl_contract_id f)) < fl_quantity f)"
      "money_ok (primitive_cash f)" "money_ok (- fl_fees f)" by auto
    have t: "\<not> (case bk_last_execution_at b of None \<Rightarrow> False | Some l \<Rightarrow> fl_execution_at f < l)"
      using g(2) by (auto simp: not_before_def split: option.splits)
    show ?thesis
    proof (cases "fl_side f")
      case Buy
      with assms(3) g t show ?thesis
        by (auto simp: apply_fill_def stage_fill_entries_def apply_fill_arithmetic_def Let_def)
    next
      case Sell
      then have n: "fl_quantity f \<le> lots_quantity (bk_lots b (fl_contract_id f))" using g(3) by simp
      obtain ls' cost where w: "fifo_walk (fl_quantity f) (bk_lots b (fl_contract_id f)) 0 = (ls', cost, True)"
        using walk_normal [OF assms(1) q n] by blast
      have p: "primitive_cash f = quantize (fl_price f * of_int (fl_quantity f) * of_int (fl_multiplier f))"
        using Sell by (simp add: primitive_cash_def)
      show ?thesis using assms(3) g t Sell n w q
        by (auto simp: apply_fill_def stage_fill_entries_def apply_fill_arithmetic_def Let_def
            closes_lots_def p)
    qed
  qed
qed

lemma apply_settlement_outcome:
  assumes "book_lots_ok b" and "settlement_ok s" and "apply_settlement b s = (b', res)"
  shows "(\<exists>e. res = Inl e) \<and> b' = b
    \<or> res = Inr () \<and> es_settlement_id s \<notin> bk_settlement_ids b \<and> not_before b (es_ts s)
      \<and> bk_initial_cash b' = bk_initial_cash b
      \<and> bk_cash b' = quantize (bk_cash b + es_cash s)
      \<and> bk_total_fees b' = bk_total_fees b
      \<and> bk_events b' = bk_events b @ [SettleEvent s]
      \<and> map le_amount (bk_entries b') = map le_amount (bk_entries b) @ [es_cash s]
      \<and> map le_entry_id (bk_entries b') = map le_entry_id (bk_entries b)
          @ [entry_id (bk_entry_seq b + 1)]
      \<and> bk_entry_seq b' = bk_entry_seq b + 1
      \<and> bk_last_execution_at b' = Some (es_ts s)
      \<and> bk_fill_ids b' = bk_fill_ids b
      \<and> bk_settlement_ids b' = insert (es_settlement_id s) (bk_settlement_ids b)
      \<and> closes_lots b b' (es_contract_id s) (es_quantity s) (es_cash s)"
proof (cases "es_settlement_id s \<in> bk_settlement_ids b \<or> \<not> not_before b (es_ts s)
    \<or> lots_quantity (bk_lots b (es_contract_id s)) < es_quantity s")
  case True
  with assms(3) show ?thesis
    by (auto simp: apply_settlement_def Let_def not_before_def split: if_splits option.splits)
next
  case False
  then have g: "es_settlement_id s \<notin> bk_settlement_ids b" "not_before b (es_ts s)"
    and n: "es_quantity s \<le> lots_quantity (bk_lots b (es_contract_id s))" by auto
  have t: "\<not> (case bk_last_execution_at b of None \<Rightarrow> False | Some l \<Rightarrow> es_ts s < l)"
    using g(2) by (auto simp: not_before_def split: option.splits)
  have q: "0 \<le> es_quantity s" and m: "money_ok (es_cash s)"
    using settlement_okD [OF assms(2)] by simp_all
  obtain ls' cost where w: "fifo_walk (es_quantity s) (bk_lots b (es_contract_id s)) 0 = (ls', cost, True)"
    and c: "on_cents cost"
    using walk_normal [OF assms(1) q n] by blast
  have "quantize (es_cash s - cost) = es_cash s - cost"
    using m c by (intro quantize_id on_cents_diff) (simp_all add: money_ok_def)
  with assms(3) g t n w q m show ?thesis
    by (auto simp: apply_settlement_def Let_def closes_lots_def)
qed

subsection \<open>The book and the replay\<close>

definition linked :: "book \<Rightarrow> replay_state \<Rightarrow> bool" where
  "linked b r \<longleftrightarrow> on_cents (bk_initial_cash b) \<and> on_cents (rp_cash r) \<and> on_cents (rp_fees r)
     \<and> bk_cash b = bk_initial_cash b + rp_cash r \<and> bk_total_fees b = rp_fees r
     \<and> bk_fill_ids b = rp_fill_ids r \<and> bk_settlement_ids b = rp_settlement_ids r
     \<and> book_lots_ok b \<and> rp_lots r = (\<lambda>c. map lot_triple (bk_lots b c))
     \<and> rp_qty r = bk_quantity b \<and> rp_realized r = bk_realized b
     \<and> sum_list (map le_amount (bk_entries b)) = rp_cash r"

lemma closes_effect:
  assumes "book_lots_ok b" and "closes_lots b b' c n proceeds"
  obtains cost where "on_cents cost"
    and "replay_walk n (map lot_triple (bk_lots b c)) 0 = (map lot_triple (bk_lots b' c), cost, True)"
    and "bk_lots b' = (bk_lots b)(c := bk_lots b' c)"
    and "bk_realized b' = (bk_realized b)(c := bk_realized b c + (proceeds - cost))"
    and "bk_quantity b' = (bk_quantity b)(c := bk_quantity b c - n)"
    and "cost = lots_basis (bk_lots b c) - lots_basis (bk_lots b' c)"
    and "book_lots_ok b'" and "n \<le> bk_quantity b c"
proof -
  from assms(2) obtain ls' cost where n: "0 \<le> n" "n \<le> lots_quantity (bk_lots b c)"
    and w: "fifo_walk n (bk_lots b c) 0 = (ls', cost, True)"
    and l: "bk_lots b' = (bk_lots b)(c := ls')"
    and r: "bk_realized b' = (bk_realized b)(c := bk_realized b c + (proceeds - cost))"
    by (auto simp: closes_lots_def)
  have lots: "\<forall>l \<in> set (bk_lots b c). lot_ok l" using assms(1) by (simp add: book_lots_ok_def)
  from walk_normal [OF assms(1) n] have cost: "on_cents cost" using w by auto
  have rw: "replay_walk n (map lot_triple (bk_lots b c)) 0 = (map lot_triple ls', cost, True)"
    using replay_walk_simulates [OF lots w] .
  from fifo_walk_correct [OF lots n, of 0] w
  have k: "lots_quantity ls' = lots_quantity (bk_lots b c) - n"
      "cost = lots_basis (bk_lots b c) - lots_basis ls'" "\<forall>l \<in> set ls'. lot_ok l"
    by (auto simp: algebra_simps)
  show thesis
  proof (rule that [OF cost])
    show "bk_quantity b' = (bk_quantity b)(c := bk_quantity b c - n)"
      by (auto simp: bk_quantity_def l k)
    show "book_lots_ok b'" using assms(1) k(3) by (auto simp: book_lots_ok_def l)
  qed (use rw l r k n in \<open>simp_all add: bk_quantity_def\<close>)
qed

definition replay_event :: "replay_state \<Rightarrow> ledger_event \<Rightarrow> ledger_error + replay_state" where
  "replay_event r e = (case e of FillEvent f \<Rightarrow> replay_fill r f | SettleEvent s \<Rightarrow> replay_settlement r s)"

lemma replay_events_snoc:
  "replay_events r (es @ [e]) = (case replay_events r es of Inl x \<Rightarrow> Inl x | Inr r' \<Rightarrow> replay_event r' e)"
proof (induction es arbitrary: r)
  case Nil
  then show ?case by (cases e) (auto simp: replay_event_def split: sum.splits)
next
  case (Cons a es)
  then show ?case by (cases a) (auto split: sum.splits)
qed

definition event_ok :: "ledger_event \<Rightarrow> bool" where
  "event_ok e \<longleftrightarrow> (case e of FillEvent f \<Rightarrow> fill_ok f | SettleEvent s \<Rightarrow> settlement_ok s)"

lemma linked_fill:
  assumes "linked b r" and "fill_ok f" and "apply_fill b f = (b', Inr ())"
  shows "\<exists>r'. replay_fill r f = Inr r' \<and> linked b' r'"
proof -
  have ok: "book_lots_ok b" using assms(1) by (simp add: linked_def)
  note o = apply_fill_outcome [OF ok assms(2,3), simplified]
  have cents: "on_cents (bk_cash b + primitive_cash f - fl_fees f)"
      "on_cents (bk_total_fees b + fl_fees f)" "on_cents (rp_cash r + (primitive_cash f - fl_fees f))"
      "on_cents (rp_fees r + fl_fees f)"
    using assms(1,2) by (auto simp: linked_def fill_ok_def money_ok_def intro!: cents_intros)
  show ?thesis
  proof (cases "fl_side f")
    case Buy
    have "lot_triple (lot_of_fill f) = (fl_quantity f, fl_price f, fl_multiplier f)"
      by (simp add: lot_triple_def lot_of_fill_def)
    with Buy assms(1) o cents lot_of_fill_ok [OF assms(2)] show ?thesis
      by (auto simp: linked_def replay_fill_def Let_def quantize_id book_lots_ok_def bk_quantity_def
          lot_of_fill_def sum_list_addf fun_eq_iff)
  next
    case Sell
    then have "closes_lots b b' (fl_contract_id f) (fl_quantity f) (primitive_cash f)" using o by simp
    then obtain cost where "on_cents cost"
      and k: "replay_walk (fl_quantity f) (map lot_triple (bk_lots b (fl_contract_id f))) 0
         = (map lot_triple (bk_lots b' (fl_contract_id f)), cost, True)"
       "bk_lots b' = (bk_lots b)(fl_contract_id f := bk_lots b' (fl_contract_id f))"
       "bk_realized b' = (bk_realized b)
          (fl_contract_id f := bk_realized b (fl_contract_id f) + (primitive_cash f - cost))"
       "bk_quantity b' = (bk_quantity b)(fl_contract_id f := bk_quantity b (fl_contract_id f) - fl_quantity f)"
       "book_lots_ok b'" "fl_quantity f \<le> bk_quantity b (fl_contract_id f)"
      by (rule closes_effect [OF ok])
    have p: "primitive_cash f = fl_price f * of_int (fl_quantity f) * of_int (fl_multiplier f)"
      using Sell primitive_cash_eq [OF assms(2)] by simp
    have "quantize (primitive_cash f - cost) = primitive_cash f - cost"
      using \<open>on_cents cost\<close> by (intro quantize_id cents_intros)
    moreover have "rp_lots r (fl_contract_id f) = map lot_triple (bk_lots b (fl_contract_id f))"
      using assms(1) by (simp add: linked_def)
    moreover have "(\<lambda>c. map lot_triple (bk_lots b' c)) = (\<lambda>c. map lot_triple (bk_lots b c))
        (fl_contract_id f := map lot_triple (bk_lots b' (fl_contract_id f)))"
      by (subst k(2)) auto
    ultimately show ?thesis using assms(1) o Sell cents k
      by (simp add: linked_def replay_fill_def Let_def quantize_id p)
  qed
qed

lemma linked_settlement:
  assumes "linked b r" and "settlement_ok s" and "apply_settlement b s = (b', Inr ())"
  shows "\<exists>r'. replay_settlement r s = Inr r' \<and> linked b' r'"
proof -
  have ok: "book_lots_ok b" using assms(1) by (simp add: linked_def)
  note o = apply_settlement_outcome [OF ok assms(2,3), simplified]
  note so = settlement_okD [OF assms(2)]
  have cash: "on_cents (es_cash s)" using so by (simp add: money_ok_def)
  have cents: "on_cents (bk_cash b + es_cash s)" "on_cents (rp_cash r + es_cash s)"
    using assms(1) cash by (auto simp: linked_def intro!: cents_intros)
  have "closes_lots b b' (es_contract_id s) (es_quantity s) (es_cash s)" using o by simp
  then obtain cost where "on_cents cost"
    and k: "replay_walk (es_quantity s) (map lot_triple (bk_lots b (es_contract_id s))) 0
       = (map lot_triple (bk_lots b' (es_contract_id s)), cost, True)"
     "bk_lots b' = (bk_lots b)(es_contract_id s := bk_lots b' (es_contract_id s))"
     "bk_realized b' = (bk_realized b)
        (es_contract_id s := bk_realized b (es_contract_id s) + (es_cash s - cost))"
     "bk_quantity b' = (bk_quantity b)(es_contract_id s := bk_quantity b (es_contract_id s) - es_quantity s)"
     "book_lots_ok b'" "es_quantity s \<le> bk_quantity b (es_contract_id s)"
    by (rule closes_effect [OF ok])
  have "quantize (es_cash s - cost) = es_cash s - cost"
    using \<open>on_cents cost\<close> cash by (intro quantize_id cents_intros)
  moreover have "quantize (intrinsic_value (es_call_put s) (es_strike s) (es_settlement_price s)
      * of_int (es_quantity s) * of_int (es_multiplier s)) = es_cash s"
    using so(7) quantize_id [OF cash] by simp
  moreover have "rp_lots r (es_contract_id s) = map lot_triple (bk_lots b (es_contract_id s))"
    using assms(1) by (simp add: linked_def)
  moreover have "(\<lambda>c. map lot_triple (bk_lots b' c)) = (\<lambda>c. map lot_triple (bk_lots b c))
      (es_contract_id s := map lot_triple (bk_lots b' (es_contract_id s)))"
    by (subst k(2)) auto
  ultimately show ?thesis using assms(1) o cents k
    by (simp add: linked_def replay_settlement_def Let_def quantize_id)
qed

lemma linked_event:
  "linked b r \<Longrightarrow> event_ok e \<Longrightarrow> apply_event b e = (b', Inr ()) \<Longrightarrow>
   \<exists>r'. replay_event r e = Inr r' \<and> linked b' r'"
  by (cases e) (auto simp: event_ok_def replay_event_def intro: linked_fill linked_settlement)

subsection \<open>The invariant of a book\<close>

fun event_ts :: "ledger_event \<Rightarrow> instant" where
  "event_ts (FillEvent f) = fl_execution_at f"
| "event_ts (SettleEvent s) = es_ts s"

text \<open>The contracts the accepted events touched.\<close>

definition touched :: "book \<Rightarrow> ident set" where
  "touched b = set (map event_contract (bk_events b))"

definition accounted :: "book \<Rightarrow> bool" where
  "accounted b \<longleftrightarrow> (\<forall>c. c \<notin> touched b \<longrightarrow> bk_lots b c = [] \<and> bk_realized b c = 0)
     \<and> bk_cash b = bk_initial_cash b - bk_total_fees b
         + (\<Sum>c \<in> touched b. bk_realized b c - lots_basis (bk_lots b c))"

definition chronicled :: "book \<Rightarrow> bool" where
  "chronicled b \<longleftrightarrow> sorted (map event_ts (bk_events b))
     \<and> bk_last_execution_at b = (if bk_events b = [] then None else Some (event_ts (last (bk_events b))))
     \<and> map le_entry_id (bk_entries b) = map entry_id [1..<bk_entry_seq b + 1]"

definition book_inv :: "book \<Rightarrow> bool" where
  "book_inv b \<longleftrightarrow> (\<exists>r. replay_events replay_init (bk_events b) = Inr r \<and> linked b r)
     \<and> accounted b \<and> chronicled b"

lemma sum_insert_update:
  fixes g h :: "'a \<Rightarrow> 'b::ab_group_add"
  assumes "finite T" and "\<And>x. x \<noteq> c \<Longrightarrow> h x = g x" and "c \<notin> T \<Longrightarrow> g c = 0"
  shows "(\<Sum>x \<in> insert c T. h x) = (\<Sum>x \<in> T. g x) + (h c - g c)"
proof -
  have "(\<Sum>x \<in> insert c T. h x) = h c + (\<Sum>x \<in> T - {c}. h x)"
    using assms(1) by (simp add: sum.insert_remove)
  also have "(\<Sum>x \<in> T - {c}. h x) = (\<Sum>x \<in> T - {c}. g x)"
    by (rule sum.cong) (auto simp: assms(2))
  also have "(\<Sum>x \<in> T - {c}. g x) = (\<Sum>x \<in> T. g x) - g c"
    using assms(1,3) by (auto simp: sum_diff1)
  finally show ?thesis by simp
qed

lemma accounted_step:
  assumes "accounted b" and "bk_events b' = bk_events b @ [e]" and "event_contract e = c"
    and "bk_initial_cash b' = bk_initial_cash b"
    and "bk_cash b' = bk_cash b + x - fees" and "bk_total_fees b' = bk_total_fees b + fees"
    and "bk_lots b' = (bk_lots b)(c := bk_lots b' c)"
    and "bk_realized b' = (bk_realized b)(c := bk_realized b' c)"
    and "x = (bk_realized b' c - lots_basis (bk_lots b' c)) - (bk_realized b c - lots_basis (bk_lots b c))"
  shows "accounted b'"
proof -
  have t: "touched b' = insert c (touched b)" using assms(2,3) by (auto simp: touched_def)
  have l: "bk_lots b' d = bk_lots b d" "bk_realized b' d = bk_realized b d" if "d \<noteq> c" for d
    using that assms(7,8) by (metis fun_upd_other)+
  have "(\<Sum>d \<in> insert c (touched b). bk_realized b' d - lots_basis (bk_lots b' d))
      = (\<Sum>d \<in> touched b. bk_realized b d - lots_basis (bk_lots b d)) + x"
    unfolding assms(9)
    by (rule sum_insert_update) (use assms(1) l in \<open>auto simp: accounted_def touched_def\<close>)
  then show ?thesis using assms(1,4,5,6) l by (auto simp: accounted_def t)
qed

lemma chronicled_step:
  assumes "chronicled b" and "not_before b (event_ts e)" and "bk_events b' = bk_events b @ [e]"
    and "bk_last_execution_at b' = Some (event_ts e)"
    and "map le_entry_id (bk_entries b') = map le_entry_id (bk_entries b)
      @ map entry_id [bk_entry_seq b + 1..<bk_entry_seq b' + 1]"
    and "bk_entry_seq b \<le> bk_entry_seq b'"
  shows "chronicled b'"
proof -
  have seq: "[1..<bk_entry_seq b' + 1] = [1..<bk_entry_seq b + 1] @ [bk_entry_seq b + 1..<bk_entry_seq b' + 1]"
    using assms(6) by (metis add_le_mono le_add2 le_iff_add order_refl upt_add_eq_append)
  have "x \<le> event_ts e" if "x \<in> set (map event_ts (bk_events b))" for x
  proof (cases "bk_events b" rule: rev_cases)
    case (snoc ys y)
    then have "event_ts y \<le> event_ts e" "x \<le> event_ts y"
      using assms(1,2) that by (auto simp: chronicled_def not_before_def sorted_append)
    then show ?thesis by simp
  qed (use that in simp)
  then show ?thesis using assms(1,3,4,5) seq
    by (auto simp: chronicled_def sorted_append)
qed

lemma apply_fill_keeps:
  assumes "book_inv b" and "fill_ok f" and "apply_fill b f = (b', Inr ())"
  shows "accounted b' \<and> chronicled b'"
proof -
  obtain r where lk: "linked b r" using assms(1) by (auto simp: book_inv_def)
  then have ok: "book_lots_ok b" by (simp add: linked_def)
  note o = apply_fill_outcome [OF ok assms(2,3), simplified]
  have "on_cents (bk_cash b + primitive_cash f - fl_fees f)" "on_cents (bk_total_fees b + fl_fees f)"
    using lk assms(2) by (auto simp: linked_def fill_ok_def money_ok_def intro!: cents_intros)
  then have cash: "bk_cash b' = bk_cash b + primitive_cash f - fl_fees f"
      "bk_total_fees b' = bk_total_fees b + fl_fees f"
    using o by (simp_all add: quantize_id)
  have "accounted b'"
  proof (cases "fl_side f")
    case Buy
    have "lot_cost_basis (lot_of_fill f) = - primitive_cash f"
      using Buy by (simp add: lot_of_fill_def primitive_cash_def)
    with Buy o cash assms(1) show ?thesis
      by (intro accounted_step [of b b' "FillEvent f" "fl_contract_id f" "primitive_cash f" "fl_fees f"])
         (auto simp: book_inv_def)
  next
    case Sell
    then have "closes_lots b b' (fl_contract_id f) (fl_quantity f) (primitive_cash f)" using o by simp
    then obtain cost where
      "bk_lots b' = (bk_lots b)(fl_contract_id f := bk_lots b' (fl_contract_id f))"
      "bk_realized b' = (bk_realized b)
         (fl_contract_id f := bk_realized b (fl_contract_id f) + (primitive_cash f - cost))"
      "cost = lots_basis (bk_lots b (fl_contract_id f)) - lots_basis (bk_lots b' (fl_contract_id f))"
      by (rule closes_effect [OF ok])
    with o cash assms(1) show ?thesis
      by (intro accounted_step [of b b' "FillEvent f" "fl_contract_id f" "primitive_cash f" "fl_fees f"])
         (simp_all add: book_inv_def)
  qed
  moreover have "chronicled b'"
    by (rule chronicled_step [of b "FillEvent f"])
       (use o assms(1) in \<open>auto simp: book_inv_def upt_rec\<close>)
  ultimately show ?thesis ..
qed

lemma apply_settlement_keeps:
  assumes "book_inv b" and "settlement_ok s" and "apply_settlement b s = (b', Inr ())"
  shows "accounted b' \<and> chronicled b'"
proof -
  obtain r where lk: "linked b r" using assms(1) by (auto simp: book_inv_def)
  then have ok: "book_lots_ok b" by (simp add: linked_def)
  note o = apply_settlement_outcome [OF ok assms(2,3), simplified]
  have "on_cents (bk_cash b + es_cash s)"
    using lk settlement_okD [OF assms(2)]
    by (auto simp: linked_def money_ok_def intro!: cents_intros)
  then have cash: "bk_cash b' = bk_cash b + es_cash s" using o by (simp add: quantize_id)
  have "closes_lots b b' (es_contract_id s) (es_quantity s) (es_cash s)" using o by simp
  then obtain cost where
    "bk_lots b' = (bk_lots b)(es_contract_id s := bk_lots b' (es_contract_id s))"
    "bk_realized b' = (bk_realized b)
       (es_contract_id s := bk_realized b (es_contract_id s) + (es_cash s - cost))"
    "cost = lots_basis (bk_lots b (es_contract_id s)) - lots_basis (bk_lots b' (es_contract_id s))"
    by (rule closes_effect [OF ok])
  with o cash assms(1) have "accounted b'"
    by (intro accounted_step [of b b' "SettleEvent s" "es_contract_id s" "es_cash s" 0])
       (simp_all add: book_inv_def)
  moreover have "chronicled b'"
    by (rule chronicled_step [of b "SettleEvent s"])
       (use o assms(1) in \<open>auto simp: book_inv_def\<close>)
  ultimately show ?thesis ..
qed

lemma apply_event_refused:
  assumes "book_inv b" and "event_ok e" and "apply_event b e = (b', Inl x)"
  shows "b' = b"
proof -
  obtain r where "linked b r" using assms(1) by (auto simp: book_inv_def)
  then have ok: "book_lots_ok b" by (simp add: linked_def)
  show ?thesis
  proof (cases e)
    case (FillEvent f)
    then show ?thesis using assms(2,3) apply_fill_outcome [OF ok, of f b' "Inl x"]
      by (simp add: event_ok_def)
  next
    case (SettleEvent s)
    then show ?thesis using assms(2,3) apply_settlement_outcome [OF ok, of s b' "Inl x"]
      by (simp add: event_ok_def)
  qed
qed

lemma book_inv_step: "book_inv b \<Longrightarrow> event_ok e \<Longrightarrow> book_inv (fst (apply_event b e))"
proof -
  assume inv: "book_inv b" and e: "event_ok e"
  obtain b' res where a: "apply_event b e = (b', res)" by fastforce
  show ?thesis
  proof (cases res)
    case (Inl x)
    then show ?thesis using apply_event_refused [OF inv e] a inv by simp
  next
    case (Inr u)
    then have a: "apply_event b e = (b', Inr ())" using a by simp
    have ev: "bk_events b' = bk_events b @ [e]"
      using a by (cases e) (auto simp: apply_fill_def apply_settlement_def apply_fill_arithmetic_def
          stage_fill_entries_def Let_def split: if_splits prod.splits bool.splits sum.splits)
    obtain r where r: "replay_events replay_init (bk_events b) = Inr r" "linked b r"
      using inv by (auto simp: book_inv_def)
    from linked_event [OF r(2) e a] r(1) ev
    have "\<exists>r'. replay_events replay_init (bk_events b') = Inr r' \<and> linked b' r'"
      by (auto simp: replay_events_snoc)
    moreover have "accounted b' \<and> chronicled b'"
      using a e apply_fill_keeps [OF inv] apply_settlement_keeps [OF inv]
      by (cases e) (auto simp: event_ok_def)
    ultimately show ?thesis using a by (simp add: book_inv_def)
  qed
qed

lemma book_inv_new: "book_inv (new_book x)"
  by (auto simp: book_inv_def new_book_def replay_init_def linked_def book_lots_ok_def
      accounted_def touched_def chronicled_def bk_quantity_def fun_eq_iff)

lemma book_inv_run: "\<forall>e \<in> set es. event_ok e \<Longrightarrow> book_inv b \<Longrightarrow> book_inv (run_events b es)"
  by (induction es arbitrary: b) (auto intro: book_inv_step)

lemma book_inv_conserved:
  assumes "book_inv b"
  shows "assert_conservation b = Inr ()"
proof -
  obtain r where r: "replay_events replay_init (bk_events b) = Inr r" "linked b r"
    using assms by (auto simp: book_inv_def)
  then have "on_cents (bk_initial_cash b + rp_cash r)" by (auto simp: linked_def intro: cents_intros)
  with r show ?thesis by (auto simp: assert_conservation_def linked_def Let_def quantize_id list_ex_iff)
qed

lemma apply_fill_ids: "bk_fill_ids (fst (apply_fill b f)) \<subseteq> insert (fl_fill_id f) (bk_fill_ids b)"
  by (auto simp: apply_fill_def apply_fill_arithmetic_def Let_def split: sum.splits prod.splits bool.splits)

lemma apply_fill_not_duplicate:
  "fl_fill_id f \<notin> bk_fill_ids b \<Longrightarrow> snd (apply_fill b f) \<noteq> Inl DUPLICATE_FILL"
  by (auto simp: apply_fill_def stage_fill_entries_def apply_fill_arithmetic_def Let_def
      split: sum.splits prod.splits bool.splits if_splits)

subsection \<open>Properties\<close>

definition sample_buy :: fill where
  "sample_buy = \<lparr>fl_fill_id = ''F1'', fl_order_id = ''O1'', fl_contract_id = ''SPY-C-100'',
     fl_side = Buy, fl_quantity = 3, fl_price = 250 / 100, fl_multiplier = 100,
     fl_deliverable = 100, fl_fees = 195 / 100, fl_execution_at = 9000, fl_execution_session = 104,
     fl_fraction_to_midpoint = 0\<rparr>"

definition sample_sell :: fill where
  "sample_sell = sample_buy\<lparr>fl_fill_id := ''F2'', fl_order_id := ''O2'', fl_side := Sell,
     fl_quantity := 2, fl_price := 310 / 100, fl_fees := 130 / 100, fl_execution_at := 9900\<rparr>"

text \<open>Claim C2. Conservation (INV-12): whatever valid fills and settlements are applied to a fresh
  book, in whatever order and whether they are accepted or refused, the independent replay of the
  accepted events reproduces the running cash, the fees, every position, every realized PnL and the
  sum of the ledger entries, so \<open>assert_conservation\<close> never raises.\<close>

theorem conservation_holds:
  assumes "\<forall>e \<in> set es. event_ok e"
  shows "assert_conservation (run_events (new_book x) es) = Inr ()"
proof -
  have "book_inv (run_events (new_book x) es)" using assms book_inv_new by (rule book_inv_run)
  then show ?thesis by (rule book_inv_conserved)
qed

theorem conservation_holds_witness:
  "assert_conservation (run_events (new_book 100000)
     [FillEvent sample_buy, FillEvent sample_sell, FillEvent sample_sell]) = Inr ()
   \<and> bk_cash (run_events (new_book 100000) [FillEvent sample_buy, FillEvent sample_sell,
        FillEvent sample_sell]) = 9986675 / 100"
proof
  have "event_ok (FillEvent sample_buy)" "event_ok (FillEvent sample_sell)" by code_simp+
  then show "assert_conservation (run_events (new_book 100000)
     [FillEvent sample_buy, FillEvent sample_sell, FillEvent sample_sell]) = Inr ()"
    by (intro conservation_holds) simp
  show "bk_cash (run_events (new_book 100000) [FillEvent sample_buy, FillEvent sample_sell,
        FillEvent sample_sell]) = 9986675 / 100" by code_simp
qed

lemma run_events_inv: "list_all event_ok es \<Longrightarrow> book_inv (run_events (new_book x) es)"
  by (intro book_inv_run book_inv_new) (simp add: list_all_iff)

lemma book_inv_lots_ok: "book_inv b \<Longrightarrow> book_lots_ok b"
  by (auto simp: book_inv_def linked_def)

lemma run_events_snoc: "run_events b (es @ [e]) = fst (apply_event (run_events b es) e)"
  by (induction es arbitrary: b) auto

text \<open>Claim C23. Atomicity: on every reachable book a valid fill or settlement that is refused leaves
  every field of the book as it was, for each of the refusals.\<close>

theorem refused_event_atomic:
  assumes "list_all event_ok es" and "event_ok e"
    and "apply_event (run_events (new_book x) es) e = (b', Inl err)"
  shows "b' = run_events (new_book x) es"
  using apply_event_refused [OF run_events_inv [OF assms(1)] assms(2,3)] .

theorem refused_event_atomic_witness:
  "snd (apply_event (run_events (new_book 100000) [FillEvent sample_buy]) (FillEvent sample_buy))
     = Inl DUPLICATE_FILL
   \<and> fst (apply_event (run_events (new_book 100000) [FillEvent sample_buy]) (FillEvent sample_buy))
     = run_events (new_book 100000) [FillEvent sample_buy]"
proof
  have e: "event_ok (FillEvent sample_buy)" by code_simp
  show dup: "snd (apply_event (run_events (new_book 100000) [FillEvent sample_buy]) (FillEvent sample_buy))
     = Inl DUPLICATE_FILL" by code_simp
  show "fst (apply_event (run_events (new_book 100000) [FillEvent sample_buy]) (FillEvent sample_buy))
     = run_events (new_book 100000) [FillEvent sample_buy]"
    by (rule refused_event_atomic [where e = "FillEvent sample_buy" and err = DUPLICATE_FILL])
       (use e dup in \<open>simp_all add: prod_eq_iff\<close>)
qed

text \<open>The accounting identity: on every reachable book the cash is the initial cash, minus
  the fees, plus the realized PnL, minus the cost basis of the open lots, summed over the contracts
  the accepted events touched; the contracts never touched hold nothing.\<close>

lemma cash_identity:
  assumes "list_all event_ok es" and "b = run_events (new_book x) es"
  shows "bk_cash b = quantize x - bk_total_fees b
      + (\<Sum>c \<in> set (map event_contract (bk_events b)).
           bk_realized b c - sum_list (map lot_cost_basis (bk_lots b c)))
    \<and> (\<forall>c. c \<notin> set (map event_contract (bk_events b)) \<longrightarrow> bk_quantity b c = 0 \<and> bk_realized b c = 0)"
proof -
  have ini: "bk_initial_cash (fst (apply_event b e)) = bk_initial_cash b" for b e
    by (cases e) (auto simp: apply_fill_def apply_settlement_def apply_fill_arithmetic_def
        stage_fill_entries_def Let_def split: if_splits prod.splits bool.splits sum.splits)
  have "bk_initial_cash (run_events b es) = bk_initial_cash b" for b es
    by (induction es arbitrary: b) (simp_all add: ini)
  then have "bk_initial_cash b = quantize x" by (simp add: assms(2) new_book_def)
  moreover have "accounted b" using run_events_inv [OF assms(1)] assms(2) by (simp add: book_inv_def)
  ultimately show ?thesis by (simp add: accounted_def touched_def lots_basis_def bk_quantity_def)
qed

theorem cash_identity_witness:
  "bk_cash (run_events (new_book 100000) [FillEvent sample_buy, FillEvent sample_sell])
    = quantize 100000 - 325 / 100 + (120 - 250)"
proof -
  let ?b = "run_events (new_book 100000) [FillEvent sample_buy, FillEvent sample_sell]"
  have "list_all event_ok [FillEvent sample_buy, FillEvent sample_sell]" by code_simp
  note i = cash_identity [OF this, of ?b 100000, OF refl, THEN conjunct1]
  have "bk_total_fees ?b = 325 / 100" by code_simp
  moreover have "map event_contract (bk_events ?b) = [''SPY-C-100'', ''SPY-C-100'']" by code_simp
  moreover have "bk_realized ?b ''SPY-C-100'' = 120" by code_simp
  moreover have "sum_list (map lot_cost_basis (bk_lots ?b ''SPY-C-100'')) = 250" by code_simp
  ultimately show ?thesis using i by (simp only: list.set insert_absorb2) simp
qed

lemma not_before_iff: "book_inv b \<Longrightarrow> not_before b t \<longleftrightarrow> (\<forall>e \<in> set (bk_events b). event_ts e \<le> t)"
  by (cases "bk_events b" rule: rev_cases)
    (auto simp: book_inv_def chronicled_def not_before_def sorted_append intro: order_trans)

lemma primitive_money: "fill_ok f \<Longrightarrow> money_ok (primitive_cash f) \<longleftrightarrow> notional f < 10 ^ 16"
proof -
  assume f: "fill_ok f"
  have cents: "on_cents (fl_price f * of_int (fl_quantity f) * of_int (fl_multiplier f))"
    using fill_price_cents [OF f] by (intro cents_intros)
  have "0 \<le> fl_price f * of_int (fl_quantity f) * of_int (fl_multiplier f)"
    using f by (simp add: fill_ok_def price_ok_def)
  then show ?thesis using cents on_cents_uminus [OF cents]
    by (cases "fl_side f") (auto simp: money_ok_def primitive_cash_eq [OF f] notional_def quantize_id)
qed

lemma fees_money: "fill_ok f \<Longrightarrow> money_ok (- fl_fees f)"
  by (auto simp: fill_ok_def money_ok_def intro: on_cents_uminus)

lemma apply_fill_quantity:
  assumes "book_lots_ok b" and "fill_ok f" and "apply_fill b f = (b', Inr ())"
  shows "bk_quantity b' = (bk_quantity b) (fl_contract_id f := bk_quantity b (fl_contract_id f)
             + (if fl_side f = Buy then fl_quantity f else - fl_quantity f))"
    and "fl_side f = Sell \<Longrightarrow> fl_quantity f \<le> bk_quantity b (fl_contract_id f)"
proof -
  note o = apply_fill_outcome [OF assms(1,2,3), simplified]
  have sold: "bk_quantity b' = (bk_quantity b)(fl_contract_id f := bk_quantity b (fl_contract_id f) - fl_quantity f)
      \<and> fl_quantity f \<le> bk_quantity b (fl_contract_id f)" if "fl_side f = Sell"
  proof -
    have "closes_lots b b' (fl_contract_id f) (fl_quantity f) (primitive_cash f)" using o that by simp
    then show ?thesis by (rule closes_effect [OF assms(1)]) blast
  qed
  then show "bk_quantity b' = (bk_quantity b) (fl_contract_id f := bk_quantity b (fl_contract_id f)
             + (if fl_side f = Buy then fl_quantity f else - fl_quantity f))"
    using o by (cases "fl_side f") (auto simp: bk_quantity_def lot_of_fill_def fun_eq_iff)
  show "fl_side f = Sell \<Longrightarrow> fl_quantity f \<le> bk_quantity b (fl_contract_id f)" using sold by blast
qed

lemma apply_fill_accepts:
  assumes "book_inv b" and "fill_ok f"
  shows "snd (apply_fill b f) = Inr () \<longleftrightarrow> fl_fill_id f \<notin> bk_fill_ids b
      \<and> not_before b (fl_execution_at f)
      \<and> (fl_side f = Sell \<longrightarrow> fl_quantity f \<le> bk_quantity b (fl_contract_id f))
      \<and> money_ok (primitive_cash f)" (is "?L \<longleftrightarrow> ?R")
proof
  assume ?L
  then show ?R
    by (auto simp: apply_fill_def stage_fill_entries_def Let_def not_before_def bk_quantity_def
        split: if_splits option.splits)
next
  assume R: ?R
  have t: "\<not> (case bk_last_execution_at b of None \<Rightarrow> False | Some l \<Rightarrow> fl_execution_at f < l)"
    using R by (auto simp: not_before_def split: option.splits)
  show ?L
  proof (cases "fl_side f")
    case Buy
    with R t fees_money [OF assms(2)] show ?thesis
      by (simp add: apply_fill_def stage_fill_entries_def apply_fill_arithmetic_def Let_def)
  next
    case Sell
    obtain ls' cost where
      "fifo_walk (fl_quantity f) (bk_lots b (fl_contract_id f)) 0 = (ls', cost, True)"
      by (rule walk_normal [OF book_inv_lots_ok [OF assms(1)], of "fl_quantity f" "fl_contract_id f"])
         (use R assms(2) Sell in \<open>auto simp: bk_quantity_def fill_ok_def\<close>)
    with Sell R t fees_money [OF assms(2)] show ?thesis
      by (simp add: apply_fill_def stage_fill_entries_def apply_fill_arithmetic_def Let_def bk_quantity_def)
  qed
qed

text \<open>Claim C26. A fill is accepted exactly when its id is new, it is not before the last applied event,
  a sale is covered by the quantity held, and its notional is a \<open>Money\<close>; a position is never short,
  and an accepted fill moves the position by exactly its signed quantity and no other position.\<close>

theorem fill_accepted_iff:
  assumes "list_all event_ok es" and "fill_ok f" and "b = run_events (new_book x) es"
  shows "(snd (apply_fill b f) = Inr () \<longleftrightarrow>
        fl_fill_id f \<notin> bk_fill_ids b
        \<and> (\<forall>e \<in> set (bk_events b). event_ts e \<le> fl_execution_at f)
        \<and> (fl_side f = Sell \<longrightarrow> fl_quantity f \<le> bk_quantity b (fl_contract_id f))
        \<and> notional f < 10 ^ 16)
    \<and> (snd (apply_fill b f) = Inr () \<longrightarrow>
        bk_quantity (fst (apply_fill b f)) = (bk_quantity b)
          (fl_contract_id f := bk_quantity b (fl_contract_id f)
             + (if fl_side f = Buy then fl_quantity f else - fl_quantity f)))
    \<and> 0 \<le> bk_quantity b c"
proof -
  have inv: "book_inv b" using run_events_inv [OF assms(1)] assms(3) by simp
  then have ok: "book_lots_ok b" by (rule book_inv_lots_ok)
  have "0 \<le> bk_quantity b c"
    using ok by (simp add: bk_quantity_def book_lots_ok_def lots_quantity_nonneg)
  then show ?thesis
    using apply_fill_accepts [OF inv assms(2)] apply_fill_quantity(1) [OF ok assms(2)]
      not_before_iff [OF inv] primitive_money [OF assms(2)]
    by (cases "apply_fill b f") auto
qed

theorem fill_accepted_iff_witness:
  "snd (apply_fill (run_events (new_book 100000) [FillEvent sample_buy]) sample_sell) = Inr ()
   \<and> bk_quantity (fst (apply_fill (run_events (new_book 100000) [FillEvent sample_buy]) sample_sell))
       ''SPY-C-100'' = 1"
proof -
  let ?b = "run_events (new_book 100000) [FillEvent sample_buy]"
  have "list_all event_ok [FillEvent sample_buy]" "fill_ok sample_sell" by code_simp+
  note i = fill_accepted_iff [OF this refl, of 100000 "''SPY-C-100''"]
  have "fl_fill_id sample_sell \<notin> bk_fill_ids ?b" "map event_ts (bk_events ?b) = [9000]"
    "fl_execution_at sample_sell = 9900" "bk_quantity ?b ''SPY-C-100'' = 3"
    "fl_contract_id sample_sell = ''SPY-C-100''" "fl_quantity sample_sell = 2"
    "fl_side sample_sell = Sell" "notional sample_sell < 10 ^ 16"
    by code_simp+
  with i show ?thesis by auto
qed

text \<open>Claim C27. First in, first out: an accepted sale removes the oldest lots. The lots left are the
  youngest lots of the contract, the first of them possibly reduced (its basis with it, at its own
  price), and the sale realizes its proceeds minus the basis of the quantity removed.\<close>

theorem sale_closes_oldest:
  assumes "list_all event_ok es" and "fill_ok f" and "b = run_events (new_book x) es"
    and "fl_side f = Sell" and "apply_fill b f = (b', Inr ())" and "c = fl_contract_id f"
  shows "\<exists>k. (bk_lots b' c = drop k (bk_lots b c)
       \<or> (\<exists>l m. k < length (bk_lots b c) \<and> l = bk_lots b c ! k \<and> 0 < m \<and> m < lot_quantity l
           \<and> bk_lots b' c = l\<lparr>lot_quantity := lot_quantity l - m,
                 lot_cost_basis := lot_unit_price l * of_int (lot_quantity l - m)
                   * of_int (lot_multiplier l)\<rparr> # drop (Suc k) (bk_lots b c)))
    \<and> bk_realized b' c = bk_realized b c + (notional f
        - (sum_list (map lot_cost_basis (bk_lots b c)) - sum_list (map lot_cost_basis (bk_lots b' c))))"
proof -
  have inv: "book_inv b" using run_events_inv [OF assms(1)] assms(3) by simp
  then have ok: "book_lots_ok b" by (rule book_inv_lots_ok)
  have cl: "closes_lots b b' c (fl_quantity f) (primitive_cash f)"
    using apply_fill_outcome [OF ok assms(2,5)] assms(4,6) by simp
  have "primitive_cash f = notional f" using assms(4) by (simp add: primitive_cash_def notional_def)
  moreover have "bk_realized b' c = bk_realized b c
      + (primitive_cash f - (lots_basis (bk_lots b c) - lots_basis (bk_lots b' c)))"
    using cl by (rule closes_effect [OF ok]) simp
  moreover obtain cost where "fifo_walk (fl_quantity f) (bk_lots b c) 0 = (bk_lots b' c, cost, True)"
    using cl by (auto simp: closes_lots_def)
  with ok have "\<exists>k. bk_lots b' c = drop k (bk_lots b c)
      \<or> (\<exists>m. k < length (bk_lots b c) \<and> 0 < m \<and> m < lot_quantity (bk_lots b c ! k)
        \<and> bk_lots b' c = shrink (bk_lots b c ! k) m # drop (Suc k) (bk_lots b c))"
    by (intro fifo_walk_suffix) (auto simp: book_lots_ok_def)
  ultimately show ?thesis by (auto simp: lots_basis_def shrink_def)
qed

theorem sale_closes_oldest_witness:
  "\<exists>k. bk_realized (fst (apply_fill (run_events (new_book 100000) [FillEvent sample_buy]) sample_sell))
     ''SPY-C-100'' = 120 \<and> k < length (bk_lots (run_events (new_book 100000) [FillEvent sample_buy]) ''SPY-C-100'')"
proof -
  let ?b = "run_events (new_book 100000) [FillEvent sample_buy]"
  let ?b' = "fst (apply_fill ?b sample_sell)"
  have p: "list_all event_ok [FillEvent sample_buy]" "fill_ok sample_sell" "fl_side sample_sell = Sell"
      "snd (apply_fill ?b sample_sell) = Inr ()" "''SPY-C-100'' = fl_contract_id sample_sell"
    by code_simp+
  have "apply_fill ?b sample_sell = (?b', Inr ())" using p(4) by (metis prod.collapse)
  note i = sale_closes_oldest [OF p(1,2) refl p(3) this p(5)]
  have "bk_realized ?b ''SPY-C-100'' = 0" "notional sample_sell = 620"
      "sum_list (map lot_cost_basis (bk_lots ?b ''SPY-C-100'')) = 750"
      "sum_list (map lot_cost_basis (bk_lots ?b' ''SPY-C-100'')) = 250"
      "length (bk_lots ?b ''SPY-C-100'') = 1"
    by code_simp+
  with i show ?thesis by auto
qed

end
