(* ===== verification/Fills.thy ===== *)
theory Fills
  imports Calendar Trading
begin

text \<open>
  The fill engine of \<open>guards/fills.py\<close> (INV-09, INV-10, INV-11): the only component that mints a
  \<open>Fill\<close>. \<open>FillEngine.execute\<close> is modelled check by check, in the code's order, each group of
  checks a function that returns the first refusal; \<open>mint_plan\<close> composes them up to the
  construction of the \<open>Fill\<close>, and \<open>execute\<close> commits the engine's state only when the \<open>Fill\<close>
  validated. The fee model is the field \<open>en_order_fees\<close>: the code takes any object with the
  method \<open>order_fees\<close> there.
\<close>

datatype fill_error =
    DUPLICATE_ORDER_EXECUTION | ORDER_REBOUND | PARTIAL_EXCEEDS_ORDER
  | SESSION_NOT_IN_CALENDAR | CONTRACT_MISMATCH | CONTRACT_NOT_LISTED | CONTRACT_EXPIRED
  | CONTRACT_UNKNOWN_AT_DECISION | DECISION_CLOSE_NOT_MAPPED | DECISION_INSTANT_NOT_CLOSE
  | SAME_SESSION_EXECUTION | EXECUTION_INSTANT_MISMATCH
  | BAR_SESSION_NOT_IN_CALENDAR | BAR_SESSION_STAMP_MISMATCH | BAR_NOT_MOST_RECENT
  | NONSTANDARD_DELIVERABLE | INVALID_FRACTION_TO_MIDPOINT | PRICE_OUTSIDE_BOUNDS
  | UNMARKETABLE_LIMIT | NO_LIQUIDITY
  | FillCalendarError cal_error | FillQuoteError quote_error | FillValueError string
  | FillValidationError

definition allowed_fractions :: "decimal set" where
  "allowed_fractions = {0, 25 / 100, 5 / 10, 75 / 100, 1}"

subsection \<open>Adverse execution scenarios\<close>

record execution_stress =
  slippage_ticks_buy :: int
  slippage_ticks_sell :: int
  extra_fee_per_contract :: decimal
  latency_seconds :: int

definition zero_stress :: execution_stress where
  "zero_stress = \<lparr>slippage_ticks_buy = 0, slippage_ticks_sell = 0, extra_fee_per_contract = 0,
     latency_seconds = 0\<rparr>"

definition make_stress :: "execution_stress \<Rightarrow> string + execution_stress" where
  "make_stress st =
     (if slippage_ticks_buy st < 0 \<or> slippage_ticks_sell st < 0
      then Inl ''stress slippage must be non-negative''
      else if extra_fee_per_contract st < 0
      then Inl ''extra_fee_per_contract must be non-negative''
      else if latency_seconds st < 0 then Inl ''latency_seconds must be non-negative''
      else Inr st)"

subsection \<open>The engine\<close>

record engine =
  en_calendar :: calendar
  en_order_fees :: "int \<Rightarrow> string + decimal"
  en_max_quote_age_seconds :: int
  en_reject_locked_quotes :: bool
  en_fill_size_fraction :: decimal
  en_decision_closes :: "(date \<Rightarrow> instant option) option"
  en_fill_seq :: nat
  en_executed_orders :: "ident set"
  en_orders :: "ident \<Rightarrow> order option"
  en_filled_qty :: "ident \<Rightarrow> int"
  en_vwap_consumed :: "ident \<times> date \<Rightarrow> int"

definition make_engine ::
  "calendar \<Rightarrow> (int \<Rightarrow> string + decimal) \<Rightarrow> int \<Rightarrow> bool \<Rightarrow> decimal
   \<Rightarrow> (date \<Rightarrow> instant option) option \<Rightarrow> string + engine" where
  "make_engine cal fees max_age reject_locked fsf closes =
     (if \<not> (0 < fsf \<and> fsf \<le> 1) then Inl ''fill_size_fraction must be in (0, 1]''
      else Inr \<lparr>en_calendar = cal, en_order_fees = fees, en_max_quote_age_seconds = max_age,
        en_reject_locked_quotes = reject_locked, en_fill_size_fraction = fsf,
        en_decision_closes = closes, en_fill_seq = 0, en_executed_orders = {},
        en_orders = (\<lambda>_. None), en_filled_qty = (\<lambda>_. 0), en_vwap_consumed = (\<lambda>_. 0)\<rparr>)"

subsection \<open>The checks, in order\<close>

text \<open>The order against what the engine already minted; the result is \<open>already_filled\<close>.\<close>

definition order_gate :: "engine \<Rightarrow> order \<Rightarrow> bool \<Rightarrow> fill_error + int" where
  "order_gate en r partial_sequence =
     (let already_filled = en_filled_qty en (or_order_id r)
      in if or_order_id r \<in> en_executed_orders en \<and> \<not> partial_sequence
         then Inl DUPLICATE_ORDER_EXECUTION
         else if (case en_orders en (or_order_id r) of None \<Rightarrow> False | Some bound \<Rightarrow> bound \<noteq> r)
         then Inl ORDER_REBOUND
         else if partial_sequence \<and> already_filled \<ge> or_quantity r then Inl PARTIAL_EXCEEDS_ORDER
         else Inr already_filled)"

definition contract_gate ::
  "calendar \<Rightarrow> order \<Rightarrow> quote list \<Rightarrow> option_contract \<Rightarrow> date \<Rightarrow> fill_error + unit" where
  "contract_gate cal r quotes c execution_session =
     (if \<not> is_session cal execution_session then Inl SESSION_NOT_IN_CALENDAR
      else if oc_contract_id c \<noteq> or_contract_id r
         \<or> list_ex (\<lambda>q. q_contract_id q \<noteq> or_contract_id r) quotes then Inl CONTRACT_MISMATCH
      else if \<not> exists_on c execution_session then Inl CONTRACT_NOT_LISTED
      else if expired_on c execution_session then Inl CONTRACT_EXPIRED
      else if \<not> exists_on c (or_decision_session r) then Inl CONTRACT_UNKNOWN_AT_DECISION
      else Inr ())"

text \<open>
  The decision's close: with \<open>decision_closes\<close> given only that map is read, never the execution
  calendar.
\<close>

definition decision_close :: "engine \<Rightarrow> date \<Rightarrow> fill_error + instant" where
  "decision_close en decision_session = (case en_decision_closes en of
      Some closes \<Rightarrow> (case closes decision_session of
          None \<Rightarrow> Inl DECISION_CLOSE_NOT_MAPPED | Some t \<Rightarrow> Inr t)
    | None \<Rightarrow> (case session_close (en_calendar en) decision_session of
          Inl e \<Rightarrow> Inl (FillCalendarError e) | Inr t \<Rightarrow> Inr t))"

definition timing_gate :: "engine \<Rightarrow> order \<Rightarrow> date \<Rightarrow> instant \<Rightarrow> fill_error + nat" where
  "timing_gate en r execution_session effective_at =
     (case decision_close en (or_decision_session r) of
        Inl e \<Rightarrow> Inl e
      | Inr close \<Rightarrow>
          if or_decision_at r \<noteq> close then Inl DECISION_INSTANT_NOT_CLOSE
          else case ordinal (en_calendar en) execution_session of
              Inl e \<Rightarrow> Inl (FillCalendarError e)
            | Inr exec_ord \<Rightarrow>
                (case ordinal (en_calendar en) (or_decision_session r) of
                   Inl e \<Rightarrow> Inl (FillCalendarError e)
                 | Inr decision_ord \<Rightarrow>
                     if \<not> (effective_at > or_decision_at r \<and> exec_ord > decision_ord)
                     then Inl SAME_SESSION_EXECUTION
                     else case contains_instant (en_calendar en) execution_session effective_at of
                         Inl e \<Rightarrow> Inl (FillCalendarError e)
                       | Inr inside \<Rightarrow>
                           if \<not> inside then Inl EXECUTION_INSTANT_MISMATCH else Inr exec_ord))"

text \<open>The selected quote, checked for its kind; a bar must be of the session just before.\<close>

definition tradable_gate :: "engine \<Rightarrow> quote list \<Rightarrow> instant \<Rightarrow> nat \<Rightarrow> fill_error + quote" where
  "tradable_gate en quotes effective_at exec_ord =
     (case select_quote quotes effective_at of
        Inl e \<Rightarrow> Inl (FillQuoteError e)
      | Inr (Vwap q) \<Rightarrow>
          (case as_tradable_vwap q effective_at of
             Inl e \<Rightarrow> Inl (FillQuoteError e)
           | Inr vq \<Rightarrow>
               if \<not> is_session (en_calendar en) (vw_session vq) then Inl BAR_SESSION_NOT_IN_CALENDAR
               else case session_close (en_calendar en) (vw_session vq) of
                   Inl e \<Rightarrow> Inl (FillCalendarError e)
                 | Inr close \<Rightarrow>
                     if close \<noteq> vw_exchange_timestamp vq then Inl BAR_SESSION_STAMP_MISMATCH
                     else case ordinal (en_calendar en) (vw_session vq) of
                         Inl e \<Rightarrow> Inl (FillCalendarError e)
                       | Inr bar_ordinal \<Rightarrow>
                           if int exec_ord - int bar_ordinal \<noteq> 1 then Inl BAR_NOT_MOST_RECENT
                           else Inr (Vwap vq))
      | Inr (TwoSided q) \<Rightarrow>
          (case as_tradable q effective_at (en_max_quote_age_seconds en)
                  (en_reject_locked_quotes en) of
             Inl e \<Rightarrow> Inl (FillQuoteError e) | Inr tq \<Rightarrow> Inr (TwoSided tq)))"

definition slipped :: "execution_stress \<Rightarrow> side \<Rightarrow> decimal \<Rightarrow> decimal" where
  "slipped st sd price = (case sd of
      Buy \<Rightarrow> price + of_int (slippage_ticks_buy st) / 100
    | Sell \<Rightarrow> price - of_int (slippage_ticks_sell st) / 100)"

definition executable_price ::
  "quote \<Rightarrow> side \<Rightarrow> decimal \<Rightarrow> execution_stress \<Rightarrow> fill_error + decimal" where
  "executable_price selected sd f st = (case selected of
      Vwap q \<Rightarrow>
        if f \<noteq> 0 then Inl INVALID_FRACTION_TO_MIDPOINT
        else let price = slipped st sd (conservative_tick (vw_vwap q) sd)
             in if \<not> 0 < price then Inl PRICE_OUTSIDE_BOUNDS else Inr price
    | TwoSided q \<Rightarrow>
        (case fraction_to_midpoint (qe_bid q) (qe_ask q) sd f of
           Inl e \<Rightarrow> Inl (FillValueError e)
         | Inr p \<Rightarrow>
             let price = slipped st sd p
             in if \<not> 0 < price then Inl PRICE_OUTSIDE_BOUNDS
                else if sd = Buy
                   \<and> price > qe_ask q + of_int (slippage_ticks_buy st) / 100 + 1 / 100
                then Inl PRICE_OUTSIDE_BOUNDS
                else Inr price))"

definition limit_gate :: "order \<Rightarrow> decimal \<Rightarrow> fill_error + unit" where
  "limit_gate r price =
     (if or_order_type r = Limit
         \<and> (case or_limit_price r of None \<Rightarrow> False
            | Some l \<Rightarrow> (or_side r = Buy \<and> l < price) \<or> (or_side r = Sell \<and> l > price))
      then Inl UNMARKETABLE_LIMIT else Inr ())"

definition fill_capacity :: "engine \<Rightarrow> quote \<Rightarrow> side \<Rightarrow> int" where
  "fill_capacity en selected sd = (case selected of
      Vwap q \<Rightarrow> \<lfloor>en_fill_size_fraction en * of_int (vw_volume q)\<rfloor>
                 - en_vwap_consumed en (vw_contract_id q, vw_session q)
    | TwoSided q \<Rightarrow>
        \<lfloor>en_fill_size_fraction en * of_int (if sd = Buy then qe_ask_size q else qe_bid_size q)\<rfloor>)"

definition fill_fees :: "engine \<Rightarrow> execution_stress \<Rightarrow> int \<Rightarrow> string + decimal" where
  "fill_fees en st quantity =
     (if extra_fee_per_contract st > 0
      then stressed_order_fees (en_order_fees en) (extra_fee_per_contract st) quantity
      else en_order_fees en quantity)"

text \<open>Everything from the price on, once the quote is selected.\<close>

definition mint_fill ::
  "engine \<Rightarrow> order \<Rightarrow> option_contract \<Rightarrow> date \<Rightarrow> instant \<Rightarrow> decimal \<Rightarrow> execution_stress \<Rightarrow> int
   \<Rightarrow> quote \<Rightarrow> fill_error + fill" where
  "mint_fill en r c execution_session effective_at f st already_filled selected =
     (if \<not> oc_standard_contract_flag c then Inl NONSTANDARD_DELIVERABLE
      else if f \<notin> allowed_fractions then Inl INVALID_FRACTION_TO_MIDPOINT
      else case executable_price selected (or_side r) f st of
          Inl e \<Rightarrow> Inl e
        | Inr price \<Rightarrow>
            (case limit_gate r price of
               Inl e \<Rightarrow> Inl e
             | Inr _ \<Rightarrow>
                 let quantity = min (or_quantity r - already_filled)
                                  (fill_capacity en selected (or_side r))
                 in if quantity < 1 then Inl NO_LIQUIDITY
                    else case fill_fees en st quantity of
                        Inl e \<Rightarrow> Inl (FillValueError e)
                      | Inr fees \<Rightarrow>
                          let fl = \<lparr>fl_fill_id = or_order_id r @ ''-F''
                                      @ string_of_nat (en_fill_seq en + 1),
                                    fl_order_id = or_order_id r, fl_contract_id = or_contract_id r,
                                    fl_side = or_side r, fl_quantity = quantity,
                                    fl_price = quantize price, fl_multiplier = oc_multiplier c,
                                    fl_deliverable = ds_shares_per_contract (oc_deliverable c),
                                    fl_fees = fees, fl_execution_at = effective_at,
                                    fl_execution_session = execution_session,
                                    fl_fraction_to_midpoint = f\<rparr>
                          in if \<not> fill_ok fl then Inl FillValidationError else Inr fl))"

record fill_call =
  fc_order :: order
  fc_quotes :: "quote list"
  fc_contract :: option_contract
  fc_session :: date
  fc_at :: instant
  fc_fraction :: decimal
  fc_stress :: execution_stress
  fc_partial :: bool

definition effective_at :: "fill_call \<Rightarrow> instant" where
  "effective_at k = shift_instant (fc_at k) (latency_seconds (fc_stress k))"

definition mint_plan :: "engine \<Rightarrow> fill_call \<Rightarrow> fill_error + (quote \<times> fill)" where
  "mint_plan en k =
     (let r = fc_order k; ts = effective_at k
      in case order_gate en r (fc_partial k) of
          Inl e \<Rightarrow> Inl e
        | Inr already_filled \<Rightarrow>
            (case contract_gate (en_calendar en) r (fc_quotes k) (fc_contract k) (fc_session k) of
               Inl e \<Rightarrow> Inl e
             | Inr _ \<Rightarrow>
                 (case timing_gate en r (fc_session k) ts of
                    Inl e \<Rightarrow> Inl e
                  | Inr exec_ord \<Rightarrow>
                      (case tradable_gate en (fc_quotes k) ts exec_ord of
                         Inl e \<Rightarrow> Inl e
                       | Inr selected \<Rightarrow>
                           (case mint_fill en r (fc_contract k) (fc_session k) ts (fc_fraction k)
                                   (fc_stress k) already_filled selected of
                              Inl e \<Rightarrow> Inl e
                            | Inr fl \<Rightarrow> Inr (selected, fl))))))"

definition commit_fill :: "engine \<Rightarrow> order \<Rightarrow> quote \<Rightarrow> fill \<Rightarrow> engine" where
  "commit_fill en r selected fl =
     (let already_filled = en_filled_qty en (or_order_id r);
          en' = en\<lparr>en_fill_seq := en_fill_seq en + 1,
                   en_executed_orders := insert (or_order_id r) (en_executed_orders en),
                   en_orders := (en_orders en)(or_order_id r \<mapsto> r),
                   en_filled_qty := (en_filled_qty en)
                     (or_order_id r := already_filled + fl_quantity fl)\<rparr>
      in case selected of
          TwoSided _ \<Rightarrow> en'
        | Vwap q \<Rightarrow>
            let key = (vw_contract_id q, vw_session q)
            in en'\<lparr>en_vwap_consumed := (en_vwap_consumed en')
                     (key := en_vwap_consumed en key + fl_quantity fl)\<rparr>)"

definition execute :: "engine \<Rightarrow> fill_call \<Rightarrow> engine \<times> (fill_error + fill)" where
  "execute en k = (case mint_plan en k of
      Inl e \<Rightarrow> (en, Inl e)
    | Inr (selected, fl) \<Rightarrow> (commit_fill en (fc_order k) selected fl, Inr fl))"

text \<open>A session of calls: the calls that minted, in order, each with its fill; a refused call
  raises to its caller.\<close>

fun run_calls :: "engine \<Rightarrow> fill_call list \<Rightarrow> engine \<times> (fill_call \<times> fill) list" where
  "run_calls en [] = (en, [])"
| "run_calls en (k # ks) = (case execute en k of
      (en', Inl _) \<Rightarrow> run_calls en' ks
    | (en', Inr fl) \<Rightarrow> (case run_calls en' ks of (en'', tr) \<Rightarrow> (en'', (k, fl) # tr)))"

subsection \<open>What a minted fill went through\<close>

lemma order_gate_Inr:
  "order_gate en r partial = Inr n \<longleftrightarrow> n = en_filled_qty en (or_order_id r)
     \<and> (or_order_id r \<in> en_executed_orders en \<longrightarrow> partial)
     \<and> (\<forall>b. en_orders en (or_order_id r) = Some b \<longrightarrow> b = r)
     \<and> (partial \<longrightarrow> n < or_quantity r)"
  unfolding order_gate_def Let_def raise_simps by (auto split: option.splits)

lemma contract_gate_Inr:
  "contract_gate cal r quotes c d = Inr u \<longleftrightarrow> is_session cal d \<and> oc_contract_id c = or_contract_id r
     \<and> (\<forall>q \<in> set quotes. q_contract_id q = or_contract_id r) \<and> exists_on c d \<and> \<not> expired_on c d
     \<and> exists_on c (or_decision_session r)"
  unfolding contract_gate_def raise_simps by (auto simp: list_ex_iff)

lemma decision_close_Inr:
  "decision_close en d = Inr t \<longleftrightarrow> (case en_decision_closes en of
      Some m \<Rightarrow> m d = Some t | None \<Rightarrow> session_close (en_calendar en) d = Inr t)"
  by (auto simp: decision_close_def split: option.splits sum.splits)

lemma timing_gate_Inr:
  "timing_gate en r d ts = Inr n \<longleftrightarrow> decision_close en (or_decision_session r) = Inr (or_decision_at r)
     \<and> ordinal (en_calendar en) d = Inr n
     \<and> (\<exists>m. ordinal (en_calendar en) (or_decision_session r) = Inr m \<and> m < n)
     \<and> or_decision_at r < ts \<and> contains_instant (en_calendar en) d ts = Inr True"
  unfolding timing_gate_def raise_simps by auto

lemma tradable_gate_Inr:
  "tradable_gate en quotes ts n = Inr q \<longleftrightarrow> select_quote quotes ts = Inr q \<and> (case q of
      Vwap v \<Rightarrow> as_tradable_vwap v ts = Inr v
        \<and> session_close (en_calendar en) (vw_session v) = Inr (vw_exchange_timestamp v)
        \<and> (\<exists>m. ordinal (en_calendar en) (vw_session v) = Inr m \<and> n = m + 1)
    | TwoSided t \<Rightarrow> as_tradable t ts (en_max_quote_age_seconds en) (en_reject_locked_quotes en) = Inr t)"
  (is "?L \<longleftrightarrow> ?R")
proof (cases "select_quote quotes ts")
  case (Inl e)
  then show ?thesis by (simp add: tradable_gate_def)
next
  case (Inr x)
  show ?thesis
  proof (cases x)
    case (TwoSided t)
    with Inr show ?thesis
      by (auto simp: tradable_gate_def try_Inr_iff as_tradable_Inr)
  next
    case (Vwap v)
    with Inr show ?thesis
      unfolding tradable_gate_def by (auto simp: raise_simps as_tradable_vwap_Inr session_close_Inr)
  qed
qed

lemma mint_fill_Inr:
  "mint_fill en r c d ts f st n q = Inr fl \<Longrightarrow> oc_standard_contract_flag c \<and> f \<in> allowed_fractions
     \<and> (\<exists>p. executable_price q (or_side r) f st = Inr p \<and> limit_gate r p = Inr () \<and> fl_price fl = quantize p)
     \<and> fl_quantity fl = min (or_quantity r - n) (fill_capacity en q (or_side r))
     \<and> fill_fees en st (fl_quantity fl) = Inr (fl_fees fl)
     \<and> fill_ok fl \<and> fl_fill_id fl = or_order_id r @ ''-F'' @ string_of_nat (en_fill_seq en + 1)
     \<and> fl_order_id fl = or_order_id r \<and> fl_contract_id fl = or_contract_id r \<and> fl_side fl = or_side r
     \<and> fl_execution_at fl = ts \<and> fl_execution_session fl = d \<and> fl_fraction_to_midpoint fl = f
     \<and> fl_multiplier fl = oc_multiplier c"
  unfolding mint_fill_def Let_def raise_simps by auto

lemma mint_plan_Inr:
  assumes "mint_plan en k = Inr (q, fl)"
  obtains n m where
    "order_gate en (fc_order k) (fc_partial k) = Inr n"
    and "contract_gate (en_calendar en) (fc_order k) (fc_quotes k) (fc_contract k) (fc_session k) = Inr ()"
    and "timing_gate en (fc_order k) (fc_session k) (effective_at k) = Inr m"
    and "tradable_gate en (fc_quotes k) (effective_at k) m = Inr q"
    and "mint_fill en (fc_order k) (fc_contract k) (fc_session k) (effective_at k) (fc_fraction k)
           (fc_stress k) n q = Inr fl"
  using assms unfolding mint_plan_def Let_def raise_simps by auto

lemma execute_Inr:
  assumes "execute en k = (en', Inr fl)"
  obtains q where "mint_plan en k = Inr (q, fl)" and "en' = commit_fill en (fc_order k) q fl"
  using assms by (auto simp: execute_def split: sum.splits prod.splits)

lemma execute_Inl: "execute en k = (en', Inl e) \<Longrightarrow> en' = en"
  by (auto simp: execute_def split: sum.splits prod.splits)

lemma limit_gate_Inr:
  "limit_gate r p = Inr u \<longleftrightarrow> (or_order_type r = Limit \<longrightarrow> (\<forall>l. or_limit_price r = Some l \<longrightarrow>
     (or_side r = Buy \<longrightarrow> p \<le> l) \<and> (or_side r = Sell \<longrightarrow> l \<le> p)))"
  unfolding limit_gate_def raise_simps by (auto split: option.splits)

lemma contains_instant_True:
  "contains_instant c d ts = Inr True \<longleftrightarrow> (\<exists>o' k. session_open c d = Inr o' \<and> session_close c d = Inr k
     \<and> o' \<le> ts \<and> ts \<le> k)"
  unfolding contains_instant_def raise_simps by auto

subsection \<open>The engine's invariant\<close>

text \<open>
  The trace of fills an engine has minted explains its state: the cumulative quantity of an order
  id and of a bar are sums over the trace, an id is bound to the order of its first fill, and the
  sequence number counts the fills.
\<close>

definition fill_bar :: "fill_call \<times> fill \<Rightarrow> (ident \<times> date) option" where
  "fill_bar x = (case select_quote (fc_quotes (fst x)) (fl_execution_at (snd x)) of
      Inr (Vwap q) \<Rightarrow> Some (vw_contract_id q, vw_session q) | _ \<Rightarrow> None)"

definition filled_in :: "(fill_call \<times> fill) list \<Rightarrow> ident \<Rightarrow> int" where
  "filled_in tr oid = sum_list (map (fl_quantity \<circ> snd) (filter (\<lambda>x. fl_order_id (snd x) = oid) tr))"

definition consumed_in :: "(fill_call \<times> fill) list \<Rightarrow> ident \<times> date \<Rightarrow> int" where
  "consumed_in tr key = sum_list (map (fl_quantity \<circ> snd) (filter (\<lambda>x. fill_bar x = Some key) tr))"

definition engine_inv :: "engine \<Rightarrow> (fill_call \<times> fill) list \<Rightarrow> bool" where
  "engine_inv en tr \<longleftrightarrow>
     (\<forall>oid. en_filled_qty en oid = filled_in tr oid)
     \<and> (\<forall>key. en_vwap_consumed en key = consumed_in tr key)
     \<and> en_executed_orders en = (fl_order_id \<circ> snd) ` set tr
     \<and> (\<forall>oid. oid \<notin> en_executed_orders en \<longrightarrow> en_orders en oid = None)
     \<and> en_fill_seq en = length tr
     \<and> (\<forall>x \<in> set tr. en_orders en (fl_order_id (snd x)) = Some (fc_order (fst x))
          \<and> or_order_id (fc_order (fst x)) = fl_order_id (snd x) \<and> fill_ok (snd x))
     \<and> (\<forall>oid r. en_orders en oid = Some r \<longrightarrow> en_filled_qty en oid \<le> or_quantity r)
     \<and> (\<forall>i < length tr. fl_fill_id (snd (tr ! i))
          = fl_order_id (snd (tr ! i)) @ ''-F'' @ string_of_nat (i + 1))"

lemma filled_in_snoc: "filled_in (tr @ [x]) oid
    = filled_in tr oid + (if fl_order_id (snd x) = oid then fl_quantity (snd x) else 0)"
  by (simp add: filled_in_def)

lemma consumed_in_snoc: "consumed_in (tr @ [x]) key
    = consumed_in tr key + (if fill_bar x = Some key then fl_quantity (snd x) else 0)"
  by (simp add: consumed_in_def)

lemma commit_fill_fields:
  "en_calendar (commit_fill en r q fl) = en_calendar en"
  "en_fill_size_fraction (commit_fill en r q fl) = en_fill_size_fraction en"
  "en_fill_seq (commit_fill en r q fl) = en_fill_seq en + 1"
  "en_executed_orders (commit_fill en r q fl) = insert (or_order_id r) (en_executed_orders en)"
  "en_orders (commit_fill en r q fl) = (en_orders en)(or_order_id r \<mapsto> r)"
  "en_filled_qty (commit_fill en r q fl) = (en_filled_qty en)
     (or_order_id r := en_filled_qty en (or_order_id r) + fl_quantity fl)"
  "en_vwap_consumed (commit_fill en r q fl) key = en_vwap_consumed en key
     + (case q of Vwap v \<Rightarrow> if (vw_contract_id v, vw_session v) = key then fl_quantity fl else 0
        | TwoSided _ \<Rightarrow> 0)"
  by (cases q; simp add: commit_fill_def Let_def)+

lemma minted_fill:
  assumes "mint_plan en k = Inr (q, fl)"
  shows "fl_order_id fl = or_order_id (fc_order k)" and "fl_execution_at fl = effective_at k"
    and "fill_ok fl" and "select_quote (fc_quotes k) (effective_at k) = Inr q"
    and "fl_quantity fl = min (or_quantity (fc_order k) - en_filled_qty en (or_order_id (fc_order k)))
           (fill_capacity en q (or_side (fc_order k)))"
    and "fl_fill_id fl = or_order_id (fc_order k) @ ''-F'' @ string_of_nat (en_fill_seq en + 1)"
    and "\<And>b. en_orders en (or_order_id (fc_order k)) = Some b \<Longrightarrow> b = fc_order k"
  using assms
  by (elim mint_plan_Inr; auto dest!: mint_fill_Inr simp: order_gate_Inr tradable_gate_Inr)+

lemma engine_inv_step:
  assumes "engine_inv en tr" and "execute en k = (en', Inr fl)"
  shows "engine_inv en' (tr @ [(k, fl)])"
proof -
  obtain q where q: "mint_plan en k = Inr (q, fl)" "en' = commit_fill en (fc_order k) q fl"
    using assms(2) by (rule execute_Inr)
  note m = minted_fill [OF q(1)]
  have con: "en_vwap_consumed en key = consumed_in tr key" for key
    using assms(1) unfolding engine_inv_def by blast
  have "(case q of Vwap v \<Rightarrow> if (vw_contract_id v, vw_session v) = key then fl_quantity fl else 0
        | TwoSided _ \<Rightarrow> 0) = (if fill_bar (k, fl) = Some key then fl_quantity fl else 0)" for key
    by (cases q) (auto simp: fill_bar_def m)
  then have vw: "en_vwap_consumed en' key = consumed_in (tr @ [(k, fl)]) key" for key
    using con by (simp add: q(2) commit_fill_fields consumed_in_snoc)
  have bound: "en_orders en (fl_order_id (snd x)) = Some (fc_order (fst x))" if "x \<in> set tr" for x
    using assms(1) that by (simp add: engine_inv_def)
  have same: "fc_order a = fc_order k"
    if "(a, b) \<in> set tr" "fl_order_id b = or_order_id (fc_order k)" for a b
    using bound [OF that(1)] that(2) m(7) by simp
  show ?thesis
    using assms(1) vw m bound same
    by (auto simp: engine_inv_def q(2) commit_fill_fields filled_in_snoc nth_append less_Suc_eq)
qed

lemma engine_inv_run:
  "engine_inv en tr0 \<Longrightarrow> run_calls en ks = (en', tr) \<Longrightarrow> engine_inv en' (tr0 @ tr)"
proof (induction ks arbitrary: en tr0 tr)
  case (Cons k ks)
  obtain en1 res where ex: "execute en k = (en1, res)" by fastforce
  show ?case
  proof (cases res)
    case (Inl e)
    with ex Cons show ?thesis using execute_Inl [of en k en1 e] by auto
  next
    case (Inr fl)
    then obtain tr' where "run_calls en1 ks = (en', tr')" "tr = (k, fl) # tr'"
      using Cons.prems(2) ex by (auto split: prod.splits)
    then show ?thesis using Cons.IH [of en1 "tr0 @ [(k, fl)]" tr'] engine_inv_step [OF Cons.prems(1)] ex Inr
      by simp
  qed
qed simp

lemma engine_inv_new: "make_engine cal fees age lock fsf closes = Inr en \<Longrightarrow> engine_inv en []"
  unfolding make_engine_def raise_simps
  by (auto simp: engine_inv_def filled_in_def consumed_in_def)

lemma run_calls_inv:
  "make_engine cal fees age lock fsf closes = Inr en \<Longrightarrow> run_calls en ks = (en', tr) \<Longrightarrow> engine_inv en' tr"
  using engine_inv_run [OF engine_inv_new] by fastforce

lemma run_calls_ids:
  assumes "make_engine cal fees age lock fsf closes = Inr en" and "run_calls en ks = (en', tr)"
  shows "distinct (map (fl_fill_id \<circ> snd) tr)"
proof -
  have ids: "fl_fill_id (snd (tr ! i)) = fl_order_id (snd (tr ! i)) @ ''-F'' @ string_of_nat (i + 1)"
    if "i < length tr" for i
    using run_calls_inv [OF assms] that unfolding engine_inv_def by blast
  show ?thesis unfolding distinct_conv_nth
  proof (intro allI impI)
    fix i j assume ij: "i < length (map (fl_fill_id \<circ> snd) tr)" "j < length (map (fl_fill_id \<circ> snd) tr)"
      "i \<noteq> j"
    show "map (fl_fill_id \<circ> snd) tr ! i \<noteq> map (fl_fill_id \<circ> snd) tr ! j"
    proof
      assume "map (fl_fill_id \<circ> snd) tr ! i = map (fl_fill_id \<circ> snd) tr ! j"
      then have "i + 1 = j + 1" using ids [of i] ids [of j] ij by (intro numbered_id_inj) simp
      with ij show False by simp
    qed
  qed
qed

subsection \<open>Prices\<close>

lemma executable_price_two_sided:
  assumes "executable_price (TwoSided q) sd f st = Inr p" and "on_cents (qe_bid q)" and "on_cents (qe_ask q)"
  shows "0 < p" and "on_cents p"
    and "sd = Buy \<Longrightarrow> p \<le> qe_ask q + of_int (slippage_ticks_buy st) / 100
       \<and> qe_ask q - f * ((qe_ask q - qe_bid q) / 2) + of_int (slippage_ticks_buy st) / 100 \<le> p"
    and "sd = Sell \<Longrightarrow> qe_bid q - of_int (slippage_ticks_sell st) / 100 \<le> p
       \<and> p \<le> qe_bid q + f * ((qe_ask q - qe_bid q) / 2) - of_int (slippage_ticks_sell st) / 100"
proof -
  obtain b where b: "fraction_to_midpoint (qe_bid q) (qe_ask q) sd f = Inr b"
      and p: "p = slipped st sd b" "0 < p"
    using assms(1) unfolding executable_price_def Let_def by (auto simp: raise_simps)
  note fb = fraction_to_midpoint_bounds [OF b assms(2,3)]
  have tick: "on_cents (of_int n / 100)" for n by (auto simp: on_cents_iff)
  show "0 < p" using p by simp
  show "on_cents p" unfolding p(1) slipped_def using fb(3) tick
    by (cases sd) (auto intro: cents_intros)
  show "p \<le> qe_ask q + of_int (slippage_ticks_buy st) / 100
       \<and> qe_ask q - f * ((qe_ask q - qe_bid q) / 2) + of_int (slippage_ticks_buy st) / 100 \<le> p"
    if "sd = Buy"
  proof -
    have "f * ((qe_bid q + qe_ask q) / 2 - qe_ask q) = - (f * ((qe_ask q - qe_bid q) / 2))"
      by (simp add: field_simps)
    note fb(4) [OF that, unfolded this]
    then show ?thesis using fb(2) that p(1) by (simp add: slipped_def)
  qed
  show "qe_bid q - of_int (slippage_ticks_sell st) / 100 \<le> p
       \<and> p \<le> qe_bid q + f * ((qe_ask q - qe_bid q) / 2) - of_int (slippage_ticks_sell st) / 100"
    if "sd = Sell"
  proof -
    have "f * ((qe_bid q + qe_ask q) / 2 - qe_bid q) = f * ((qe_ask q - qe_bid q) / 2)"
      by (simp add: field_simps)
    note fb(5) [OF that, unfolded this]
    then show ?thesis using fb(1) that p(1) by (simp add: slipped_def)
  qed
qed

lemma executable_price_vwap:
  assumes "executable_price (Vwap v) sd f st = Inr p"
  shows "f = 0" and "0 < p" and "on_cents p"
    and "p = slipped st sd (conservative_tick (vw_vwap v) sd)"
proof -
  show f: "f = 0" and p: "0 < p" "p = slipped st sd (conservative_tick (vw_vwap v) sd)"
    using assms unfolding executable_price_def Let_def by (auto simp: raise_simps split: if_splits)
  have "on_cents (of_int n / 100)" for n by (auto simp: on_cents_iff)
  then show "on_cents p" unfolding p(2) slipped_def
    by (cases sd) (auto intro: cents_intros conservative_tick_cents)
qed

subsection \<open>Participation\<close>

lemma minted_capacity: "mint_plan en k = Inr (q, fl) \<Longrightarrow>
    1 \<le> fl_quantity fl \<and> fl_quantity fl \<le> fill_capacity en q (or_side (fc_order k))"
  using minted_fill [of en k q fl] by (simp add: fill_ok_def)

lemma execute_consumes:
  assumes "execute en k = (en', res)" and "en_vwap_consumed en key \<le> bnd"
    and "\<forall>v. Vwap v \<in> set (fc_quotes k) \<and> (vw_contract_id v, vw_session v) = key \<longrightarrow>
           \<lfloor>en_fill_size_fraction en * of_int (vw_volume v)\<rfloor> \<le> bnd"
  shows "en_vwap_consumed en' key \<le> bnd \<and> en_fill_size_fraction en' = en_fill_size_fraction en"
proof (cases res)
  case (Inl e)
  then show ?thesis using assms execute_Inl by metis
next
  case (Inr fl)
  then obtain q where q: "mint_plan en k = Inr (q, fl)" "en' = commit_fill en (fc_order k) q fl"
    using assms(1) execute_Inr by blast
  have sel: "q \<in> set (fc_quotes k)" using minted_fill(4) [OF q(1)] by (rule select_quote_latest)
  show ?thesis
  proof (cases q)
    case (Vwap v)
    then show ?thesis using sel assms(2,3) minted_capacity [OF q(1)]
      by (auto simp: q(2) commit_fill_fields fill_capacity_def)
  qed (use assms(2) in \<open>simp add: q(2) commit_fill_fields\<close>)
qed

lemma run_consumes:
  assumes "run_calls en ks = (en', tr)" and "en_vwap_consumed en key \<le> bnd"
    and "\<forall>k \<in> set ks. \<forall>v. Vwap v \<in> set (fc_quotes k) \<and> (vw_contract_id v, vw_session v) = key \<longrightarrow>
           \<lfloor>en_fill_size_fraction en * of_int (vw_volume v)\<rfloor> \<le> bnd"
  shows "en_vwap_consumed en' key \<le> bnd"
  using assms
proof (induction ks arbitrary: en tr)
  case (Cons k ks)
  obtain en1 res where ex: "execute en k = (en1, res)" by fastforce
  have e1: "en_vwap_consumed en1 key \<le> bnd" "en_fill_size_fraction en1 = en_fill_size_fraction en"
    using execute_consumes [OF ex Cons.prems(2)] Cons.prems(3) by auto
  obtain tr' where "run_calls en1 ks = (en', tr')"
    using Cons.prems(1) ex by (cases res) (auto split: prod.splits)
  then show ?case by (rule Cons.IH) (use e1 Cons.prems(3) in auto)
qed simp

subsection \<open>Stress\<close>

lemma minted_terms:
  assumes "mint_plan en k = Inr (q, fl)"
  obtains p where "executable_price q (fl_side fl) (fc_fraction k) (fc_stress k) = Inr p"
    and "fl_price fl = quantize p"
    and "fill_fees en (fc_stress k) (fl_quantity fl) = Inr (fl_fees fl)"
    and "fl_side fl = or_side (fc_order k)" and "fl_multiplier fl = oc_multiplier (fc_contract k)"
proof -
  obtain n ts where "mint_fill en (fc_order k) (fc_contract k) (fc_session k) ts (fc_fraction k)
      (fc_stress k) n q = Inr fl"
    using assms by (rule mint_plan_Inr)
  from mint_fill_Inr [OF this] show thesis using that by metis
qed

text \<open>One scenario is at least as adverse as another in every component.\<close>

definition stress_le :: "execution_stress \<Rightarrow> execution_stress \<Rightarrow> bool" where
  "stress_le s t \<longleftrightarrow> slippage_ticks_buy s \<le> slippage_ticks_buy t
     \<and> slippage_ticks_sell s \<le> slippage_ticks_sell t
     \<and> 0 \<le> extra_fee_per_contract s \<and> extra_fee_per_contract s \<le> extra_fee_per_contract t
     \<and> latency_seconds s \<le> latency_seconds t"

lemma slipped_mono: "stress_le s t \<Longrightarrow>
    (if sd = Buy then slipped s sd p \<le> slipped t sd p else slipped t sd p \<le> slipped s sd p)"
  by (cases sd) (auto simp: slipped_def stress_le_def divide_right_mono)

lemma executable_price_mono:
  assumes "stress_le s t" and "executable_price q sd f s = Inr p" and "executable_price q sd f t = Inr p'"
  shows "if sd = Buy then p \<le> p' else p' \<le> p"
proof (cases q)
  case (TwoSided x)
  then obtain b where "fraction_to_midpoint (qe_bid x) (qe_ask x) sd f = Inr b"
      "p = slipped s sd b" "p' = slipped t sd b"
    using assms(2,3) by (auto simp: executable_price_def Let_def split: sum.splits if_splits)
  then show ?thesis using slipped_mono [OF assms(1)] by metis
next
  case (Vwap v)
  then have "p = slipped s sd (conservative_tick (vw_vwap v) sd)"
      "p' = slipped t sd (conservative_tick (vw_vwap v) sd)"
    using assms(2,3) by (auto dest: executable_price_vwap(4))
  then show ?thesis using slipped_mono [OF assms(1)] by metis
qed

lemma fill_fees_mono:
  assumes "stress_le s t" and "0 \<le> n" and "\<And>n x. en_order_fees en n = Inr x \<Longrightarrow> on_cents x"
    and "fill_fees en s n = Inr x" and "fill_fees en t n = Inr y"
  shows "x \<le> y"
proof -
  obtain b where b: "en_order_fees en n = Inr b" and xy: "x = quantize (b + extra_fee_per_contract s * of_int n)"
      "y = quantize (b + extra_fee_per_contract t * of_int n)"
    using assms(1,3,4,5) quantize_id
    by (auto simp: fill_fees_def stressed_order_fees_def stress_le_def split: if_splits sum.splits)
  have "extra_fee_per_contract s * of_int n \<le> extra_fee_per_contract t * of_int n"
    using assms(1,2) by (simp add: stress_le_def mult_right_mono)
  then show ?thesis unfolding xy by (intro quantize_mono) simp
qed

subsection \<open>Properties\<close>

definition sample_order :: order where
  "sample_order = \<lparr>or_order_id = ''O1'', or_contract_id = ''SPY-C-100'', or_side = Buy,
     or_intent = OpenLong, or_quantity = 5, or_order_type = Limit, or_limit_price = Some (260 / 100),
     or_budget_notional = None,
     or_decision_at = session_close_instant (\<lambda>_. - 18000) 103, or_decision_session = 103\<rparr>"

definition sample_quote :: quote_event where
  "sample_quote = \<lparr>qe_contract_id = ''SPY-C-100'',
     qe_exchange_timestamp = session_open_instant (\<lambda>_. - 18000) 104 + 60000000,
     qe_received_timestamp = session_open_instant (\<lambda>_. - 18000) 104 + 61000000,
     qe_bid = 240 / 100, qe_ask = 251 / 100, qe_bid_size = 10, qe_ask_size = 3,
     qe_condition = ''regular'', qe_source = ''vendor''\<rparr>"

definition sample_bar_quote :: vwap_quote_event where
  "sample_bar_quote = \<lparr>vw_contract_id = ''SPY-C-100'', vw_session = 103,
     vw_exchange_timestamp = session_close_instant (\<lambda>_. - 18000) 103,
     vw_received_timestamp = session_close_instant (\<lambda>_. - 18000) 103 + 900000000,
     vw_vwap = 2505 / 1000, vw_volume = 4, vw_trade_count = 2,
     vw_condition = ''regular_trading'', vw_source = ''vendor''\<rparr>"

definition sample_engine :: engine where
  "sample_engine = \<lparr>en_calendar = sample_calendar,
     en_order_fees = order_fees \<lparr>fee_per_contract = 65 / 100, minimum_per_order = 1\<rparr>,
     en_max_quote_age_seconds = 900, en_reject_locked_quotes = True, en_fill_size_fraction = 1,
     en_decision_closes = None, en_fill_seq = 0, en_executed_orders = {}, en_orders = (\<lambda>_. None),
     en_filled_qty = (\<lambda>_. 0), en_vwap_consumed = (\<lambda>_. 0)\<rparr>"

definition sample_call :: fill_call where
  "sample_call = \<lparr>fc_order = sample_order, fc_quotes = [TwoSided sample_quote],
     fc_contract = sample_contract, fc_session = 104,
     fc_at = session_open_instant (\<lambda>_. - 18000) 104 + 120000000, fc_fraction = 5 / 10,
     fc_stress = zero_stress, fc_partial = False\<rparr>"

definition sample_bar_call :: fill_call where
  "sample_bar_call = sample_call\<lparr>fc_quotes := [Vwap sample_bar_quote], fc_fraction := 0,
     fc_partial := True\<rparr>"

lemma sample_engine_made: "make_engine sample_calendar
    (order_fees \<lparr>fee_per_contract = 65 / 100, minimum_per_order = 1\<rparr>) 900 True 1 None = Inr sample_engine"
  by (simp add: make_engine_def sample_engine_def)

definition minted :: "engine \<Rightarrow> fill_call \<Rightarrow> fill option" where
  "minted en k = (case execute en k of (_, Inr fl) \<Rightarrow> Some fl | _ \<Rightarrow> None)"

lemma mintedI: "minted en k = Some fl \<Longrightarrow> execute en k = (fst (execute en k), Inr fl)"
  by (auto simp: minted_def split: prod.splits sum.splits)

text \<open>Claim C18. Next-session execution (INV-10): a minted fill executes strictly after its order's
  decision at both levels, the instant and the session; the decision was stamped at the close of its
  session, as the engine's map of verified closes or else its calendar has it; the instant is the
  latency-shifted one and lies inside the execution session; and the contract is a standard one,
  listed at decision and at execution and not expired.\<close>

theorem fill_after_decision:
  assumes "execute en k = (en', Inr fl)" and "calendar_ok (en_calendar en)" and "r = fc_order k"
  shows "fl_execution_session fl = fc_session k
    \<and> fl_execution_at fl = fc_at k + latency_seconds (fc_stress k) * second
    \<and> or_decision_session r < fl_execution_session fl \<and> or_decision_at r < fl_execution_at fl
    \<and> (case en_decision_closes en of
         None \<Rightarrow> session_close (en_calendar en) (or_decision_session r) = Inr (or_decision_at r)
       | Some m \<Rightarrow> m (or_decision_session r) = Some (or_decision_at r))
    \<and> contains_instant (en_calendar en) (fl_execution_session fl) (fl_execution_at fl) = Inr True
    \<and> oc_contract_id (fc_contract k) = fl_contract_id fl \<and> or_contract_id r = fl_contract_id fl
    \<and> oc_standard_contract_flag (fc_contract k)
    \<and> exists_on (fc_contract k) (or_decision_session r)
    \<and> exists_on (fc_contract k) (fl_execution_session fl)
    \<and> fl_execution_session fl \<le> oc_expiration (fc_contract k)"
proof -
  obtain q where q: "mint_plan en k = Inr (q, fl)" using assms(1) by (rule execute_Inr)
  obtain n m where g:
    "contract_gate (en_calendar en) r (fc_quotes k) (fc_contract k) (fc_session k) = Inr ()"
    "timing_gate en r (fc_session k) (effective_at k) = Inr m"
    "mint_fill en r (fc_contract k) (fc_session k) (effective_at k) (fc_fraction k) (fc_stress k) n q
       = Inr fl"
    using q assms(3) by (auto elim: mint_plan_Inr)
  note t = g(2) [unfolded timing_gate_Inr decision_close_Inr]
  then obtain d where "ordinal (en_calendar en) (or_decision_session r) = Inr d" "d < m" by blast
  then have "or_decision_session r < fc_session k"
    using t static_cal.ordinal_strict_mono [OF assms(2)] by blast
  then show ?thesis using t mint_fill_Inr [OF g(3)] g(1)
    by (auto simp: contract_gate_Inr effective_at_def shift_instant_def expired_on_def)
qed

theorem fill_after_decision_witness:
  "\<exists>fl. minted sample_engine sample_call = Some fl \<and> fl_quantity fl = 3 \<and> 103 < fl_execution_session fl"
proof -
  have q: "map_option fl_quantity (minted sample_engine sample_call) = Some 3" by code_simp
  then obtain fl where m: "minted sample_engine sample_call = Some fl" by auto
  have "calendar_ok (en_calendar sample_engine)"
    using sample_calendar_ok by (simp add: sample_engine_def)
  note fill_after_decision [OF mintedI [OF m] this refl]
  moreover have "or_decision_session (fc_order sample_call) = 103" by code_simp
  ultimately show ?thesis using q m by simp
qed

text \<open>Claim C22. The price of a fill (INV-11). The engine itself picks the latest quote visible at the
  shifted instant. Against a two-sided quote a purchase pays at most the ask plus the slippage and
  never less than the point the midpoint fraction allows, a sale gets at least the bid minus the
  slippage and never more; against a bar the price is the VWAP rounded against the taker and then
  slipped, and the bar is of the session just before. A limit is never crossed.\<close>

theorem fill_price_bounds:
  assumes "execute en k = (en', Inr fl)" and "st = fc_stress k"
  shows "\<exists>q \<in> set (fc_quotes k). q_received q \<le> fl_execution_at fl
    \<and> (\<forall>x \<in> set (fc_quotes k). q_received x \<le> fl_execution_at fl \<longrightarrow> q_key x \<le> q_key q)
    \<and> (case q of
         TwoSided t \<Rightarrow>
           fl_execution_at fl - qe_received_timestamp t \<le> en_max_quote_age_seconds en * second
           \<and> 0 < qe_bid t \<and> qe_bid t \<le> qe_ask t
           \<and> (if fl_side fl = Buy
              then fl_price fl \<le> qe_ask t + of_int (slippage_ticks_buy st) / 100
                 \<and> qe_ask t - fc_fraction k * ((qe_ask t - qe_bid t) / 2)
                     + of_int (slippage_ticks_buy st) / 100 \<le> fl_price fl
              else qe_bid t - of_int (slippage_ticks_sell st) / 100 \<le> fl_price fl
                 \<and> fl_price fl \<le> qe_bid t + fc_fraction k * ((qe_ask t - qe_bid t) / 2)
                     - of_int (slippage_ticks_sell st) / 100)
       | Vwap v \<Rightarrow>
           fc_fraction k = 0 \<and> fl_price fl = slipped st (fl_side fl) (conservative_tick (vw_vwap v) (fl_side fl))
           \<and> (\<exists>i. ordinal (en_calendar en) (vw_session v) = Inr i
                \<and> ordinal (en_calendar en) (fl_execution_session fl) = Inr (i + 1)))
    \<and> (\<forall>l. or_order_type (fc_order k) = Limit \<and> or_limit_price (fc_order k) = Some l \<longrightarrow>
         (if fl_side fl = Buy then fl_price fl \<le> l else l \<le> fl_price fl))"
proof -
  obtain q where "mint_plan en k = Inr (q, fl)" using assms(1) by (rule execute_Inr)
  then obtain n m where
    time: "timing_gate en (fc_order k) (fc_session k) (effective_at k) = Inr m" and
    tr: "tradable_gate en (fc_quotes k) (effective_at k) m = Inr q" and
    mint: "mint_fill en (fc_order k) (fc_contract k) (fc_session k) (effective_at k) (fc_fraction k)
       (fc_stress k) n q = Inr fl"
    by (rule mint_plan_Inr)
  have sel: "select_quote (fc_quotes k) (effective_at k) = Inr q" using tr by (simp add: tradable_gate_Inr)
  note mf = mint_fill_Inr [OF mint]
  then obtain p where p: "executable_price q (or_side (fc_order k)) (fc_fraction k) st = Inr p"
      "limit_gate (fc_order k) p = Inr ()" "fl_price fl = quantize p"
    using assms(2) by blast
  have limit: "\<forall>l. or_order_type (fc_order k) = Limit \<and> or_limit_price (fc_order k) = Some l \<longrightarrow>
         (if fl_side fl = Buy then p \<le> l else l \<le> p)"
    using p(2) mf by (cases "or_side (fc_order k)") (auto simp: limit_gate_Inr)
  have head: "q \<in> set (fc_quotes k)" "q_received q \<le> fl_execution_at fl"
      "\<forall>x \<in> set (fc_quotes k). q_received x \<le> fl_execution_at fl \<longrightarrow> q_key x \<le> q_key q"
    using select_quote_latest [OF sel] mf by auto
  show ?thesis
  proof (cases q)
    case (TwoSided t)
    then have ok: "as_tradable t (effective_at k) (en_max_quote_age_seconds en) (en_reject_locked_quotes en) = Inr t"
      using tr by (simp add: tradable_gate_Inr)
    note a = this [unfolded as_tradable_Inr tradable_quote_ok_def]
    note ex = executable_price_two_sided [of t, OF p(1) [unfolded TwoSided]]
    have "fl_price fl = p" using a ex p(3) by (simp add: quantize_id)
    then show ?thesis using head limit a ex mf TwoSided
      by (intro bexI [of _ q]) (cases "or_side (fc_order k)"; simp)+
  next
    case (Vwap v)
    note ex = executable_price_vwap [OF p(1) [unfolded Vwap]]
    have "fl_price fl = p" using ex p(3) by (simp add: quantize_id)
    then show ?thesis using head limit tr time ex mf Vwap
      by (intro bexI [of _ q]) (auto simp: tradable_gate_Inr timing_gate_Inr)
  qed
qed

theorem fill_price_bounds_witness:
  "\<exists>fl. minted sample_engine sample_call = Some fl \<and> 240 / 100 < fl_price fl \<and> fl_price fl \<le> 251 / 100"
proof -
  have q: "map_option (\<lambda>fl. (fl_side fl, fl_price fl)) (minted sample_engine sample_call)
      = Some (Buy, 249 / 100)" by code_simp
  then obtain fl where m: "minted sample_engine sample_call = Some fl" "fl_side fl = Buy"
      "fl_price fl = 249 / 100" by auto
  have qs: "fc_quotes sample_call = [TwoSided sample_quote]" "fc_stress sample_call = zero_stress"
      "slippage_ticks_buy zero_stress = 0" "qe_ask sample_quote = 251 / 100"
    by code_simp+
  show ?thesis using fill_price_bounds [OF mintedI [OF m(1)] refl] m by (auto simp: qs)
qed

text \<open>Claim C9. Cumulative quantity: over any session of calls on a fresh engine, partial sequences
  included, the fills minted under an order id never exceed the order's quantity, and all of them
  were minted for one and the same order.\<close>

theorem fills_within_order:
  assumes "make_engine cal fees age lock fsf closes = Inr en" and "run_calls en ks = (en', tr)"
    and "(k, fl) \<in> set tr"
  shows "sum_list (map (fl_quantity \<circ> snd) (filter (\<lambda>x. fl_order_id (snd x) = fl_order_id fl) tr))
      \<le> or_quantity (fc_order k)
    \<and> (\<forall>x \<in> set tr. fl_order_id (snd x) = fl_order_id fl \<longrightarrow> fc_order (fst x) = fc_order k)"
proof -
  note inv = run_calls_inv [OF assms(1,2), unfolded engine_inv_def]
  then have k: "en_orders en' (fl_order_id fl) = Some (fc_order k)" using assms(3) by fastforce
  then have "filled_in tr (fl_order_id fl) \<le> or_quantity (fc_order k)" using inv by metis
  moreover have "fc_order (fst x) = fc_order k"
    if "x \<in> set tr" "fl_order_id (snd x) = fl_order_id fl" for x
    using inv that k by (metis option.inject)
  ultimately show ?thesis by (simp add: filled_in_def)
qed

definition sample_trace :: "(fill_call \<times> fill) list" where
  "sample_trace = snd (run_calls sample_engine [sample_call, sample_bar_call, sample_bar_call])"

theorem fills_within_order_witness:
  "map (fl_quantity \<circ> snd) sample_trace = [3, 2]
   \<and> sum_list (map (fl_quantity \<circ> snd)
       (filter (\<lambda>x. fl_order_id (snd x) = fl_order_id (snd (hd sample_trace))) sample_trace)) \<le> 5"
proof
  show q: "map (fl_quantity \<circ> snd) sample_trace = [3, 2]" by code_simp
  obtain en' where r: "run_calls sample_engine [sample_call, sample_bar_call, sample_bar_call] = (en', sample_trace)"
    by (cases "run_calls sample_engine [sample_call, sample_bar_call, sample_bar_call]")
       (simp add: sample_trace_def)
  obtain x xs where x: "sample_trace = x # xs" using q by (cases sample_trace) auto
  have "map (or_quantity \<circ> fc_order \<circ> fst) sample_trace = [5, 5]" by code_simp
  then have five: "or_quantity (fc_order (fst x)) = 5" by (simp add: x)
  have hd: "hd sample_trace = x" "(fst x, snd x) \<in> set sample_trace" by (simp_all add: x)
  show "sum_list (map (fl_quantity \<circ> snd)
       (filter (\<lambda>x. fl_order_id (snd x) = fl_order_id (snd (hd sample_trace))) sample_trace)) \<le> 5"
    unfolding hd(1) using fills_within_order [OF sample_engine_made r hd(2), THEN conjunct1]
    unfolding five .
qed

text \<open>Claim C25. The participation cap is global to the engine: over any session of calls on a fresh
  engine, whatever orders they carry, the quantity minted against the bars of one contract and
  session is at most the configured fraction of the volume those bars report.\<close>

theorem participation_capped:
  assumes "make_engine cal fees age lock fsf closes = Inr en" and "run_calls en ks = (en', tr)"
    and "0 \<le> vol"
    and "\<forall>k \<in> set ks. \<forall>v. Vwap v \<in> set (fc_quotes k) \<and> (vw_contract_id v, vw_session v) = (c, d)
           \<longrightarrow> vw_volume v \<le> vol"
  shows "sum_list (map (fl_quantity \<circ> snd) (filter (\<lambda>x. fill_bar x = Some (c, d)) tr))
     \<le> \<lfloor>fsf * of_int vol\<rfloor>"
proof -
  have e: "en_fill_size_fraction en = fsf" "en_vwap_consumed en (c, d) = 0" "0 < fsf"
    using assms(1) unfolding make_engine_def raise_simps by auto
  have "\<lfloor>fsf * of_int v\<rfloor> \<le> \<lfloor>fsf * of_int vol\<rfloor>" if "v \<le> vol" for v
    using that e(3) by (intro floor_mono mult_left_mono) simp_all
  then have "en_vwap_consumed en' (c, d) \<le> \<lfloor>fsf * of_int vol\<rfloor>"
    using assms(3,4) e by (intro run_consumes [OF assms(2)]) auto
  moreover have "en_vwap_consumed en' (c, d) = consumed_in tr (c, d)"
    using run_calls_inv [OF assms(1,2)] unfolding engine_inv_def by blast
  ultimately show ?thesis by (simp add: consumed_in_def)
qed

theorem participation_capped_witness:
  "sum_list (map (fl_quantity \<circ> snd) (filter (\<lambda>x. fill_bar x = Some (''SPY-C-100'', 103)) sample_trace))
     \<le> 4"
proof -
  obtain en' where r: "run_calls sample_engine [sample_call, sample_bar_call, sample_bar_call] = (en', sample_trace)"
    by (cases "run_calls sample_engine [sample_call, sample_bar_call, sample_bar_call]")
       (simp add: sample_trace_def)
  have "vw_volume sample_bar_quote = 4" by code_simp
  then have "\<forall>k \<in> set [sample_call, sample_bar_call, sample_bar_call]. \<forall>v. Vwap v \<in> set (fc_quotes k)
      \<and> (vw_contract_id v, vw_session v) = (''SPY-C-100'', 103) \<longrightarrow> vw_volume v \<le> 4"
    by (simp add: sample_bar_call_def sample_call_def)
  from participation_capped [OF sample_engine_made r _ this] show ?thesis by simp
qed

text \<open>Claim C31. Fill ids: the ids of all the fills a fresh engine mints are pairwise distinct, whatever
  the order ids are (an order id may itself look like a fill id), so the ledger's duplicate check
  never refuses a fill of the engine.\<close>

theorem fill_ids_distinct:
  assumes "make_engine cal fees age lock fsf closes = Inr en" and "run_calls en ks = (en', tr)"
  shows "distinct (map (fl_fill_id \<circ> snd) tr)"
  using assms by (rule run_calls_ids)

theorem fill_ids_distinct_witness:
  "distinct (map (fl_fill_id \<circ> snd) sample_trace) \<and> length sample_trace = 2"
proof
  obtain en' where r: "run_calls sample_engine [sample_call, sample_bar_call, sample_bar_call] = (en', sample_trace)"
    by (cases "run_calls sample_engine [sample_call, sample_bar_call, sample_bar_call]")
       (simp add: sample_trace_def)
  show "distinct (map (fl_fill_id \<circ> snd) sample_trace)"
    by (rule fill_ids_distinct [OF sample_engine_made r])
  show "length sample_trace = 2" by code_simp
qed

lemma mint_plan_stress_mono:
  assumes "mint_plan en (k\<lparr>fc_stress := s\<rparr>) = Inr (q, fl)" and "mint_plan en (k\<lparr>fc_stress := t\<rparr>) = Inr (q, fl')"
    and "stress_le s t" and "\<And>n x. en_order_fees en n = Inr x \<Longrightarrow> on_cents x"
  shows "fl_quantity fl' = fl_quantity fl
    \<and> (if fl_side fl = Buy then fl_price fl \<le> fl_price fl' else fl_price fl' \<le> fl_price fl)
    \<and> fl_fees fl \<le> fl_fees fl'
    \<and> signed_cash fl' - fl_fees fl' \<le> signed_cash fl - fl_fees fl"
proof -
  obtain p where p: "executable_price q (fl_side fl) (fc_fraction k) s = Inr p" "fl_price fl = quantize p"
      "fill_fees en s (fl_quantity fl) = Inr (fl_fees fl)" "fl_side fl = or_side (fc_order k)"
      "fl_multiplier fl = oc_multiplier (fc_contract k)"
    using assms(1) by (rule minted_terms) simp
  obtain p' where p': "executable_price q (fl_side fl') (fc_fraction k) t = Inr p'" "fl_price fl' = quantize p'"
      "fill_fees en t (fl_quantity fl') = Inr (fl_fees fl')" "fl_side fl' = or_side (fc_order k)"
      "fl_multiplier fl' = oc_multiplier (fc_contract k)"
    using assms(2) by (rule minted_terms) simp
  have n: "fl_quantity fl' = fl_quantity fl"
    using minted_fill(5) [OF assms(1)] minted_fill(5) [OF assms(2)] by simp
  have side: "fl_side fl' = fl_side fl" "fl_multiplier fl' = fl_multiplier fl" using p p' by simp_all
  have price: "if fl_side fl = Buy then fl_price fl \<le> fl_price fl' else fl_price fl' \<le> fl_price fl"
    using executable_price_mono [OF assms(3) p(1) p'(1) [unfolded side]] quantize_mono p(2) p'(2) by metis
  have ok: "fill_ok fl" "fill_ok fl'" using minted_fill(3) [OF assms(1)] minted_fill(3) [OF assms(2)] .
  have "0 \<le> fl_quantity fl" using ok(1) by (simp add: fill_ok_def)
  with ok(1) have fees: "fl_fees fl \<le> fl_fees fl'"
    using p(3) p'(3) [unfolded n] assms(4) by (intro fill_fees_mono [OF assms(3)]) blast+
  have "x * of_int (fl_quantity fl) * of_int (fl_multiplier fl)
      \<le> y * of_int (fl_quantity fl) * of_int (fl_multiplier fl)" if "x \<le> y" for x y :: rat
    using that ok by (intro mult_right_mono) (simp_all add: fill_ok_def)
  then have "if fl_side fl = Buy then notional fl \<le> notional fl' else notional fl' \<le> notional fl"
    using price n side(2) by (auto simp: notional_def intro: quantize_mono)
  then show ?thesis using n price fees side signed_cash_notional [OF ok(1)] signed_cash_notional [OF ok(2)]
    by (cases "fl_side fl") auto
qed

text \<open>Claim C28. What stress can do to a fill. If one scenario is at least as adverse as another in every
  component, latency included, and the same call fills under both, then the harsher one executes no
  earlier and never reaches back for a quote received earlier. If no quote is received between the two
  instants, it fills against the same quote; and against the same quote the price is no better, the
  quantity is the same, the fees are no lower, and so the cash is no higher. Against a quote that arrived
  during the added latency nothing is promised: \<open>latency_may_improve\<close> below is a cheaper fill.\<close>

theorem stress_only_worsens:
  assumes "execute en (k\<lparr>fc_stress := s\<rparr>) = (en1, Inr fl)"
    and "execute en (k\<lparr>fc_stress := t\<rparr>) = (en2, Inr fl')"
    and "stress_le s t" and "\<And>n x. en_order_fees en n = Inr x \<Longrightarrow> on_cents x"
  shows "\<exists>q q'. select_quote (fc_quotes k) (fl_execution_at fl) = Inr q
    \<and> select_quote (fc_quotes k) (fl_execution_at fl') = Inr q'
    \<and> fl_execution_at fl \<le> fl_execution_at fl' \<and> q_received q \<le> q_received q'
    \<and> ((\<forall>x \<in> set (fc_quotes k). q_received x \<notin> {fl_execution_at fl<..fl_execution_at fl'}) \<longrightarrow> q' = q)
    \<and> (q' = q \<longrightarrow> fl_quantity fl' = fl_quantity fl
        \<and> (if fl_side fl = Buy then fl_price fl \<le> fl_price fl' else fl_price fl' \<le> fl_price fl)
        \<and> fl_fees fl \<le> fl_fees fl'
        \<and> signed_cash fl' - fl_fees fl' \<le> signed_cash fl - fl_fees fl)"
proof -
  obtain q where q: "mint_plan en (k\<lparr>fc_stress := s\<rparr>) = Inr (q, fl)" using assms(1) by (rule execute_Inr)
  obtain q' where q': "mint_plan en (k\<lparr>fc_stress := t\<rparr>) = Inr (q', fl')" using assms(2) by (rule execute_Inr)
  note f = minted_fill(2,4) [OF q] and f' = minted_fill(2,4) [OF q']
  have sel: "select_quote (fc_quotes k) (fl_execution_at fl) = Inr q"
      "select_quote (fc_quotes k) (fl_execution_at fl') = Inr q'" using f f' by simp_all
  have at: "fl_execution_at fl \<le> fl_execution_at fl'"
    using f(1) f'(1) assms(3) by (simp add: effective_at_def shift_instant_def stress_le_def mult_right_mono second_def)
  have "q_key q \<le> q_key q'"
    using select_quote_latest(1,2) [OF sel(1)] at by (intro select_quote_latest(3) [OF sel(2)]) auto
  then have rec: "q_received q \<le> q_received q'" by (auto simp: q_key_def)
  have same: "q' = q" if "\<forall>x \<in> set (fc_quotes k). q_received x \<notin> {fl_execution_at fl<..fl_execution_at fl'}"
    using select_quote_later [OF at that] sel by simp
  have worse: "fl_quantity fl' = fl_quantity fl
      \<and> (if fl_side fl = Buy then fl_price fl \<le> fl_price fl' else fl_price fl' \<le> fl_price fl)
      \<and> fl_fees fl \<le> fl_fees fl' \<and> signed_cash fl' - fl_fees fl' \<le> signed_cash fl - fl_fees fl"
    if "q' = q" by (rule mint_plan_stress_mono [OF q q' [unfolded that] assms(3,4)])
  show ?thesis by (intro exI conjI) (rule sel at rec impI [OF same] impI [OF worse]; assumption?)+
qed

definition harsh_stress :: execution_stress where
  "harsh_stress = \<lparr>slippage_ticks_buy = 2, slippage_ticks_sell = 2, extra_fee_per_contract = 10 / 100,
     latency_seconds = 30\<rparr>"

theorem stress_only_worsens_witness:
  "\<exists>fl fl'. minted sample_engine (sample_call\<lparr>fc_stress := zero_stress\<rparr>) = Some fl
     \<and> minted sample_engine (sample_call\<lparr>fc_stress := harsh_stress\<rparr>) = Some fl'
     \<and> fl_price fl = 249 / 100 \<and> fl_price fl \<le> fl_price fl' \<and> fl_fees fl \<le> fl_fees fl'"
proof -
  have "map_option (\<lambda>fl. (fl_side fl, fl_price fl)) (minted sample_engine (sample_call\<lparr>fc_stress := zero_stress\<rparr>))
      = Some (Buy, 249 / 100)" by code_simp
  moreover have "map_option fl_price (minted sample_engine (sample_call\<lparr>fc_stress := harsh_stress\<rparr>))
      = Some (251 / 100)" by code_simp
  ultimately obtain fl fl' where m: "minted sample_engine (sample_call\<lparr>fc_stress := zero_stress\<rparr>) = Some fl"
      "minted sample_engine (sample_call\<lparr>fc_stress := harsh_stress\<rparr>) = Some fl'"
      "fl_side fl = Buy" "fl_price fl = 249 / 100" by auto
  have le: "stress_le zero_stress harsh_stress" by code_simp
  have fees: "on_cents x" if "en_order_fees sample_engine n = Inr x" for n x
    using that per_contract.fees_cents by (simp add: sample_engine_def)
  have one: "fc_quotes sample_call = [TwoSided sample_quote]" by (simp add: sample_call_def)
  obtain q q' where sel: "select_quote (fc_quotes sample_call) (fl_execution_at fl) = Inr q"
      "select_quote (fc_quotes sample_call) (fl_execution_at fl') = Inr q'"
    and worse: "q' = q \<longrightarrow> fl_quantity fl' = fl_quantity fl
      \<and> (if fl_side fl = Buy then fl_price fl \<le> fl_price fl' else fl_price fl' \<le> fl_price fl)
      \<and> fl_fees fl \<le> fl_fees fl' \<and> signed_cash fl' - fl_fees fl' \<le> signed_cash fl - fl_fees fl"
    using stress_only_worsens [OF mintedI [OF m(1)] mintedI [OF m(2)] le] fees by blast
  have "q' = q" using select_quote_latest(1) [OF sel(1)] select_quote_latest(1) [OF sel(2)] one by simp
  then show ?thesis using worse m by auto
qed

text \<open>Latency alone can make a fill cheaper: here a lower ask arrives within thirty seconds of the call.\<close>

definition lower_quote :: quote_event where
  "lower_quote = sample_quote\<lparr>qe_exchange_timestamp := qe_exchange_timestamp sample_quote + 70000000,
     qe_received_timestamp := qe_received_timestamp sample_quote + 70000000, qe_ask := 245 / 100\<rparr>"

definition late_call :: "int \<Rightarrow> fill_call" where
  "late_call latency = sample_call\<lparr>fc_quotes := [TwoSided sample_quote, TwoSided lower_quote],
     fc_stress := zero_stress\<lparr>latency_seconds := latency\<rparr>\<rparr>"

lemma latency_may_improve:
  "stress_le (fc_stress (late_call 0)) (fc_stress (late_call 30))
   \<and> map_option fl_price (minted sample_engine (late_call 0)) = Some (249 / 100)
   \<and> map_option fl_price (minted sample_engine (late_call 30)) = Some (244 / 100)"
proof (intro conjI)
  show "stress_le (fc_stress (late_call 0)) (fc_stress (late_call 30))" by code_simp
  show "map_option fl_price (minted sample_engine (late_call 0)) = Some (249 / 100)" by code_simp
  show "map_option fl_price (minted sample_engine (late_call 30)) = Some (244 / 100)" by code_simp
qed

end
