(* ===== verification/Securities.thy ===== *)
theory Securities
  imports Calendar
begin

text \<open>
  The security master of \<open>schemas/security.py\<close> and the ticker resolver of \<open>data/resolve.py\<close>
  (INV-08): dated ticker and sector mappings, delistings, and what of them a decision at a given
  instant may know. The optional keyword \<open>as_of\<close> is \<open>None\<close> for the settled-history view. What a
  decision may know is stated by \<open>redact\<close>: the record with everything not yet public erased.
\<close>

subsection \<open>Records\<close>

record ticker_mapping =
  tm_security_id :: ident
  tm_ticker :: ident
  tm_effective_from :: date
  tm_effective_to :: "date option"
  tm_available_at :: instant

record delisting_record =
  dl_delisting_session :: date
  dl_reason :: ident
  dl_final_price_available :: bool
  dl_available_at :: instant

record sector_mapping =
  sm_security_id :: ident
  sm_sector :: ident
  sm_effective_from :: date
  sm_available_at :: instant

record security_master =
  ms_security_id :: ident
  ms_figi :: "ident option"
  ms_cik :: "ident option"
  ms_security_type :: ident
  ms_listing_start :: date
  ms_listing_end :: "date option"
  ms_exchange :: ident
  ms_corporate_action_id :: "ident option"
  ms_source :: ident
  ms_available_at :: instant
  ms_ticker_mappings :: "ticker_mapping list"
  ms_sector_mappings :: "sector_mapping list"
  ms_delisting :: "delisting_record option"

datatype master_error =
    MappingOrder | NoTickerMapping | TickerMappingSecurity | SectorMappingSecurity
  | SectorStartsRepeat | DuplicateTicker | OverlappingWindows | MasterListingOrder
  | DelistingWithoutEnd | RecordNotKnowable | NoMappingCovers

definition ticker_mapping_ok :: "ticker_mapping \<Rightarrow> bool" where
  "ticker_mapping_ok m \<longleftrightarrow> (case tm_effective_to m of None \<Rightarrow> True | Some e \<Rightarrow> tm_effective_from m \<le> e)"

text \<open>Adjacent windows in order of their start: the earlier one ends strictly before the next.\<close>

fun windows_chain :: "ticker_mapping list \<Rightarrow> bool" where
  "windows_chain (a # b # ms) \<longleftrightarrow>
     (case tm_effective_to a of None \<Rightarrow> False | Some e \<Rightarrow> e < tm_effective_from b)
     \<and> windows_chain (b # ms)"
| "windows_chain _ \<longleftrightarrow> True"

definition make_master :: "security_master \<Rightarrow> master_error + security_master" where
  "make_master r =
     (if list_ex (\<lambda>m. \<not> ticker_mapping_ok m) (ms_ticker_mappings r) then Inl MappingOrder
      else if ms_ticker_mappings r = [] then Inl NoTickerMapping
      else if list_ex (\<lambda>m. tm_security_id m \<noteq> ms_security_id r) (ms_ticker_mappings r)
      then Inl TickerMappingSecurity
      else if list_ex (\<lambda>m. sm_security_id m \<noteq> ms_security_id r) (ms_sector_mappings r)
      then Inl SectorMappingSecurity
      else if \<not> distinct (map sm_effective_from (ms_sector_mappings r)) then Inl SectorStartsRepeat
      else if \<not> distinct (map tm_ticker (ms_ticker_mappings r)) then Inl DuplicateTicker
      else if \<not> windows_chain (sort_key tm_effective_from (ms_ticker_mappings r))
      then Inl OverlappingWindows
      else if (case ms_listing_end r of None \<Rightarrow> False | Some e \<Rightarrow> e < ms_listing_start r)
      then Inl MasterListingOrder
      else if (case ms_delisting r of None \<Rightarrow> False
               | Some d \<Rightarrow> ms_listing_end r \<noteq> Some (dl_delisting_session d))
      then Inl DelistingWithoutEnd
      else Inr r)"

subsection \<open>Point-in-time lookups\<close>

definition instant_date :: "instant \<Rightarrow> date" where
  "instant_date ts = ts div (86400 * second)"

definition known_by :: "instant \<Rightarrow> instant option \<Rightarrow> bool" where
  "known_by available as_of = (case as_of of None \<Rightarrow> True | Some t \<Rightarrow> available \<le> t)"

definition record_visible :: "security_master \<Rightarrow> instant option \<Rightarrow> bool" where
  "record_visible r as_of = known_by (ms_available_at r) as_of"

definition covers :: "ticker_mapping \<Rightarrow> date \<Rightarrow> bool" where
  "covers m d \<longleftrightarrow> tm_effective_from m \<le> d
     \<and> (case tm_effective_to m of None \<Rightarrow> True | Some e \<Rightarrow> d \<le> e)"

fun ticker_walk :: "ticker_mapping list \<Rightarrow> date \<Rightarrow> instant option \<Rightarrow> master_error + ident" where
  "ticker_walk [] d as_of = Inl NoMappingCovers"
| "ticker_walk (m # ms) d as_of =
     (if \<not> known_by (tm_available_at m) as_of then ticker_walk ms d as_of
      else if covers m d then Inr (tm_ticker m) else ticker_walk ms d as_of)"

definition ticker_on :: "security_master \<Rightarrow> date \<Rightarrow> instant option \<Rightarrow> master_error + ident" where
  "ticker_on r d as_of =
     (if \<not> record_visible r as_of then Inl RecordNotKnowable
      else ticker_walk (ms_ticker_mappings r) d as_of)"

fun sector_walk ::
  "sector_mapping list \<Rightarrow> date \<Rightarrow> instant option \<Rightarrow> sector_mapping option \<Rightarrow> sector_mapping option"
where
  "sector_walk [] d as_of best = best"
| "sector_walk (m # ms) d as_of best =
     (if \<not> known_by (sm_available_at m) as_of then sector_walk ms d as_of best
      else if sm_effective_from m \<le> d
         \<and> (case best of None \<Rightarrow> True | Some b \<Rightarrow> sm_effective_from b < sm_effective_from m)
      then sector_walk ms d as_of (Some m) else sector_walk ms d as_of best)"

definition sector_on ::
  "security_master \<Rightarrow> date \<Rightarrow> instant option \<Rightarrow> master_error + ident option" where
  "sector_on r d as_of =
     (if \<not> record_visible r as_of then Inl RecordNotKnowable
      else Inr (map_option sm_sector (sector_walk (ms_sector_mappings r) d as_of None)))"

definition listed_on :: "security_master \<Rightarrow> date \<Rightarrow> instant option \<Rightarrow> bool" where
  "listed_on r d as_of =
     (if \<not> record_visible r as_of then False
      else if d < ms_listing_start r then False
      else let effective_end = (case as_of of
                 None \<Rightarrow> ms_listing_end r
               | Some t \<Rightarrow>
                   let end_known =
                        (case ms_delisting r of None \<Rightarrow> False | Some x \<Rightarrow> dl_available_at x \<le> t)
                        \<or> (case ms_listing_end r of None \<Rightarrow> False | Some e \<Rightarrow> instant_date t > e)
                   in if end_known then ms_listing_end r else None)
           in case effective_end of None \<Rightarrow> True | Some e \<Rightarrow> d \<le> e)"

subsection \<open>The ticker resolver\<close>

text \<open>The index of the resolver, keyed by ticker, in the order of records and their mappings.\<close>

definition resolver_index :: "security_master list \<Rightarrow> ident \<Rightarrow> (instant \<times> ticker_mapping) list" where
  "resolver_index records symbol =
     filter (\<lambda>(_, m). tm_ticker m = symbol)
       (concat (map (\<lambda>r. map (\<lambda>m. (ms_available_at r, m)) (ms_ticker_mappings r)) records))"

datatype resolve_error = UnknownTickerError | AmbiguousTickerError

definition resolve ::
  "security_master list \<Rightarrow> ident \<Rightarrow> date \<Rightarrow> instant \<Rightarrow> resolve_error + ident" where
  "resolve records symbol on as_of =
     (let candidates = map snd (filter (\<lambda>(record_available, m).
              record_available \<le> as_of \<and> covers m on \<and> tm_available_at m \<le> as_of)
            (resolver_index records symbol))
      in case candidates of
          [] \<Rightarrow> Inl UnknownTickerError
        | [m] \<Rightarrow> Inr (tm_security_id m)
        | _ \<Rightarrow> Inl AmbiguousTickerError)"

subsection \<open>What is knowable\<close>

text \<open>
  The record as a decision at \<open>t\<close> may know it: mappings announced later are gone; a delisting
  announced later is gone, and with it the listing end unless its day has passed.
\<close>

definition redact :: "instant \<Rightarrow> security_master \<Rightarrow> security_master" where
  "redact t r = r\<lparr>
     ms_ticker_mappings := filter (\<lambda>m. tm_available_at m \<le> t) (ms_ticker_mappings r),
     ms_sector_mappings := filter (\<lambda>m. sm_available_at m \<le> t) (ms_sector_mappings r),
     ms_delisting := (case ms_delisting r of
        None \<Rightarrow> None | Some x \<Rightarrow> if dl_available_at x \<le> t then Some x else None),
     ms_listing_end :=
       (if (case ms_delisting r of None \<Rightarrow> False | Some x \<Rightarrow> dl_available_at x \<le> t)
           \<or> (case ms_listing_end r of None \<Rightarrow> False | Some e \<Rightarrow> e < instant_date t)
        then ms_listing_end r else None)\<rparr>"

lemma ticker_walk_redact:
  "ticker_walk (filter (\<lambda>m. tm_available_at m \<le> t) ms) d (Some t) = ticker_walk ms d (Some t)"
  by (induction ms) (auto simp: known_by_def)

lemma sector_walk_redact:
  "sector_walk (filter (\<lambda>m. sm_available_at m \<le> t) ms) d (Some t) b = sector_walk ms d (Some t) b"
  by (induction ms arbitrary: b) (auto simp: known_by_def split: option.splits)

lemma ticker_walk_Inr_iff:
  "ticker_walk ms d as_of = Inr x \<Longrightarrow>
   \<exists>m \<in> set ms. tm_ticker m = x \<and> covers m d \<and> known_by (tm_available_at m) as_of"
  by (induction ms) (auto split: if_splits)

lemma ticker_walk_Inl_iff:
  "ticker_walk ms d as_of = Inl e \<longleftrightarrow>
   e = NoMappingCovers \<and> (\<forall>m \<in> set ms. known_by (tm_available_at m) as_of \<longrightarrow> \<not> covers m d)"
  by (induction ms) auto

text \<open>The sector in force is the one of the latest start among the visible, effective mappings.\<close>

lemma sector_walk_best:
  assumes "sector_walk ms d as_of b = res"
  shows "(case res of None \<Rightarrow> b = None | Some m \<Rightarrow> m \<in> set ms \<union> set_option b)
    \<and> (\<forall>x \<in> {x \<in> set ms. known_by (sm_available_at x) as_of \<and> sm_effective_from x \<le> d} \<union> set_option b.
         \<exists>m. res = Some m \<and> sm_effective_from x \<le> sm_effective_from m)"
  using assms
proof (induction ms arbitrary: b)
  case Nil
  then show ?case by (auto split: option.splits)
next
  case (Cons a ms)
  define b' where "b' = (if known_by (sm_available_at a) as_of \<and> sm_effective_from a \<le> d
      \<and> (case b of None \<Rightarrow> True | Some x \<Rightarrow> sm_effective_from x < sm_effective_from a) then Some a else b)"
  have w: "sector_walk ms d as_of b' = res"
    using Cons.prems unfolding b'_def by (auto split: if_splits)
  note ih = Cons.IH [OF w]
  show ?case
  proof (intro conjI ballI)
    show "case res of None \<Rightarrow> b = None | Some m \<Rightarrow> m \<in> set (a # ms) \<union> set_option b"
      using ih unfolding b'_def by (auto split: option.splits if_splits)
  next
    fix x assume x: "x \<in> {x \<in> set (a # ms). known_by (sm_available_at x) as_of \<and> sm_effective_from x \<le> d}
        \<union> set_option b"
    show "\<exists>m. res = Some m \<and> sm_effective_from x \<le> sm_effective_from m"
    proof (cases "x \<in> set ms \<and> known_by (sm_available_at x) as_of \<and> sm_effective_from x \<le> d \<or> x \<in> set_option b'")
      case True
      then show ?thesis using ih by blast
    next
      case False
      then obtain y where "b' = Some y" "sm_effective_from x \<le> sm_effective_from y"
        using x unfolding b'_def by (auto split: if_splits option.splits)
      then show ?thesis using ih by (auto intro: order_trans)
    qed
  qed
qed

subsection \<open>A valid record has one ticker a day\<close>

definition before_window :: "ticker_mapping \<Rightarrow> ticker_mapping \<Rightarrow> bool" where
  "before_window a b \<longleftrightarrow> (\<exists>e. tm_effective_to a = Some e \<and> e < tm_effective_from b)"

lemma windows_chain_sorted:
  "windows_chain ms \<Longrightarrow> \<forall>m \<in> set ms. ticker_mapping_ok m \<Longrightarrow> sorted_wrt before_window ms"
proof (induction ms rule: windows_chain.induct)
  case (1 a b ms)
  then have ih: "sorted_wrt before_window (b # ms)" by simp
  have ab: "before_window a b" using "1.prems" by (simp add: before_window_def split: option.splits)
  have "before_window a m" if "m \<in> set ms" for m
  proof -
    have "before_window b m" using ih that by simp
    moreover have "ticker_mapping_ok b" using "1.prems" by simp
    ultimately show ?thesis using ab by (auto simp: before_window_def ticker_mapping_ok_def)
  qed
  with ih ab show ?case by auto
qed simp_all

lemma before_window_disjoint: "before_window a b \<Longrightarrow> covers a d \<Longrightarrow> \<not> covers b d"
  by (auto simp: before_window_def covers_def)

lemma one_cover:
  assumes "make_master r = Inr r'" and "a \<in> set (ms_ticker_mappings r)" and "b \<in> set (ms_ticker_mappings r)"
    and "covers a d" and "covers b d"
  shows "a = b"
proof (rule ccontr)
  note g = assms(1) [unfolded make_master_def raise_simps]
  let ?ms = "sort_key tm_effective_from (ms_ticker_mappings r)"
  assume "a \<noteq> b"
  have "sorted_wrt before_window ?ms" using g by (intro windows_chain_sorted) (auto simp: list_ex_iff)
  moreover obtain i j where ij: "i < length ?ms" "j < length ?ms" "?ms ! i = a" "?ms ! j = b"
    using assms(2,3) by (metis in_set_conv_nth set_sort)
  moreover have "i < j \<or> j < i" using \<open>a \<noteq> b\<close> ij by (metis nat_neq_iff)
  ultimately show False using assms(4,5) before_window_disjoint by (metis sorted_wrt_nth_less)
qed

lemma make_master_facts:
  assumes "make_master r = Inr r'"
  shows "r' = r" and "distinct (map tm_ticker (ms_ticker_mappings r))"
    and "m \<in> set (ms_ticker_mappings r) \<Longrightarrow> tm_security_id m = ms_security_id r"
  using assms [unfolded make_master_def raise_simps] by (auto simp: list_ex_iff)

lemma ticker_walk_unique:
  assumes "\<And>a b. a \<in> set ms \<Longrightarrow> b \<in> set ms \<Longrightarrow> covers a d \<Longrightarrow> covers b d \<Longrightarrow> a = b"
  shows "ticker_walk ms d as_of = Inr x \<longleftrightarrow>
    (\<exists>m \<in> set ms. tm_ticker m = x \<and> covers m d \<and> known_by (tm_available_at m) as_of)"
proof (cases "ticker_walk ms d as_of")
  case (Inl e)
  then have "\<forall>m \<in> set ms. known_by (tm_available_at m) as_of \<longrightarrow> \<not> covers m d"
    by (simp add: ticker_walk_Inl_iff)
  with Inl show ?thesis by auto
next
  case (Inr y)
  then show ?thesis using ticker_walk_Inr_iff [OF Inr] assms by auto
qed

text \<open>The resolver's candidates that come from one record.\<close>

definition record_candidates :: "ident \<Rightarrow> date \<Rightarrow> instant \<Rightarrow> security_master \<Rightarrow> ticker_mapping list" where
  "record_candidates symbol on as_of r =
     (if ms_available_at r \<le> as_of
      then filter (\<lambda>m. tm_ticker m = symbol \<and> covers m on \<and> tm_available_at m \<le> as_of) (ms_ticker_mappings r)
      else [])"

lemma candidates_concat:
  "map snd (filter (\<lambda>(a, m). a \<le> as_of \<and> covers m on \<and> tm_available_at m \<le> as_of)
      (resolver_index rs symbol))
    = concat (map (record_candidates symbol on as_of) rs)"
proof -
  have "map snd (filter (\<lambda>(a, m). a \<le> as_of \<and> covers m on \<and> tm_available_at m \<le> as_of)
      (filter (\<lambda>(_, m). tm_ticker m = symbol) (map (\<lambda>m. (t, m)) ms)))
    = (if t \<le> as_of then filter (\<lambda>m. tm_ticker m = symbol \<and> covers m on \<and> tm_available_at m \<le> as_of) ms else [])"
    for t and ms :: "ticker_mapping list"
    by (induction ms) auto
  then show ?thesis
    by (induction rs) (simp_all add: resolver_index_def record_candidates_def)
qed

lemma filter_at_most_one:
  "distinct (map k xs) \<Longrightarrow> x \<in> set xs \<Longrightarrow> P x \<Longrightarrow> filter (\<lambda>y. k y = k x \<and> P y) xs = [x]"
proof (induction xs)
  case (Cons y ys)
  show ?case
  proof (cases "x = y")
    case True
    have "k z \<noteq> k x" if "z \<in> set ys" for z using Cons.prems(1) that True by (auto simp: image_iff)
    then have "filter (\<lambda>z. k z = k x \<and> P z) ys = []" by (simp add: filter_empty_conv)
    then show ?thesis using True Cons.prems(3) by simp
  next
    case False
    then show ?thesis using Cons by force
  qed
qed simp

lemma record_candidates_ids:
  assumes "make_master r = Inr r"
  shows "map tm_security_id (record_candidates s d t r)
    = (if ticker_on r d (Some t) = Inr s then [ms_security_id r] else [])"
proof (cases "ticker_on r d (Some t) = Inr s")
  case True
  then have vis: "ms_available_at r \<le> t" and w: "ticker_walk (ms_ticker_mappings r) d (Some t) = Inr s"
    by (auto simp: ticker_on_def record_visible_def known_by_def split: if_splits)
  from ticker_walk_Inr_iff [OF w] obtain m where m: "m \<in> set (ms_ticker_mappings r)" "tm_ticker m = s"
      "covers m d" "tm_available_at m \<le> t" by (auto simp: known_by_def)
  then have "record_candidates s d t r = [m]"
    using filter_at_most_one [OF make_master_facts(2) [OF assms] m(1), of "\<lambda>m. covers m d \<and> tm_available_at m \<le> t"]
    by (simp add: record_candidates_def vis)
  then show ?thesis using True m make_master_facts(3) [OF assms] by simp
next
  case False
  have "record_candidates s d t r = []"
  proof (rule ccontr)
    assume "record_candidates s d t r \<noteq> []"
    then obtain m where "ms_available_at r \<le> t" "m \<in> set (ms_ticker_mappings r)" "tm_ticker m = s"
        "covers m d" "tm_available_at m \<le> t"
      by (auto simp: record_candidates_def filter_empty_conv split: if_splits)
    then have "ticker_on r d (Some t) = Inr s"
      using ticker_walk_unique [of "ms_ticker_mappings r" d "Some t" s] one_cover [OF assms]
      by (auto simp: ticker_on_def record_visible_def known_by_def)
    with False show False ..
  qed
  with False show ?thesis by simp
qed

subsection \<open>Properties\<close>


text \<open>Claim C38. The resolver is the master read backwards: over validated records, a symbol resolves to
  a security exactly when that security's record is the only one whose ticker on that date, as known
  then, is the symbol; no record is the unknown error and several are the ambiguous one.\<close>

theorem resolve_iff_ticker_on:
  assumes "\<forall>r \<in> set rs. make_master r = Inr r"
    and "hits = filter (\<lambda>r. ticker_on r d (Some t) = Inr s) rs"
  shows "resolve rs s d t = (case hits of [] \<Rightarrow> Inl UnknownTickerError
      | [r] \<Rightarrow> Inr (ms_security_id r) | _ \<Rightarrow> Inl AmbiguousTickerError)"
proof -
  define cs where "cs = concat (map (record_candidates s d t) rs)"
  have ids: "map tm_security_id cs = map ms_security_id hits"
    unfolding assms(2) cs_def using assms(1)
    by (induction rs) (simp_all add: record_candidates_ids map_concat)
  have "resolve rs s d t = (case cs of [] \<Rightarrow> Inl UnknownTickerError
      | [m] \<Rightarrow> Inr (tm_security_id m) | _ \<Rightarrow> Inl AmbiguousTickerError)"
    by (simp add: resolve_def candidates_concat cs_def)
  then show ?thesis using ids by (auto split: list.splits)
qed

definition sample_master :: security_master where
  "sample_master = \<lparr>ms_security_id = ''SEC-1'', ms_figi = None, ms_cik = None,
     ms_security_type = ''common_stock'', ms_listing_start = 50, ms_listing_end = Some 110,
     ms_exchange = ''XNYS'', ms_corporate_action_id = None, ms_source = ''vendor'', ms_available_at = 0,
     ms_ticker_mappings =
       [\<lparr>tm_security_id = ''SEC-1'', tm_ticker = ''NEW'', tm_effective_from = 105, tm_effective_to = None,
         tm_available_at = 100 * 86400000000\<rparr>,
        \<lparr>tm_security_id = ''SEC-1'', tm_ticker = ''OLD'', tm_effective_from = 50, tm_effective_to = Some 104,
         tm_available_at = 0\<rparr>],
     ms_sector_mappings = [], ms_delisting = Some \<lparr>dl_delisting_session = 110, dl_reason = ''merger'',
       dl_final_price_available = True, dl_available_at = 103 * 86400000000\<rparr>\<rparr>"

theorem resolve_iff_ticker_on_witness:
  "resolve [sample_master] ''OLD'' 104 (104 * 86400000000) = Inr ''SEC-1''
   \<and> resolve [sample_master] ''OLD'' 106 (106 * 86400000000) = Inl UnknownTickerError"
proof -
  have ok: "\<forall>r \<in> set [sample_master]. make_master r = Inr r" by code_simp
  have "filter (\<lambda>r. ticker_on r 104 (Some (104 * 86400000000)) = Inr ''OLD'') [sample_master] = [sample_master]"
    "filter (\<lambda>r. ticker_on r 106 (Some (106 * 86400000000)) = Inr ''OLD'') [sample_master] = []"
    "ms_security_id sample_master = ''SEC-1''"
    by code_simp+
  then show ?thesis
    using resolve_iff_ticker_on [OF ok refl, where d = 104 and t = "104 * 86400000000" and s = "''OLD''"]
      resolve_iff_ticker_on [OF ok refl, where d = 106 and t = "106 * 86400000000" and s = "''OLD''"] by simp
qed

end
