(* ===== verification/Availability.thy ===== *)
theory Availability
  imports Calendar
begin

text \<open>
  Feature events, labels and panel rows of \<open>schemas/features.py\<close>, filings of
  \<open>schemas/filings.py\<close>, and the availability gate of \<open>guards/availability.py\<close> (INV-02, INV-03,
  INV-04). A feature's value is a float: \<open>Exact\<close> stands for \<open>float(x)\<close> of an exact decimal,
  \<open>LogOf\<close> for \<open>math.log(float(x))\<close>, and \<open>NotFinite\<close> for an infinity or a NaN; no rounding is
  modelled, and nothing in the gate looks at the value beyond its finiteness.
\<close>

datatype score = Exact decimal | LogOf decimal | NotFinite

record feature_event =
  fe_security_id :: ident
  fe_feature_name :: ident
  fe_value :: score
  fe_observed_at :: instant
  fe_available_at :: instant
  fe_decision_at :: instant
  fe_source :: ident
  fe_source_record_id :: ident
  fe_revision_id :: ident

definition feature_ok :: "feature_event \<Rightarrow> bool" where
  "feature_ok f \<longleftrightarrow> fe_value f \<noteq> NotFinite \<and> fe_observed_at f \<le> fe_available_at f"

record label_event =
  la_security_id :: ident
  la_decision_session :: date
  la_horizon_sessions :: int
  la_label_window :: "date \<times> date"
  la_value :: score
  la_observed_at :: instant
  la_source :: ident
  la_source_record_id :: ident
  la_adjustment_ids :: "ident list"

definition label_ok :: "label_event \<Rightarrow> bool" where
  "label_ok l \<longleftrightarrow> 1 \<le> la_horizon_sessions l \<and> fst (la_label_window l) \<le> snd (la_label_window l)"

record panel_row =
  pr_security_id :: ident
  pr_decision_session :: date
  pr_features :: "feature_event list"
  pr_label :: "label_event option"

definition panel_row_ok :: "panel_row \<Rightarrow> bool" where
  "panel_row_ok r \<longleftrightarrow> list_all (\<lambda>f. fe_security_id f = pr_security_id r) (pr_features r)
     \<and> (case pr_label r of None \<Rightarrow> True
        | Some l \<Rightarrow> la_security_id l = pr_security_id r
            \<and> la_decision_session l = pr_decision_session r)"

datatype form_type = Form10K | Form10Q | Form8K | Form4 | FormS1 | Form13F

record filing_record =
  fr_source_record_id :: ident
  fr_form_type :: form_type
  fr_filer_security_id :: ident
  fr_period_of_report :: "date option"
  fr_event_date :: "date option"
  fr_acceptance_instant :: instant
  fr_source :: ident

datatype availability_code =
    AVAILABLE_AFTER_DECISION | OBSERVED_AFTER_AVAILABLE | SESSION_NOT_IN_CALENDAR

record join_rejection =
  jr_security_id :: ident
  jr_decision_session :: date
  jr_feature_name :: ident
  jr_code :: availability_code

record join_result =
  jo_compliant :: "panel_row list"
  jo_rejections :: "join_rejection list"

subsection \<open>The gate\<close>

definition decision_instant :: "calendar \<Rightarrow> date \<Rightarrow> availability_code + instant" where
  "decision_instant c session =
     (if \<not> is_session c session then Inl SESSION_NOT_IN_CALENDAR
      else case session_close c session of
          Inl _ \<Rightarrow> Inl SESSION_NOT_IN_CALENDAR | Inr t \<Rightarrow> Inr t)"

definition check_feature :: "calendar \<Rightarrow> feature_event \<Rightarrow> date \<Rightarrow> availability_code + unit" where
  "check_feature c ev decision_session =
     (case decision_instant c decision_session of
        Inl e \<Rightarrow> Inl e
      | Inr decision_at \<Rightarrow>
          if fe_decision_at ev \<noteq> decision_at then Inl OBSERVED_AFTER_AVAILABLE
          else if fe_available_at ev \<le> decision_at then Inr ()
          else Inl AVAILABLE_AFTER_DECISION)"

definition check_filing_provenance ::
  "feature_event \<Rightarrow> filing_record \<Rightarrow> availability_code + unit" where
  "check_filing_provenance ev filing =
     (if fe_source_record_id ev \<noteq> fr_source_record_id filing then Inl OBSERVED_AFTER_AVAILABLE
      else if fe_available_at ev < fr_acceptance_instant filing then Inl AVAILABLE_AFTER_DECISION
      else Inr ())"

text \<open>The inner loop over a row's features: the rejections appended so far and \<open>row_ok\<close>.\<close>

fun audit_features ::
  "calendar \<Rightarrow> panel_row \<Rightarrow> feature_event list \<Rightarrow> join_rejection list \<Rightarrow> bool
   \<Rightarrow> join_rejection list \<times> bool" where
  "audit_features c row [] rejections row_ok = (rejections, row_ok)"
| "audit_features c row (f # fs) rejections row_ok =
     (let reject = (\<lambda>code. \<lparr>jr_security_id = pr_security_id row,
                          jr_decision_session = pr_decision_session row,
                          jr_feature_name = fe_feature_name f, jr_code = code\<rparr>)
      in if fe_observed_at f > fe_available_at f
         then audit_features c row fs (rejections @ [reject OBSERVED_AFTER_AVAILABLE]) False
         else case check_feature c f (pr_decision_session row) of
             Inl code \<Rightarrow> audit_features c row fs (rejections @ [reject code]) False
           | Inr _ \<Rightarrow> audit_features c row fs rejections row_ok)"

fun audit_rows ::
  "calendar \<Rightarrow> panel_row list \<Rightarrow> panel_row list \<Rightarrow> join_rejection list \<Rightarrow> join_result" where
  "audit_rows c [] compliant rejections =
     \<lparr>jo_compliant = compliant, jo_rejections = rejections\<rparr>"
| "audit_rows c (row # rows) compliant rejections =
     (case audit_features c row (pr_features row) rejections True of
        (rejections', row_ok) \<Rightarrow>
          audit_rows c rows (if row_ok then compliant @ [row] else compliant) rejections')"

definition audit_panel :: "calendar \<Rightarrow> panel_row list \<Rightarrow> join_result" where
  "audit_panel c rows = audit_rows c rows [] []"

subsection \<open>Lemmas\<close>

text \<open>The verdict on one feature of a row: the code of its rejection, or \<open>None\<close>.\<close>

definition verdict :: "calendar \<Rightarrow> panel_row \<Rightarrow> feature_event \<Rightarrow> availability_code option" where
  "verdict c row f =
     (if fe_observed_at f > fe_available_at f then Some OBSERVED_AFTER_AVAILABLE
      else case check_feature c f (pr_decision_session row) of Inl code \<Rightarrow> Some code | Inr _ \<Rightarrow> None)"

definition row_rejections :: "calendar \<Rightarrow> panel_row \<Rightarrow> join_rejection list" where
  "row_rejections c row = concat (map (\<lambda>f. case verdict c row f of None \<Rightarrow> []
      | Some code \<Rightarrow> [\<lparr>jr_security_id = pr_security_id row,
          jr_decision_session = pr_decision_session row,
          jr_feature_name = fe_feature_name f, jr_code = code\<rparr>]) (pr_features row))"

lemma audit_features_eq:
  "audit_features c row fs rej ok =
     (rej @ concat (map (\<lambda>f. case verdict c row f of None \<Rightarrow> []
        | Some code \<Rightarrow> [\<lparr>jr_security_id = pr_security_id row,
            jr_decision_session = pr_decision_session row,
            jr_feature_name = fe_feature_name f, jr_code = code\<rparr>]) fs),
      ok \<and> list_all (\<lambda>f. verdict c row f = None) fs)"
  by (induction fs arbitrary: rej ok) (auto simp: verdict_def Let_def split: sum.splits)

lemma audit_rows_eq:
  "audit_rows c rows acc rej =
     \<lparr>jo_compliant = acc @ filter (\<lambda>r. list_all (\<lambda>f. verdict c r f = None) (pr_features r)) rows,
      jo_rejections = rej @ concat (map (row_rejections c) rows)\<rparr>"
  by (induction rows arbitrary: acc rej) (auto simp: audit_features_eq row_rejections_def)

lemma check_feature_Inr:
  "check_feature c f d = Inr u \<longleftrightarrow> session_close c d = Inr (fe_decision_at f)
     \<and> fe_available_at f \<le> fe_decision_at f"
  by (auto simp: check_feature_def decision_instant_def session_close_Inr session_close_Inl
      split: sum.splits if_splits)

lemma verdict_None:
  "verdict c row f = None \<longleftrightarrow> fe_observed_at f \<le> fe_available_at f
     \<and> fe_available_at f \<le> fe_decision_at f
     \<and> session_close c (pr_decision_session row) = Inr (fe_decision_at f)"
  using check_feature_Inr [of c f "pr_decision_session row" "()"]
  by (auto simp: verdict_def split: sum.splits)

definition sample_feature :: feature_event where
  "sample_feature = \<lparr>fe_security_id = ''SEC-1'', fe_feature_name = ''eps'', fe_value = Exact 1,
     fe_observed_at = 9000, fe_available_at = 9000,
     fe_decision_at = session_close_instant (\<lambda>_. - 18000) 103,
     fe_source = ''edgar'', fe_source_record_id = ''ACC-1'', fe_revision_id = ''r0''\<rparr>"

definition sample_row :: "feature_event list \<Rightarrow> panel_row" where
  "sample_row fs = \<lparr>pr_security_id = ''SEC-1'', pr_decision_session = 103, pr_features = fs,
     pr_label = None\<rparr>"

definition sample_late :: feature_event where
  "sample_late = sample_feature\<lparr>fe_feature_name := ''late'',
     fe_available_at := session_close_instant (\<lambda>_. - 18000) 103 + 1\<rparr>"

subsection \<open>Properties\<close>

text \<open>The panel audit drops nothing silently and lets nothing through: the compliant rows are
  exactly the rows all of whose features were observed no later than available and available no
  later than the close of the row's decision session, in the panel's order; every other row has a
  rejection for each feature that failed, in order, and the compliant ones have none.\<close>

lemma audit_panel_exact:
  "jo_compliant (audit_panel c rows) = filter (\<lambda>r. \<forall>f \<in> set (pr_features r).
       fe_observed_at f \<le> fe_available_at f \<and> fe_available_at f \<le> fe_decision_at f
       \<and> session_close c (pr_decision_session r) = Inr (fe_decision_at f)) rows
   \<and> jo_rejections (audit_panel c rows) = concat (map (row_rejections c) rows)
   \<and> (\<forall>r \<in> set rows. row_rejections c r = [] \<longleftrightarrow> r \<in> set (jo_compliant (audit_panel c rows)))
   \<and> (\<forall>r \<in> set rows. map jr_feature_name (row_rejections c r) = map fe_feature_name
         (filter (\<lambda>f. \<not> (fe_observed_at f \<le> fe_available_at f \<and> fe_available_at f \<le> fe_decision_at f
            \<and> session_close c (pr_decision_session r) = Inr (fe_decision_at f))) (pr_features r)))"
proof -
  have names: "map jr_feature_name (row_rejections c r)
      = map fe_feature_name (filter (\<lambda>f. verdict c r f \<noteq> None) (pr_features r))" for r
  proof -
    have "map jr_feature_name (concat (map (\<lambda>f. case verdict c r f of None \<Rightarrow> []
        | Some code \<Rightarrow> [\<lparr>jr_security_id = pr_security_id r, jr_decision_session = pr_decision_session r,
            jr_feature_name = fe_feature_name f, jr_code = code\<rparr>]) fs))
      = map fe_feature_name (filter (\<lambda>f. verdict c r f \<noteq> None) fs)" for fs
      by (induction fs) (auto split: option.splits)
    then show ?thesis by (simp add: row_rejections_def)
  qed
  have empty: "row_rejections c r = [] \<longleftrightarrow> (\<forall>f \<in> set (pr_features r). verdict c r f = None)" for r
  proof -
    have "row_rejections c r = [] \<longleftrightarrow> map jr_feature_name (row_rejections c r) = []" by simp
    then show ?thesis unfolding names by (simp add: filter_empty_conv)
  qed
  have comp: "jo_compliant (audit_panel c rows)
      = filter (\<lambda>r. \<forall>f \<in> set (pr_features r). verdict c r f = None) rows"
    by (simp add: audit_panel_def audit_rows_eq list_all_iff)
  have rej: "jo_rejections (audit_panel c rows) = concat (map (row_rejections c) rows)"
    by (simp add: audit_panel_def audit_rows_eq)
  have mem: "row_rejections c r = [] \<longleftrightarrow> r \<in> set (jo_compliant (audit_panel c rows))" if "r \<in> set rows" for r
    using that by (simp add: empty comp)
  show ?thesis using comp [unfolded verdict_None] rej mem names [unfolded verdict_None] by blast
qed

theorem audit_panel_exact_witness:
  "jo_compliant (audit_panel sample_calendar
      [sample_row [sample_feature], sample_row [sample_feature, sample_late]]) = [sample_row [sample_feature]]
   \<and> map jr_feature_name (row_rejections sample_calendar (sample_row [sample_feature, sample_late])) = [''late'']"
proof -
  note e = audit_panel_exact [of sample_calendar
      "[sample_row [sample_feature], sample_row [sample_feature, sample_late]]"]
  have "session_close sample_calendar 103 = Inr (fe_decision_at sample_feature)"
    "fe_observed_at sample_feature \<le> fe_available_at sample_feature"
    "fe_available_at sample_feature \<le> fe_decision_at sample_feature"
    "\<not> fe_available_at sample_late \<le> fe_decision_at sample_late" "fe_feature_name sample_late = ''late''"
    by code_simp+
  moreover have "pr_features (sample_row fs) = fs" "pr_decision_session (sample_row fs) = 103" for fs
    by (simp_all add: sample_row_def)
  ultimately show ?thesis using e by simp
qed

text \<open>Filing provenance (INV-03, INV-04): a filing-derived feature that passes both the
  provenance check and the join gate of a decision session was computed from the filing it cites,
  and the filing was public by the session's close; neither the fiscal period end nor the event date
  plays any part.\<close>

lemma filing_public_before_decision:
  assumes "check_filing_provenance ev filing = Inr ()" and "check_feature c ev d = Inr ()"
  shows "fe_source_record_id ev = fr_source_record_id filing
    \<and> (\<exists>t. session_close c d = Inr t \<and> fr_acceptance_instant filing \<le> t)
    \<and> check_filing_provenance ev (filing\<lparr>fr_period_of_report := p, fr_event_date := e\<rparr>) = Inr ()"
  using assms by (auto simp: check_filing_provenance_def check_feature_Inr split: if_splits)

definition sample_filing :: filing_record where
  "sample_filing = \<lparr>fr_source_record_id = ''ACC-1'', fr_form_type = Form10Q,
     fr_filer_security_id = ''SEC-1'', fr_period_of_report = Some 60, fr_event_date = None,
     fr_acceptance_instant = 8000, fr_source = ''edgar''\<rparr>"

theorem filing_public_before_decision_witness:
  "\<exists>t. session_close sample_calendar 103 = Inr t \<and> 8000 \<le> t"
proof -
  have "check_filing_provenance sample_feature sample_filing = Inr ()"
    "check_feature sample_calendar sample_feature 103 = Inr ()" "fr_acceptance_instant sample_filing = 8000"
    by code_simp+
  then show ?thesis using filing_public_before_decision [of sample_feature sample_filing sample_calendar 103]
    by simp
qed

end
