(* ===== verification/Fitting.thy ===== *)
theory Fitting
  imports Splitting
begin

text \<open>
  The fitting guard of \<open>guards/fitting.py\<close> (INV-07): which sessions every fitted artifact saw, and
  which it was applied to. A method that may raise returns the guard it leaves behind with the
  exception or the unit value. A session of calls is a list of \<open>fit_op\<close>s.
\<close>

datatype fitting_error = EMPTY_FIT_SET | REFIT | UNFITTED_ARTIFACT | FIT_ON_EVAL

record fitting_guard =
  fg_fit_sessions :: "ident \<Rightarrow> date set option"
  fg_applied_sessions :: "ident \<Rightarrow> date set option"

definition new_fitting_guard :: fitting_guard where
  "new_fitting_guard = \<lparr>fg_fit_sessions = (\<lambda>_. None), fg_applied_sessions = (\<lambda>_. None)\<rparr>"

definition fit_on ::
  "fitting_guard \<Rightarrow> ident \<Rightarrow> date set \<Rightarrow> fitting_guard \<times> (fitting_error + unit)" where
  "fit_on g name sessions =
     (if sessions = {} then (g, Inl EMPTY_FIT_SET)
      else if fg_fit_sessions g name \<noteq> None then (g, Inl REFIT)
      else (g\<lparr>fg_fit_sessions := (fg_fit_sessions g)(name \<mapsto> sessions)\<rparr>, Inr ()))"

definition fit_sessions :: "fitting_guard \<Rightarrow> ident \<Rightarrow> fitting_error + date set" where
  "fit_sessions g name = (case fg_fit_sessions g name of
      None \<Rightarrow> Inl UNFITTED_ARTIFACT | Some s \<Rightarrow> Inr s)"

definition applied_sessions :: "fitting_guard \<Rightarrow> ident \<Rightarrow> date set" where
  "applied_sessions g name = (case fg_applied_sessions g name of None \<Rightarrow> {} | Some s \<Rightarrow> s)"

definition apply_to ::
  "fitting_guard \<Rightarrow> ident \<Rightarrow> date set \<Rightarrow> fitting_guard \<times> (fitting_error + unit)" where
  "apply_to g name target =
     (case fit_sessions g name of
        Inl e \<Rightarrow> (g, Inl e)
      | Inr _ \<Rightarrow> (g\<lparr>fg_applied_sessions :=
          (fg_applied_sessions g)(name \<mapsto> applied_sessions g name \<union> target)\<rparr>, Inr ()))"

definition assert_fit_excludes ::
  "fitting_guard \<Rightarrow> ident \<Rightarrow> date set \<Rightarrow> fitting_error + unit" where
  "assert_fit_excludes g name forbidden =
     (case fit_sessions g name of
        Inl e \<Rightarrow> Inl e
      | Inr fit \<Rightarrow> if fit \<inter> forbidden \<noteq> {} then Inl FIT_ON_EVAL else Inr ())"

datatype fit_op = FitOn ident "date set" | ApplyTo ident "date set"

fun fit_step :: "fitting_guard \<Rightarrow> fit_op \<Rightarrow> fitting_guard \<times> (fitting_error + unit)" where
  "fit_step g (FitOn name s) = fit_on g name s"
| "fit_step g (ApplyTo name s) = apply_to g name s"

fun fit_run :: "fitting_guard \<Rightarrow> fit_op list \<Rightarrow> fitting_guard" where
  "fit_run g [] = g"
| "fit_run g (x # xs) = fit_run (fst (fit_step g x)) xs"

subsection \<open>Lemmas\<close>

lemma fit_step_kept:
  "fit_sessions g name = Inr s \<Longrightarrow> fit_sessions (fst (fit_step g x)) name = Inr s"
  by (cases x) (auto simp: fit_on_def apply_to_def fit_sessions_def split: option.splits)

lemma fit_run_kept: "fit_sessions g name = Inr s \<Longrightarrow> fit_sessions (fit_run g xs) name = Inr s"
  by (induction xs arbitrary: g) (auto intro: fit_step_kept)

text \<open>The first accepted fit of a name, read off the calls.\<close>

fun first_fit :: "fit_op list \<Rightarrow> ident \<Rightarrow> date set option" where
  "first_fit [] name = None"
| "first_fit (FitOn n s # xs) name = (if n = name \<and> s \<noteq> {} then Some s else first_fit xs name)"
| "first_fit (ApplyTo n s # xs) name = first_fit xs name"

text \<open>The targets of the applications after that fit.\<close>

fun applied_after :: "bool \<Rightarrow> fit_op list \<Rightarrow> ident \<Rightarrow> date set" where
  "applied_after fitted [] name = {}"
| "applied_after fitted (FitOn n s # xs) name = applied_after (fitted \<or> n = name \<and> s \<noteq> {}) xs name"
| "applied_after fitted (ApplyTo n s # xs) name =
     (if fitted \<and> n = name then s else {}) \<union> applied_after fitted xs name"

lemma fit_run_spec:
  "fg_fit_sessions (fit_run g xs) name
     = (case fg_fit_sessions g name of Some s \<Rightarrow> Some s | None \<Rightarrow> first_fit xs name)
   \<and> applied_sessions (fit_run g xs) name
     = applied_sessions g name \<union> applied_after (fg_fit_sessions g name \<noteq> None) xs name"
proof (induction xs arbitrary: g)
  case Nil
  then show ?case by (simp split: option.splits)
next
  case (Cons x xs)
  show ?case
  proof (cases x)
    case (FitOn n s)
    have a: "applied_sessions (fst (fit_on g n s)) name = applied_sessions g name"
      by (simp add: fit_on_def applied_sessions_def)
    show ?thesis using Cons [of "fst (fit_on g n s)"] a
      by (auto simp: FitOn fit_on_def split: option.splits)
  next
    case (ApplyTo n s)
    have a: "applied_sessions (fst (apply_to g n s)) name = applied_sessions g name
        \<union> (if fg_fit_sessions g name \<noteq> None \<and> n = name then s else {})"
      by (auto simp: apply_to_def applied_sessions_def fit_sessions_def split: option.splits)
    have f: "fg_fit_sessions (fst (apply_to g n s)) = fg_fit_sessions g"
      by (simp add: apply_to_def split: sum.splits)
    show ?thesis using Cons [of "fst (apply_to g n s)"] a f
      by (auto simp: ApplyTo split: option.splits)
  qed
qed

subsection \<open>Properties\<close>

text \<open>The fit set of an artifact is settled by its first accepted fit: after any session of
  calls the guard holds, for every name, exactly the sessions of the first nonempty fit of that name
  (later fits are refused and change nothing) and exactly the targets applied after it.\<close>

lemma fit_set_settled:
  "fit_sessions (fit_run new_fitting_guard xs) name
     = (case first_fit xs name of None \<Rightarrow> Inl UNFITTED_ARTIFACT | Some s \<Rightarrow> Inr s)
   \<and> applied_sessions (fit_run new_fitting_guard xs) name = applied_after False xs name"
  using fit_run_spec [of new_fitting_guard xs name]
  by (simp add: fit_sessions_def new_fitting_guard_def applied_sessions_def)

text \<open>Fit on train only: an artifact fitted on (part of) the train sessions of a fold the
  checker accepted passes the exclusion check against the fold's whole evaluation block, now and
  after every further call; and an artifact fitted on any evaluation session never passes it.\<close>

lemma train_fit_excludes_eval:
  assumes "check_folds c folds h e = Inr ()" and "f \<in> set folds"
    and "fit_sessions g name = Inr s"
  shows "(s \<subseteq> train_sessions f \<longrightarrow>
       assert_fit_excludes (fit_run g xs) name (all_eval_sessions f) = Inr ())
    \<and> (s \<inter> all_eval_sessions f \<noteq> {} \<longrightarrow>
       assert_fit_excludes (fit_run g xs) name (all_eval_sessions f) = Inl FIT_ON_EVAL)"
proof -
  have each: "check_fold c h e f = Inr ()" if "check_each c h e fs = Inr ()" "f \<in> set fs" for fs
    using that by (induction fs) (auto split: sum.splits)
  have "check_each c h e folds = Inr ()"
    using assms(1) by (auto simp: check_folds_def split: if_splits sum.splits)
  then have "check_fold c h e f = Inr ()" using each assms(2) by blast
  then have "train_sessions f \<inter> all_eval_sessions f = {}"
    by (auto simp: check_fold_def Let_def all_eval_sessions_def split: if_splits)
  moreover have "fit_sessions (fit_run g xs) name = Inr s" using assms(3) by (rule fit_run_kept)
  ultimately show ?thesis by (auto simp: assert_fit_excludes_def)
qed

theorem train_fit_excludes_eval_witness:
  "assert_fit_excludes (fit_run (fit_run new_fitting_guard [FitOn ''scaler'' {100, 101}])
      [ApplyTo ''scaler'' {105}, FitOn ''scaler'' {105}]) ''scaler'' {105, 106} = Inr ()"
proof -
  let ?f = "\<lparr>fold_id = 0, train_sessions = {100, 101}, validation_sessions = {105},
      test_sessions = {106}, final_fit_train_sessions = {100, 101}\<rparr>"
  have "check_folds sample_calendar [?f] 1 1 = Inr ()" by code_simp
  moreover have "fit_sessions (fit_run new_fitting_guard [FitOn ''scaler'' {100, 101}]) ''scaler'' = Inr {100, 101}"
    by (simp add: fit_on_def new_fitting_guard_def fit_sessions_def)
  moreover have "all_eval_sessions ?f = {105, 106}" by (simp add: all_eval_sessions_def insert_commute)
  moreover have "{100, 101} \<subseteq> train_sessions ?f" "?f \<in> set [?f]" by simp_all
  ultimately show ?thesis using train_fit_excludes_eval by metis
qed

end
