(* ===== verification/Snapshots.thy ===== *)
theory Snapshots
  imports Securities Options Market
begin

text \<open>
  The data layer: corporate actions (\<open>data/actions.py\<close>), raw rows (\<open>data/bars.py\<close>,
  \<open>data/raw.py\<close>), ingestion of a raw payload into a snapshot with its manifest
  (\<open>data/ingest.py\<close>, \<open>data/manifest.py\<close>) and the quality gates (\<open>data/quality.py\<close>). SHA-256 over
  the canonical JSON of a row is the parameter \<open>row_hash\<close>, and of the sorted content of a snapshot
  the parameter \<open>digest\<close>; prices are exact, so a factor is an exact quotient.
\<close>

subsection \<open>Corporate actions and raw rows\<close>

datatype action_kind =
    Split | ReverseSplit | CashDividend | StockDividend | Merger | Spinoff | SymbolChange | Delisting

definition ratioed :: "action_kind set" where "ratioed = {Split, ReverseSplit, StockDividend}"

definition cashed :: "action_kind set" where "cashed = {CashDividend}"

record raw_bar =
  rb_vendor_symbol :: ident
  rb_session :: date
  rb_open :: decimal
  rb_high :: decimal
  rb_low :: decimal
  rb_close :: decimal
  rb_volume :: int
  rb_source_record_id :: ident
  rb_available_at :: instant

record raw_action =
  ra_vendor_symbol :: ident
  ra_kind :: action_kind
  ra_effective_session :: date
  ra_ratio_numerator :: "int option"
  ra_ratio_denominator :: "int option"
  ra_cash_amount :: "decimal option"
  ra_successor_security_id :: "ident option"
  ra_available_at :: instant
  ra_source_record_id :: ident

record corporate_action =
  ca_security_id :: ident
  ca_kind :: action_kind
  ca_effective_session :: date
  ca_ratio_numerator :: "int option"
  ca_ratio_denominator :: "int option"
  ca_cash_amount :: "decimal option"
  ca_successor_security_id :: "ident option"
  ca_source :: ident
  ca_source_record_id :: ident
  ca_source_row_hash :: ident
  ca_snapshot_id :: ident
  ca_available_at :: instant

definition positive_or_none :: "int option \<Rightarrow> bool" where
  "positive_or_none x = (case x of None \<Rightarrow> True | Some n \<Rightarrow> 0 < n)"

definition kind_consistent :: "action_kind \<Rightarrow> int option \<Rightarrow> int option \<Rightarrow> decimal option \<Rightarrow> bool" where
  "kind_consistent kind num den cash \<longleftrightarrow> positive_or_none num \<and> positive_or_none den
     \<and> (case cash of None \<Rightarrow> True | Some x \<Rightarrow> money_ok x)
     \<and> \<not> (kind \<in> ratioed \<and> (num = None \<or> den = None)) \<and> \<not> (kind \<in> cashed \<and> cash = None)"

definition raw_action_ok :: "raw_action \<Rightarrow> bool" where
  "raw_action_ok a \<longleftrightarrow> kind_consistent (ra_kind a) (ra_ratio_numerator a) (ra_ratio_denominator a)
     (ra_cash_amount a)"

definition action_ok :: "corporate_action \<Rightarrow> bool" where
  "action_ok a \<longleftrightarrow> kind_consistent (ca_kind a) (ca_ratio_numerator a) (ca_ratio_denominator a)
     (ca_cash_amount a) \<and> \<not> (ca_kind a \<in> {Merger, Spinoff} \<and> ca_successor_security_id a = None)"

definition raw_bar_ok :: "raw_bar \<Rightarrow> bool" where
  "raw_bar_ok b \<longleftrightarrow> price_ok (rb_open b) \<and> price_ok (rb_high b) \<and> price_ok (rb_low b)
     \<and> price_ok (rb_close b) \<and> 0 \<le> rb_volume b
     \<and> (rb_low b \<le> rb_open b \<and> rb_open b \<le> rb_high b)
     \<and> (rb_low b \<le> rb_close b \<and> rb_close b \<le> rb_high b)"

datatype raw_row = RawBar raw_bar | RawAction raw_action

record raw_payload =
  rw_provider :: ident
  rw_retrieved_at :: "instant option"
  rw_bars :: "raw_bar list"
  rw_actions :: "raw_action list"
  rw_known_exclusions :: "ident list"

definition payload_rows :: "raw_payload \<Rightarrow> raw_row list" where
  "payload_rows p = map RawBar (rw_bars p) @ map RawAction (rw_actions p)"

subsection \<open>Snapshots and manifests\<close>

record dataset_manifest =
  mf_provider :: ident
  mf_snapshot_id :: ident
  mf_schema_version :: ident
  mf_normalization_code_sha :: ident
  mf_retrieved_at :: "instant option"
  mf_known_exclusions :: "ident list"
  mf_source_row_count :: nat
  mf_bar_count :: nat
  mf_action_count :: nat
  mf_security_count :: nat
  mf_session_coverage :: "(date \<times> date) option"
  mf_source_row_hashes :: "ident list"
  mf_content_sha256 :: ident

record dataset_snapshot =
  sn_snapshot_id :: ident
  sn_master :: "security_master list"
  sn_bars :: "bar_record list"
  sn_actions :: "corporate_action list"
  sn_manifest :: dataset_manifest

definition manifest_schema_version :: ident where "manifest_schema_version = ''m2/1''"

text \<open>The content of a snapshot in the order in which it is fed to the digest.\<close>

type_synonym content = "security_master list \<times> bar_record list \<times> corporate_action list"

definition sorted_content ::
  "security_master list \<Rightarrow> bar_record list \<Rightarrow> corporate_action list \<Rightarrow> content" where
  "sorted_content master bars actions =
     (sort_key ms_security_id master,
      sort_key (\<lambda>b. (br_security_id b, br_session b, br_source_record_id b)) bars,
      sort_key (\<lambda>a. (ca_security_id a, ca_effective_session a, ca_source_record_id a)) actions)"

definition content_sha256 ::
  "(content \<Rightarrow> ident) \<Rightarrow> security_master list \<Rightarrow> bar_record list \<Rightarrow> corporate_action list \<Rightarrow> ident" where
  "content_sha256 digest master bars actions = digest (sorted_content master bars actions)"

definition session_coverage :: "date list \<Rightarrow> (date \<times> date) option" where
  "session_coverage ds = (case sort ds of [] \<Rightarrow> None | s # ss \<Rightarrow> Some (s, last (s # ss)))"

subsection \<open>Ingestion\<close>

datatype ingest_error = IngestionError "ident list" | IngestValidationError

definition bar_of_row :: "(raw_row \<Rightarrow> ident) \<Rightarrow> ident \<Rightarrow> ident \<Rightarrow> ident \<Rightarrow> raw_bar \<Rightarrow> bar_record" where
  "bar_of_row row_hash provider snapshot_id security_id b =
     \<lparr>br_security_id = security_id, br_session = rb_session b, br_open = rb_open b,
      br_high = rb_high b, br_low = rb_low b, br_close = rb_close b, br_volume = rb_volume b,
      br_source = provider, br_source_record_id = rb_source_record_id b,
      br_source_row_hash = row_hash (RawBar b), br_snapshot_id = snapshot_id,
      br_available_at = rb_available_at b\<rparr>"

definition action_of_row ::
  "(raw_row \<Rightarrow> ident) \<Rightarrow> ident \<Rightarrow> ident \<Rightarrow> ident \<Rightarrow> raw_action \<Rightarrow> corporate_action" where
  "action_of_row row_hash provider snapshot_id security_id a =
     \<lparr>ca_security_id = security_id, ca_kind = ra_kind a,
      ca_effective_session = ra_effective_session a, ca_ratio_numerator = ra_ratio_numerator a,
      ca_ratio_denominator = ra_ratio_denominator a, ca_cash_amount = ra_cash_amount a,
      ca_successor_security_id = ra_successor_security_id a, ca_source = provider,
      ca_source_record_id = ra_source_record_id a, ca_source_row_hash = row_hash (RawAction a),
      ca_snapshot_id = snapshot_id, ca_available_at = ra_available_at a\<rparr>"

text \<open>
  The loop over the rows: a row that does not resolve is noted and skipped, a normalized record
  that its validator refuses raises at once.
\<close>

fun ingest_rows ::
  "(raw_row \<Rightarrow> ident) \<Rightarrow> security_master list \<Rightarrow> ident \<Rightarrow> ident \<Rightarrow> raw_row list
   \<Rightarrow> bar_record list \<Rightarrow> corporate_action list \<Rightarrow> ident list
   \<Rightarrow> ingest_error + (bar_record list \<times> corporate_action list \<times> ident list)" where
  "ingest_rows row_hash master provider sid [] bars actions failures =
     Inr (bars, actions, failures)"
| "ingest_rows row_hash master provider sid (RawBar b # rows) bars actions failures =
     (case resolve master (rb_vendor_symbol b) (rb_session b) (rb_available_at b) of
        Inl _ \<Rightarrow> ingest_rows row_hash master provider sid rows bars actions
                  (failures @ [rb_source_record_id b])
      | Inr security_id \<Rightarrow>
          let r = bar_of_row row_hash provider sid security_id b
          in if \<not> bar_ok r then Inl IngestValidationError
             else ingest_rows row_hash master provider sid rows (bars @ [r]) actions failures)"
| "ingest_rows row_hash master provider sid (RawAction a # rows) bars actions failures =
     (case resolve master (ra_vendor_symbol a) (ra_effective_session a) (ra_available_at a) of
        Inl _ \<Rightarrow> ingest_rows row_hash master provider sid rows bars actions
                  (failures @ [ra_source_record_id a])
      | Inr security_id \<Rightarrow>
          let r = action_of_row row_hash provider sid security_id a
          in if \<not> action_ok r then Inl IngestValidationError
             else ingest_rows row_hash master provider sid rows bars (actions @ [r]) failures)"

definition ingest_snapshot ::
  "(raw_row \<Rightarrow> ident) \<Rightarrow> (content \<Rightarrow> ident) \<Rightarrow> raw_payload \<Rightarrow> security_master list \<Rightarrow> ident \<Rightarrow> ident
   \<Rightarrow> ingest_error + dataset_snapshot" where
  "ingest_snapshot row_hash digest payload master snapshot_id code_sha =
     (case ingest_rows row_hash master (rw_provider payload) snapshot_id (payload_rows payload) [] [] [] of
        Inl e \<Rightarrow> Inl e
      | Inr (bars, actions, failures) \<Rightarrow>
          if failures \<noteq> [] then Inl (IngestionError failures)
          else Inr \<lparr>sn_snapshot_id = snapshot_id, sn_master = master, sn_bars = bars,
            sn_actions = actions,
            sn_manifest =
              \<lparr>mf_provider = rw_provider payload, mf_snapshot_id = snapshot_id,
               mf_schema_version = manifest_schema_version, mf_normalization_code_sha = code_sha,
               mf_retrieved_at = rw_retrieved_at payload,
               mf_known_exclusions = rw_known_exclusions payload,
               mf_source_row_count = length (rw_bars payload) + length (rw_actions payload),
               mf_bar_count = length bars, mf_action_count = length actions,
               mf_security_count = card (set (map br_security_id bars)),
               mf_session_coverage = session_coverage (map br_session bars),
               mf_source_row_hashes = sort (map (row_hash \<circ> RawBar) (rw_bars payload)
                 @ map (row_hash \<circ> RawAction) (rw_actions payload)),
               mf_content_sha256 = content_sha256 digest master bars actions\<rparr>\<rparr>)"

subsection \<open>Quality gates\<close>

datatype quality_error =
    DuplicateBar | UnknownSecurity | NonSessionBar | PublishedBeforeClose
  | ActionUnknownSecurity | ActionNonSession | UndeclaredDiscontinuity | RatioMismatch
  | NoPriceTransition
  | SnapshotIdentity | ContentMismatch | SchemaVersion | CountMismatch | SourceRowCount
  | SecurityCount | ProviderMismatch | RowHashList | CoverageMismatch

definition split_factor_bound :: decimal where "split_factor_bound = 2"

definition split_factor_inverse :: decimal where "split_factor_inverse = 1 / 2"

definition split_ratio_tolerance :: decimal where "split_ratio_tolerance = 2 / 100"

fun validate_bars ::
  "ident set \<Rightarrow> calendar \<Rightarrow> (ident \<times> date) set \<Rightarrow> bar_record list \<Rightarrow> quality_error + unit" where
  "validate_bars known c seen [] = Inr ()"
| "validate_bars known c seen (b # bs) =
     (if (br_security_id b, br_session b) \<in> seen then Inl DuplicateBar
      else if br_security_id b \<notin> known then Inl UnknownSecurity
      else case session_close c (br_session b) of
          Inl _ \<Rightarrow> Inl NonSessionBar
        | Inr close \<Rightarrow>
            if br_available_at b < close then Inl PublishedBeforeClose
            else validate_bars known c (insert (br_security_id b, br_session b) seen) bs)"

fun validate_actions :: "ident set \<Rightarrow> calendar \<Rightarrow> corporate_action list \<Rightarrow> quality_error + unit" where
  "validate_actions known c [] = Inr ()"
| "validate_actions known c (a # as) =
     (if ca_security_id a \<notin> known then Inl ActionUnknownSecurity
      else if \<not> is_session c (ca_effective_session a) then Inl ActionNonSession
      else validate_actions known c as)"

text \<open>The keys of a dict in the order of their first insertion.\<close>

definition first_keys :: "'a list \<Rightarrow> 'a list" where
  "first_keys xs = rev (remdups (rev xs))"

definition bars_of :: "ident \<Rightarrow> bar_record list \<Rightarrow> bar_record list" where
  "bars_of sid bars = sort_key br_session (filter (\<lambda>b. br_security_id b = sid) bars)"

text \<open>\<open>ratio_actions\<close>: a dict keyed by security and session, so the last action of a key wins.\<close>

definition ratio_action_list :: "corporate_action list \<Rightarrow> corporate_action list" where
  "ratio_action_list actions = filter (\<lambda>a. ca_kind a = Split \<or> ca_kind a = ReverseSplit) actions"

definition ratio_action_for :: "corporate_action list \<Rightarrow> ident \<times> date \<Rightarrow> corporate_action option" where
  "ratio_action_for actions key =
     (case filter (\<lambda>a. (ca_security_id a, ca_effective_session a) = key)
             (rev (ratio_action_list actions)) of
        [] \<Rightarrow> None | a # _ \<Rightarrow> Some a)"

text \<open>\<open>_require_ratio_match\<close>: it asserts both ratio fields, which a validated split has.\<close>

definition ratio_matches :: "corporate_action \<Rightarrow> decimal \<Rightarrow> bool" where
  "ratio_matches a factor =
     (case ca_ratio_numerator a of None \<Rightarrow> False
      | Some n \<Rightarrow> (case ca_ratio_denominator a of None \<Rightarrow> False
          | Some d \<Rightarrow> \<not> (\<bar>factor / (of_int n / of_int d) - 1\<bar> > split_ratio_tolerance)))"

fun validate_jumps ::
  "corporate_action list \<Rightarrow> ident \<Rightarrow> bar_record list \<Rightarrow> quality_error + unit" where
  "validate_jumps actions sid (prev # nxt # bs) =
     (let factor = br_close prev / br_close nxt
      in if factor \<le> split_factor_inverse \<or> factor \<ge> split_factor_bound
         then (case ratio_action_for actions (sid, br_session nxt) of
             None \<Rightarrow> Inl UndeclaredDiscontinuity
           | Some a \<Rightarrow> if \<not> ratio_matches a factor then Inl RatioMismatch
                       else validate_jumps actions sid (nxt # bs))
         else validate_jumps actions sid (nxt # bs))"
| "validate_jumps actions sid _ = Inr ()"

fun validate_all_jumps ::
  "corporate_action list \<Rightarrow> bar_record list \<Rightarrow> ident list \<Rightarrow> quality_error + unit" where
  "validate_all_jumps actions bars [] = Inr ()"
| "validate_all_jumps actions bars (sid # sids) =
     (case validate_jumps actions sid (bars_of sid bars) of
        Inl e \<Rightarrow> Inl e | Inr _ \<Rightarrow> validate_all_jumps actions bars sids)"

text \<open>A declared split must have a price transition into its session that matches its ratio.\<close>

fun validate_splits ::
  "corporate_action list \<Rightarrow> bar_record list \<Rightarrow> (ident \<times> date) list \<Rightarrow> quality_error + unit" where
  "validate_splits actions bars [] = Inr ()"
| "validate_splits actions bars (key # keys) =
     (case ratio_action_for actions key of
        None \<Rightarrow> validate_splits actions bars keys
      | Some a \<Rightarrow>
          let security_bars = bars_of (fst key) bars;
              before = filter (\<lambda>b. br_session b < snd key) security_bars;
              effective_bars = filter (\<lambda>b. br_session b = snd key) security_bars
          in if before = [] \<or> effective_bars = [] then Inl NoPriceTransition
             else let factor = br_close (first_max br_session (hd before) (tl before))
                               / br_close (hd effective_bars)
                  in if \<not> ratio_matches a factor then Inl RatioMismatch
                     else validate_splits actions bars keys)"

definition validate_snapshot :: "dataset_snapshot \<Rightarrow> calendar \<Rightarrow> quality_error + unit" where
  "validate_snapshot sn c =
     (let known = set (map ms_security_id (sn_master sn));
          ordered = sort_key (\<lambda>b. (br_security_id b, br_session b, br_source_record_id b)) (sn_bars sn)
      in case validate_bars known c {} ordered of
          Inl e \<Rightarrow> Inl e
        | Inr _ \<Rightarrow> (case validate_actions known c (sn_actions sn) of
              Inl e \<Rightarrow> Inl e
            | Inr _ \<Rightarrow> (case validate_all_jumps (sn_actions sn) (sn_bars sn)
                            (first_keys (map br_security_id (sn_bars sn))) of
                  Inl e \<Rightarrow> Inl e
                | Inr _ \<Rightarrow> validate_splits (sn_actions sn) (sn_bars sn)
                    (first_keys (map (\<lambda>a. (ca_security_id a, ca_effective_session a))
                       (ratio_action_list (sn_actions sn)))))))"

definition verify_manifest ::
  "(content \<Rightarrow> ident) \<Rightarrow> dataset_snapshot \<Rightarrow> calendar \<Rightarrow> quality_error + unit" where
  "verify_manifest digest sn c =
     (let m = sn_manifest sn;
          rows_identity = list_all (\<lambda>b. br_snapshot_id b = mf_snapshot_id m) (sn_bars sn)
            \<and> list_all (\<lambda>a. ca_snapshot_id a = mf_snapshot_id m) (sn_actions sn);
          sources = set (map br_source (sn_bars sn)) \<union> set (map ca_source (sn_actions sn))
      in if \<not> (sn_snapshot_id sn = mf_snapshot_id m \<and> rows_identity) then Inl SnapshotIdentity
         else if content_sha256 digest (sn_master sn) (sn_bars sn) (sn_actions sn) \<noteq> mf_content_sha256 m
         then Inl ContentMismatch
         else if mf_schema_version m \<noteq> manifest_schema_version then Inl SchemaVersion
         else if mf_bar_count m \<noteq> length (sn_bars sn) \<or> mf_action_count m \<noteq> length (sn_actions sn)
         then Inl CountMismatch
         else if mf_source_row_count m \<noteq> length (sn_bars sn) + length (sn_actions sn)
         then Inl SourceRowCount
         else if mf_security_count m \<noteq> card (set (map br_security_id (sn_bars sn)))
         then Inl SecurityCount
         else if sources \<noteq> {} \<and> sources \<noteq> {mf_provider m} then Inl ProviderMismatch
         else if sort (map br_source_row_hash (sn_bars sn) @ map ca_source_row_hash (sn_actions sn))
                 \<noteq> mf_source_row_hashes m
         then Inl RowHashList
         else if session_coverage (map br_session (sn_bars sn)) \<noteq> mf_session_coverage m
         then Inl CoverageMismatch
         else validate_snapshot sn c)"

subsection \<open>What the gates guarantee\<close>

definition bar_key :: "bar_record \<Rightarrow> ident \<times> date" where
  "bar_key b = (br_security_id b, br_session b)"

lemma validate_bars_Inr:
  "validate_bars known c seen bs = Inr () \<Longrightarrow> distinct (map bar_key bs)
   \<and> (\<forall>b \<in> set bs. bar_key b \<notin> seen \<and> br_security_id b \<in> known
        \<and> (\<exists>k. session_close c (br_session b) = Inr k \<and> k \<le> br_available_at b))"
proof (induction bs arbitrary: seen)
  case (Cons b bs)
  obtain k where k: "session_close c (br_session b) = Inr k" "\<not> br_available_at b < k"
    and rest: "validate_bars known c (insert (bar_key b) seen) bs = Inr ()"
    and b: "bar_key b \<notin> seen" "br_security_id b \<in> known"
    using Cons.prems by (auto simp: bar_key_def split: if_splits sum.splits)
  from Cons.IH [OF rest] k b show ?case by auto
qed simp

lemma validate_actions_Inr:
  "validate_actions known c as = Inr () \<longleftrightarrow>
   (\<forall>a \<in> set as. ca_security_id a \<in> known \<and> is_session c (ca_effective_session a))"
  by (induction as) auto

definition price_jump :: "bar_record \<Rightarrow> bar_record \<Rightarrow> bool" where
  "price_jump prev nxt \<longleftrightarrow> br_close prev / br_close nxt \<le> split_factor_inverse
     \<or> br_close prev / br_close nxt \<ge> split_factor_bound"

lemma ratio_action_for_Some:
  "ratio_action_for actions key = Some a \<Longrightarrow> a \<in> set actions \<and> (ca_kind a = Split \<or> ca_kind a = ReverseSplit)
     \<and> (ca_security_id a, ca_effective_session a) = key"
proof -
  assume "ratio_action_for actions key = Some a"
  then obtain as where eq: "filter (\<lambda>a. (ca_security_id a, ca_effective_session a) = key)
      (rev (ratio_action_list actions)) = a # as"
    unfolding ratio_action_for_def by (auto split: list.splits)
  have "a \<in> set (filter (\<lambda>a. (ca_security_id a, ca_effective_session a) = key)
      (rev (ratio_action_list actions)))" unfolding eq by simp
  then show ?thesis by (auto simp: ratio_action_list_def)
qed

lemma validate_jumps_Inr:
  "validate_jumps actions sid bs = Inr () \<Longrightarrow> Suc i < length bs \<Longrightarrow> price_jump (bs ! i) (bs ! Suc i) \<Longrightarrow>
   \<exists>a. ratio_action_for actions (sid, br_session (bs ! Suc i)) = Some a
     \<and> ratio_matches a (br_close (bs ! i) / br_close (bs ! Suc i))"
proof (induction actions sid bs arbitrary: i rule: validate_jumps.induct)
  case (1 actions sid prev nxt bs)
  show ?case
  proof (cases i)
    case 0
    with 1 show ?thesis by (auto simp: price_jump_def Let_def split: option.splits if_splits)
  next
    case (Suc j)
    have "validate_jumps actions sid (nxt # bs) = Inr ()"
      using "1.prems"(1) by (auto simp: Let_def split: option.splits if_splits)
    then show ?thesis using "1.IH" "1.prems" Suc by (auto simp: Let_def split: option.splits if_splits)
  qed
qed simp_all

lemma first_keys_set [simp]: "set (first_keys xs) = set xs"
  by (simp add: first_keys_def)

lemma validate_all_jumps_Inr:
  "validate_all_jumps actions bars sids = Inr () \<Longrightarrow> sid \<in> set sids \<Longrightarrow>
   validate_jumps actions sid (bars_of sid bars) = Inr ()"
  by (induction sids) (auto split: sum.splits)

lemma bars_of_empty: "sid \<notin> set (map br_security_id bars) \<Longrightarrow> bars_of sid bars = []"
proof -
  assume "sid \<notin> set (map br_security_id bars)"
  then have "filter (\<lambda>b. br_security_id b = sid) bars = []" by (auto simp: filter_empty_conv)
  then show ?thesis by (simp add: bars_of_def)
qed

lemma validate_snapshot_Inr:
  assumes "validate_snapshot sn c = Inr ()"
  shows "distinct (map bar_key (sn_bars sn))"
    and "b \<in> set (sn_bars sn) \<Longrightarrow> br_security_id b \<in> ms_security_id ` set (sn_master sn)
      \<and> (\<exists>k. session_close c (br_session b) = Inr k \<and> k \<le> br_available_at b)"
    and "a \<in> set (sn_actions sn) \<Longrightarrow> ca_security_id a \<in> ms_security_id ` set (sn_master sn)
      \<and> is_session c (ca_effective_session a)"
    and "validate_jumps (sn_actions sn) sid (bars_of sid (sn_bars sn)) = Inr ()"
proof -
  let ?known = "set (map ms_security_id (sn_master sn))"
  let ?ord = "sort_key (\<lambda>b. (br_security_id b, br_session b, br_source_record_id b)) (sn_bars sn)"
  have v: "validate_bars ?known c {} ?ord = Inr ()" "validate_actions ?known c (sn_actions sn) = Inr ()"
    "validate_all_jumps (sn_actions sn) (sn_bars sn) (first_keys (map br_security_id (sn_bars sn))) = Inr ()"
    using assms by (auto simp: validate_snapshot_def Let_def split: sum.splits)
  note vb = validate_bars_Inr [OF v(1)]
  have "mset (map bar_key ?ord) = mset (map bar_key (sn_bars sn))" by simp
  then show "distinct (map bar_key (sn_bars sn))" using vb mset_eq_imp_distinct_iff by blast
  show "br_security_id b \<in> ms_security_id ` set (sn_master sn)
      \<and> (\<exists>k. session_close c (br_session b) = Inr k \<and> k \<le> br_available_at b)" if "b \<in> set (sn_bars sn)"
    using vb that by auto
  show "ca_security_id a \<in> ms_security_id ` set (sn_master sn) \<and> is_session c (ca_effective_session a)"
    if "a \<in> set (sn_actions sn)"
    using v(2) that by (simp add: validate_actions_Inr)
  show "validate_jumps (sn_actions sn) sid (bars_of sid (sn_bars sn)) = Inr ()"
  proof (cases "sid \<in> set (map br_security_id (sn_bars sn))")
    case True
    then show ?thesis using validate_all_jumps_Inr [OF v(3)] by simp
  qed (simp add: bars_of_empty)
qed

lemma verify_manifest_validates: "verify_manifest digest sn c = Inr () \<Longrightarrow> validate_snapshot sn c = Inr ()"
  unfolding verify_manifest_def Let_def raise_simps by simp

subsection \<open>What ingestion guarantees\<close>

definition bars_in :: "raw_row list \<Rightarrow> raw_bar list" where
  "bars_in rows = concat (map (\<lambda>r. case r of RawBar b \<Rightarrow> [b] | RawAction _ \<Rightarrow> []) rows)"

definition actions_in :: "raw_row list \<Rightarrow> raw_action list" where
  "actions_in rows = concat (map (\<lambda>r. case r of RawBar _ \<Rightarrow> [] | RawAction a \<Rightarrow> [a]) rows)"

lemma payload_rows_parts: "bars_in (payload_rows p) = rw_bars p" "actions_in (payload_rows p) = rw_actions p"
  by (simp_all add: bars_in_def actions_in_def payload_rows_def o_def)

text \<open>The normalized record of a raw row: its fields, and the security its symbol named on its
  session as known when it was published.\<close>

definition bar_ingested :: "(raw_row \<Rightarrow> ident) \<Rightarrow> security_master list \<Rightarrow> ident \<Rightarrow> ident \<Rightarrow> raw_bar \<Rightarrow> bar_record \<Rightarrow> bool" where
  "bar_ingested h master p sid x b \<longleftrightarrow> bar_ok b \<and> b = bar_of_row h p sid (br_security_id b) x
     \<and> resolve master (rb_vendor_symbol x) (rb_session x) (rb_available_at x) = Inr (br_security_id b)"

definition action_ingested ::
  "(raw_row \<Rightarrow> ident) \<Rightarrow> security_master list \<Rightarrow> ident \<Rightarrow> ident \<Rightarrow> raw_action \<Rightarrow> corporate_action \<Rightarrow> bool" where
  "action_ingested h master p sid x a \<longleftrightarrow> action_ok a \<and> a = action_of_row h p sid (ca_security_id a) x
     \<and> resolve master (ra_vendor_symbol x) (ra_effective_session x) (ra_available_at x) = Inr (ca_security_id a)"

lemma ingest_rows_failures:
  "ingest_rows h m p sid rows b0 a0 f0 = Inr (b, a, f) \<Longrightarrow> \<exists>f1. f = f0 @ f1"
proof (induction h m p sid rows b0 a0 f0 rule: ingest_rows.induct)
  case (2 h m p sid x rows b0 a0 f0)
  then show ?case by (auto simp: Let_def split: sum.splits if_splits)
next
  case (3 h m p sid x rows b0 a0 f0)
  then show ?case by (auto simp: Let_def split: sum.splits if_splits)
qed simp

lemma ingest_rows_complete:
  "ingest_rows h m p sid rows b0 a0 [] = Inr (b, a, []) \<Longrightarrow>
   \<exists>b1 a1. b = b0 @ b1 \<and> a = a0 @ a1 \<and> list_all2 (bar_ingested h m p sid) (bars_in rows) b1
     \<and> list_all2 (action_ingested h m p sid) (actions_in rows) a1"
proof (induction rows arbitrary: b0 a0)
  case Nil
  then show ?case by (simp add: bars_in_def actions_in_def)
next
  case (Cons row rows)
  show ?case
  proof (cases row)
    case (RawBar x)
    obtain s where s: "resolve m (rb_vendor_symbol x) (rb_session x) (rb_available_at x) = Inr s"
      "bar_ok (bar_of_row h p sid s x)"
      "ingest_rows h m p sid rows (b0 @ [bar_of_row h p sid s x]) a0 [] = Inr (b, a, [])"
      using Cons.prems ingest_rows_failures
      by (fastforce simp: RawBar Let_def split: sum.splits if_splits)
    have "bar_ingested h m p sid x (bar_of_row h p sid s x)"
      using s by (simp add: bar_ingested_def bar_of_row_def)
    moreover have "bars_in (row # rows) = x # bars_in rows" "actions_in (row # rows) = actions_in rows"
      by (simp_all add: RawBar bars_in_def actions_in_def)
    ultimately show ?thesis using Cons.IH [OF s(3)] by fastforce
  next
    case (RawAction x)
    obtain s where s: "resolve m (ra_vendor_symbol x) (ra_effective_session x) (ra_available_at x) = Inr s"
      "action_ok (action_of_row h p sid s x)"
      "ingest_rows h m p sid rows b0 (a0 @ [action_of_row h p sid s x]) [] = Inr (b, a, [])"
      using Cons.prems ingest_rows_failures
      by (fastforce simp: RawAction Let_def split: sum.splits if_splits)
    have "action_ingested h m p sid x (action_of_row h p sid s x)"
      using s by (simp add: action_ingested_def action_of_row_def)
    moreover have "bars_in (row # rows) = bars_in rows" "actions_in (row # rows) = x # actions_in rows"
      by (simp_all add: RawAction bars_in_def actions_in_def)
    ultimately show ?thesis using Cons.IH [OF s(3)] by fastforce
  qed
qed

subsection \<open>Properties\<close>

text \<open>Claim C36. What the quality gates guarantee of a snapshot they accept: at most one bar per security
  and session; every bar of a known security, on a session, published no earlier than that session's
  close; every action of a known security on a session; and every overnight close factor of two or
  more, either way, is declared by a split or reverse split effective on the later session whose
  ratio matches the observed factor within two percent.\<close>

theorem accepted_snapshot_sound:
  assumes "validate_snapshot sn c = Inr ()"
  shows "distinct (map (\<lambda>b. (br_security_id b, br_session b)) (sn_bars sn))
    \<and> (\<forall>b \<in> set (sn_bars sn). br_security_id b \<in> ms_security_id ` set (sn_master sn)
         \<and> (\<exists>k. session_close c (br_session b) = Inr k \<and> k \<le> br_available_at b))
    \<and> (\<forall>a \<in> set (sn_actions sn). ca_security_id a \<in> ms_security_id ` set (sn_master sn)
         \<and> is_session c (ca_effective_session a))
    \<and> (\<forall>sid i. Suc i < length (bars_of sid (sn_bars sn)) \<longrightarrow>
         (let prev = bars_of sid (sn_bars sn) ! i; nxt = bars_of sid (sn_bars sn) ! Suc i;
              factor = br_close prev / br_close nxt
          in factor \<le> 1 / 2 \<or> 2 \<le> factor \<longrightarrow>
             (\<exists>a n d. a \<in> set (sn_actions sn) \<and> ca_kind a \<in> {Split, ReverseSplit}
                \<and> ca_security_id a = sid \<and> ca_effective_session a = br_session nxt
                \<and> ca_ratio_numerator a = Some n \<and> ca_ratio_denominator a = Some d
                \<and> \<bar>factor / (of_int n / of_int d) - 1\<bar> \<le> 2 / 100)))"
proof -
  note v = validate_snapshot_Inr [OF assms]
  have jump: "\<exists>a n d. a \<in> set (sn_actions sn) \<and> ca_kind a \<in> {Split, ReverseSplit}
      \<and> ca_security_id a = sid \<and> ca_effective_session a = br_session nxt
      \<and> ca_ratio_numerator a = Some n \<and> ca_ratio_denominator a = Some d
      \<and> \<bar>(br_close prev / br_close nxt) / (of_int n / of_int d) - 1\<bar> \<le> 2 / 100"
    if "Suc i < length (bars_of sid (sn_bars sn))" "prev = bars_of sid (sn_bars sn) ! i"
      "nxt = bars_of sid (sn_bars sn) ! Suc i" "price_jump prev nxt" for sid i prev nxt
  proof -
    note at = that
    obtain a where a: "ratio_action_for (sn_actions sn) (sid, br_session nxt) = Some a"
        "ratio_matches a (br_close prev / br_close nxt)"
      using validate_jumps_Inr [OF v(4) at(1)] at(2-4) by blast
    from ratio_action_for_Some [OF a(1)] a(2) show ?thesis
      by (auto simp: ratio_matches_def split_ratio_tolerance_def not_less split: option.splits)
  qed
  show ?thesis
    using v(1-3) jump unfolding Let_def price_jump_def split_factor_bound_def split_factor_inverse_def bar_key_def
    by simp
qed

text \<open>Claim C37. Ingestion and verification agree: a snapshot that ingestion built passes every check of
  its manifest, so verifying it is exactly validating its rows. Every raw row is in it, in order, with
  its own fields, under the security its symbol named on its session as known at publication.\<close>

theorem ingested_snapshot_verifies:
  assumes "ingest_snapshot row_hash digest payload master sid sha = Inr sn"
  shows "verify_manifest digest sn c = validate_snapshot sn c
    \<and> sn_master sn = master
    \<and> list_all2 (bar_ingested row_hash master (rw_provider payload) sid) (rw_bars payload) (sn_bars sn)
    \<and> list_all2 (action_ingested row_hash master (rw_provider payload) sid) (rw_actions payload) (sn_actions sn)"
proof -
  obtain bars actions where rows: "ingest_rows row_hash master (rw_provider payload) sid
      (payload_rows payload) [] [] [] = Inr (bars, actions, [])"
    using assms by (auto simp: ingest_snapshot_def split: sum.splits if_splits)
  from ingest_rows_complete [OF rows] have l:
    "list_all2 (bar_ingested row_hash master (rw_provider payload) sid) (rw_bars payload) bars"
    "list_all2 (action_ingested row_hash master (rw_provider payload) sid) (rw_actions payload) actions"
    by (auto simp: payload_rows_parts)
  have len: "length bars = length (rw_bars payload)" "length actions = length (rw_actions payload)"
    using l by (auto dest: list_all2_lengthD)
  have bar: "bar_ingested row_hash master (rw_provider payload) sid (rw_bars payload ! i) (bars ! i)"
    if "i < length bars" for i using l(1) that len by (auto simp: list_all2_conv_all_nth)
  have act: "action_ingested row_hash master (rw_provider payload) sid (rw_actions payload ! i) (actions ! i)"
    if "i < length actions" for i using l(2) that len by (auto simp: list_all2_conv_all_nth)
  have barf: "br_source_row_hash (bars ! i) = row_hash (RawBar (rw_bars payload ! i))"
      "br_source (bars ! i) = rw_provider payload" "br_snapshot_id (bars ! i) = sid" if "i < length bars" for i
    using bar [OF that] unfolding bar_ingested_def bar_of_row_def by (metis bar_record.select_convs)+
  have actf: "ca_source_row_hash (actions ! i) = row_hash (RawAction (rw_actions payload ! i))"
      "ca_source (actions ! i) = rw_provider payload" "ca_snapshot_id (actions ! i) = sid" if "i < length actions" for i
    using act [OF that] unfolding action_ingested_def action_of_row_def by (metis corporate_action.select_convs)+
  have hashes: "map br_source_row_hash bars = map (row_hash \<circ> RawBar) (rw_bars payload)"
      "map ca_source_row_hash actions = map (row_hash \<circ> RawAction) (rw_actions payload)"
    using barf(1) actf(1) len by (auto intro: nth_equalityI)
  have "\<forall>b \<in> set bars. br_source b = rw_provider payload \<and> br_snapshot_id b = sid"
      "\<forall>a \<in> set actions. ca_source a = rw_provider payload \<and> ca_snapshot_id a = sid"
    using barf(2,3) actf(2,3) by (metis in_set_conv_nth)+
  then have ids: "list_all (\<lambda>b. br_snapshot_id b = sid) bars" "list_all (\<lambda>a. ca_snapshot_id a = sid) actions"
    and src: "set (map br_source bars) \<union> set (map ca_source actions) \<subseteq> {rw_provider payload}"
    by (auto simp: list_all_iff)
  have sn: "sn_snapshot_id sn = sid" "sn_master sn = master" "sn_bars sn = bars" "sn_actions sn = actions"
    "mf_snapshot_id (sn_manifest sn) = sid" "mf_provider (sn_manifest sn) = rw_provider payload"
    "mf_schema_version (sn_manifest sn) = manifest_schema_version"
    "mf_bar_count (sn_manifest sn) = length bars" "mf_action_count (sn_manifest sn) = length actions"
    "mf_source_row_count (sn_manifest sn) = length bars + length actions"
    "mf_security_count (sn_manifest sn) = card (set (map br_security_id bars))"
    "mf_session_coverage (sn_manifest sn) = session_coverage (map br_session bars)"
    "mf_source_row_hashes (sn_manifest sn) = sort (map br_source_row_hash bars @ map ca_source_row_hash actions)"
    "mf_content_sha256 (sn_manifest sn) = content_sha256 digest master bars actions"
    using assms unfolding ingest_snapshot_def rows hashes by (auto simp: len)
  have "\<not> (set (map br_source bars) \<union> set (map ca_source actions) \<noteq> {}
      \<and> set (map br_source bars) \<union> set (map ca_source actions) \<noteq> {rw_provider payload})"
    using subset_singletonD [OF src] by metis
  then have "verify_manifest digest sn c = validate_snapshot sn c"
    unfolding verify_manifest_def Let_def sn by (simp only: ids not_False_eq_True simp_thms if_False)
  then show ?thesis using l by (simp add: sn)
qed

text \<open>A manifest binds the content: if two snapshots carrying the same manifest both verify, and
  the digest does not collide on their contents, then they hold the same master records, the same
  bars and the same actions, up to the order of rows.\<close>

lemma manifest_binds_content:
  assumes "verify_manifest digest sn c = Inr ()" and "verify_manifest digest sn' c = Inr ()"
    and "sn_manifest sn' = sn_manifest sn"
    and "inj_on digest {sorted_content (sn_master sn) (sn_bars sn) (sn_actions sn),
      sorted_content (sn_master sn') (sn_bars sn') (sn_actions sn')}"
  shows "sn_snapshot_id sn' = sn_snapshot_id sn \<and> mset (sn_master sn') = mset (sn_master sn)
    \<and> mset (sn_bars sn') = mset (sn_bars sn) \<and> mset (sn_actions sn') = mset (sn_actions sn)"
proof -
  have d: "digest (sorted_content (sn_master sn) (sn_bars sn) (sn_actions sn)) = mf_content_sha256 (sn_manifest sn)"
    "sn_snapshot_id sn = mf_snapshot_id (sn_manifest sn)"
    using assms(1) unfolding verify_manifest_def Let_def raise_simps content_sha256_def by auto
  have d': "digest (sorted_content (sn_master sn') (sn_bars sn') (sn_actions sn')) = mf_content_sha256 (sn_manifest sn)"
    "sn_snapshot_id sn' = mf_snapshot_id (sn_manifest sn)"
    using assms(2,3) unfolding verify_manifest_def Let_def raise_simps content_sha256_def by auto
  have "sorted_content (sn_master sn) (sn_bars sn) (sn_actions sn)
      = sorted_content (sn_master sn') (sn_bars sn') (sn_actions sn')"
    by (rule inj_onD [OF assms(4)]) (simp only: d(1) d'(1), rule insertI1, rule insertI2, rule insertI1)
  note eq = this [unfolded sorted_content_def prod.inject]
  have "mset (sn_master sn) = mset (sn_master sn')" using arg_cong [OF conjunct1 [OF eq], of mset] by simp
  moreover have "mset (sn_bars sn) = mset (sn_bars sn')"
    using arg_cong [OF conjunct1 [OF conjunct2 [OF eq]], of mset] by simp
  moreover have "mset (sn_actions sn) = mset (sn_actions sn')"
    using arg_cong [OF conjunct2 [OF conjunct2 [OF eq]], of mset] by simp
  ultimately show ?thesis using d(2) d'(2) by simp
qed

definition sample_raw_bar :: "ident \<Rightarrow> date \<Rightarrow> decimal \<Rightarrow> raw_bar" where
  "sample_raw_bar rid d p = \<lparr>rb_vendor_symbol = ''OLD'', rb_session = d, rb_open = p, rb_high = p,
     rb_low = p, rb_close = p, rb_volume = 10, rb_source_record_id = rid,
     rb_available_at = session_close_instant (\<lambda>_. - 18000) d + 3600000000\<rparr>"

definition sample_raw_split :: raw_action where
  "sample_raw_split = \<lparr>ra_vendor_symbol = ''OLD'', ra_kind = Split, ra_effective_session = 102,
     ra_ratio_numerator = Some 2, ra_ratio_denominator = Some 1, ra_cash_amount = None,
     ra_successor_security_id = None, ra_available_at = session_close_instant (\<lambda>_. - 18000) 101,
     ra_source_record_id = ''A1''\<rparr>"

definition sample_payload :: raw_payload where
  "sample_payload = \<lparr>rw_provider = ''vendor'', rw_retrieved_at = None,
     rw_bars = [sample_raw_bar ''B0'' 101 100, sample_raw_bar ''B1'' 102 50, sample_raw_bar ''B2'' 103 51],
     rw_actions = [sample_raw_split], rw_known_exclusions = []\<rparr>"

definition sample_row_hash :: "raw_row \<Rightarrow> ident" where
  "sample_row_hash r = (case r of RawBar b \<Rightarrow> rb_source_record_id b | RawAction a \<Rightarrow> ra_source_record_id a)"

definition sample_digest :: "content \<Rightarrow> ident" where
  "sample_digest x = (case x of (m, b, a) \<Rightarrow> concat (map br_source_record_id b))"

definition sample_snapshot :: dataset_snapshot where
  "sample_snapshot = (case ingest_snapshot sample_row_hash sample_digest sample_payload [sample_master] ''S1'' ''sha'' of
     Inr sn \<Rightarrow> sn | Inl _ \<Rightarrow> undefined)"

lemma sample_ingested:
  "ingest_snapshot sample_row_hash sample_digest sample_payload [sample_master] ''S1'' ''sha'' = Inr sample_snapshot"
proof -
  have "\<not> (case ingest_snapshot sample_row_hash sample_digest sample_payload [sample_master] ''S1'' ''sha'' of
     Inr sn \<Rightarrow> False | Inl _ \<Rightarrow> True)"
    by code_simp
  then show ?thesis by (auto simp: sample_snapshot_def split: sum.splits)
qed

lemma sample_validates: "validate_snapshot sample_snapshot sample_calendar = Inr ()"
  by code_simp

theorem ingested_snapshot_verifies_witness:
  "verify_manifest sample_digest sample_snapshot sample_calendar = Inr ()"
  using ingested_snapshot_verifies [OF sample_ingested, of sample_calendar] sample_validates by simp

theorem accepted_snapshot_sound_witness:
  "distinct (map (\<lambda>b. (br_security_id b, br_session b)) (sn_bars sample_snapshot))
   \<and> length (sn_bars sample_snapshot) = 3"
proof -
  have "length (sn_bars sample_snapshot) = 3" by code_simp
  with accepted_snapshot_sound [OF sample_validates] show ?thesis by blast
qed

theorem manifest_binds_content_witness:
  "mset (sn_bars sample_snapshot) = mset (sn_bars (sample_snapshot\<lparr>sn_bars := rev (sn_bars sample_snapshot)\<rparr>))"
proof -
  let ?sn = "sample_snapshot\<lparr>sn_bars := rev (sn_bars sample_snapshot)\<rparr>"
  have v: "verify_manifest sample_digest ?sn sample_calendar = Inr ()"
    "verify_manifest sample_digest sample_snapshot sample_calendar = Inr ()" by code_simp+
  have "sorted_content (sn_master ?sn) (sn_bars ?sn) (sn_actions ?sn)
      = sorted_content (sn_master sample_snapshot) (sn_bars sample_snapshot) (sn_actions sample_snapshot)"
    by code_simp
  then have "inj_on sample_digest {sorted_content (sn_master ?sn) (sn_bars ?sn) (sn_actions ?sn),
      sorted_content (sn_master sample_snapshot) (sn_bars sample_snapshot) (sn_actions sample_snapshot)}"
    by simp
  from manifest_binds_content [OF v _ this] show ?thesis by simp
qed

end
