(* ===== verification/Authority.thy ===== *)
theory Authority
  imports Snapshots Availability Splitting
begin

text \<open>
  The point-in-time query authority of \<open>data/authority.py\<close> (INV-01): the read gate over one verified
  snapshot. The per-security index, the binary search that answers a visibility query when
  publication follows session order, the universe and the feature rows are modelled as the code
  has them; \<open>known_at t\<close> is the snapshot with everything published after \<open>t\<close> erased, the
  reference against which the absence of look-ahead is stated.
\<close>

subsection \<open>The index\<close>

fun nondecreasing :: "instant list \<Rightarrow> bool" where
  "nondecreasing (a # b # xs) \<longleftrightarrow> a \<le> b \<and> nondecreasing (b # xs)"
| "nondecreasing _ \<longleftrightarrow> True"

record dataset =
  ds_snapshot :: dataset_snapshot
  ds_calendar :: calendar
  ds_universe_id :: ident
  ds_bars_by_security :: "ident \<Rightarrow> (bar_record list \<times> instant list \<times> bool) option"

definition index_bars :: "bar_record list \<Rightarrow> ident \<Rightarrow> (bar_record list \<times> instant list \<times> bool) option" where
  "index_bars bars sid =
     (let mine = filter (\<lambda>b. br_security_id b = sid)
                   (sort_key (\<lambda>b. (br_security_id b, br_session b)) bars);
          available = map br_available_at mine
      in if mine = [] then None else Some (mine, available, nondecreasing available))"

definition open_dataset :: "dataset_snapshot \<Rightarrow> calendar \<Rightarrow> ident \<Rightarrow> dataset" where
  "open_dataset sn c universe_id =
     \<lparr>ds_snapshot = sn, ds_calendar = c, ds_universe_id = universe_id,
      ds_bars_by_security = index_bars (sn_bars sn)\<rparr>"

definition make_dataset ::
  "(content \<Rightarrow> ident) \<Rightarrow> dataset_snapshot \<Rightarrow> calendar \<Rightarrow> ident \<Rightarrow> quality_error + dataset" where
  "make_dataset digest sn c universe_id =
     (case verify_manifest digest sn c of
        Inl e \<Rightarrow> Inl e | Inr _ \<Rightarrow> Inr (open_dataset sn c universe_id))"

subsection \<open>Queries\<close>

text \<open>\<open>bisect_right(a, x)\<close>, between \<open>lo\<close> and \<open>hi\<close>.\<close>

function bisect_right :: "instant list \<Rightarrow> instant \<Rightarrow> nat \<Rightarrow> nat \<Rightarrow> nat" where
  "bisect_right a x lo hi =
     (if lo < hi
      then let mid = (lo + hi) div 2
           in if x < a ! mid then bisect_right a x lo mid else bisect_right a x (mid + 1) hi
      else lo)"
  by pat_completeness auto
termination by (relation "measure (\<lambda>(a, x, lo, hi). hi - lo)") auto

declare bisect_right.simps [simp del]

definition visible_bars :: "dataset \<Rightarrow> ident \<Rightarrow> instant \<Rightarrow> bar_record list" where
  "visible_bars ds sid decision_at =
     (case ds_bars_by_security ds sid of
        None \<Rightarrow> []
      | Some (bars, available, is_monotone) \<Rightarrow>
          if is_monotone then take (bisect_right available decision_at 0 (length available)) bars
          else map fst (filter (\<lambda>(_, at'). at' \<le> decision_at) (zip bars available)))"

definition universe_as_of :: "dataset \<Rightarrow> instant \<Rightarrow> ident list" where
  "universe_as_of ds decision_at =
     sort (map ms_security_id
       (filter (\<lambda>r. listed_on r (instant_date decision_at) (Some decision_at))
          (sn_master (ds_snapshot ds))))"

subsection \<open>Features\<close>

definition momentum_horizons :: "nat list" where "momentum_horizons = [5, 20]"

definition dol_vol_window :: nat where "dol_vol_window = 20"

text \<open>Every bar of a verified snapshot is on a session, so the dict lookup of its ordinal never fails.\<close>

fun consecutive :: "int list \<Rightarrow> bool" where
  "consecutive (a # b # xs) \<longleftrightarrow> b - a = 1 \<and> consecutive (b # xs)"
| "consecutive _ \<longleftrightarrow> True"

definition contiguous_tail :: "calendar \<Rightarrow> bar_record list \<Rightarrow> nat \<Rightarrow> bar_record list option" where
  "contiguous_tail c bars count' =
     (if length bars < count' then None
      else let tail = drop (length bars - count') bars;
               positions = map (\<lambda>b. ord_of c (br_session b)) tail
           in if \<not> consecutive positions then None else Some tail)"

definition feature_of :: "bar_record \<Rightarrow> instant \<Rightarrow> ident \<Rightarrow> ident \<Rightarrow> score \<Rightarrow> feature_event" where
  "feature_of b decision_at provider name x =
     \<lparr>fe_security_id = br_security_id b, fe_feature_name = name, fe_value = x,
      fe_observed_at = br_available_at b, fe_available_at = br_available_at b,
      fe_decision_at = decision_at, fe_source = provider,
      fe_source_record_id = br_source_record_id b, fe_revision_id = ''r0''\<rparr>"

definition v2_features ::
  "bar_record list \<Rightarrow> instant \<Rightarrow> ident \<Rightarrow> calendar \<Rightarrow> feature_event list" where
  "v2_features bars decision_at provider c =
     (let n = length bars;
          ret_1 = (if n \<ge> 2
            then [feature_of (bars ! (n - 1)) decision_at provider ''ret_1''
                    (Exact (br_close (bars ! (n - 1)) / br_close (bars ! (n - 2)) - 1))]
            else []);
          mom_1 = (if n \<ge> 2
            then (case contiguous_tail c bars 2 of None \<Rightarrow> []
                  | Some tail \<Rightarrow> [feature_of (last tail) decision_at provider ''mom_1''
                      (Exact (br_close (last tail) / br_close (tail ! (length tail - 2)) - 1))])
            else []);
          rest = (if bars \<noteq> []
            then [feature_of (last bars) decision_at provider ''dol_vol''
                    (Exact (br_close (last bars) * of_int (br_volume (last bars))))]
                 @ concat (map (\<lambda>horizon. case contiguous_tail c bars (horizon + 1) of None \<Rightarrow> []
                     | Some tail \<Rightarrow> [feature_of (last tail) decision_at provider
                         (''mom_'' @ string_of_nat horizon)
                         (LogOf (br_close (last tail) / br_close (hd tail)))]) momentum_horizons)
                 @ (case contiguous_tail c bars dol_vol_window of None \<Rightarrow> []
                    | Some win \<Rightarrow> [feature_of (last win) decision_at provider ''dol_vol_20''
                        (Exact (sum_list (map (\<lambda>b. br_close b * of_int (br_volume b)) win)
                                / of_nat dol_vol_window))])
            else [])
      in ret_1 @ mom_1 @ rest)"

datatype authority_error = SnapshotIdMismatch | UniverseIdMismatch

definition features_as_of ::
  "dataset \<Rightarrow> instant \<Rightarrow> ident \<Rightarrow> ident \<Rightarrow> authority_error + panel_row list" where
  "features_as_of ds decision_at universe_id snapshot_id =
     (if snapshot_id \<noteq> sn_snapshot_id (ds_snapshot ds) then Inl SnapshotIdMismatch
      else if universe_id \<noteq> ds_universe_id ds then Inl UniverseIdMismatch
      else Inr (concat (map (\<lambda>sid.
             let features = v2_features (visible_bars ds sid decision_at) decision_at
                   (mf_provider (sn_manifest (ds_snapshot ds))) (ds_calendar ds)
             in if features \<noteq> []
                then [\<lparr>pr_security_id = sid, pr_decision_session = instant_date decision_at,
                       pr_features = features, pr_label = None\<rparr>]
                else [])
           (universe_as_of ds decision_at))))"

subsection \<open>The binary search\<close>

lemma nondecreasing_sorted: "nondecreasing xs \<longleftrightarrow> sorted xs"
  by (induction xs rule: nondecreasing.induct) (auto intro: order_trans)

lemma bisect_right_spec:
  "sorted a \<Longrightarrow> lo \<le> hi \<Longrightarrow> hi \<le> length a \<Longrightarrow> \<forall>i < lo. a ! i \<le> x \<Longrightarrow> \<forall>i. hi \<le> i \<and> i < length a \<longrightarrow> x < a ! i \<Longrightarrow>
   bisect_right a x lo hi \<le> length a \<and> (\<forall>i < length a. i < bisect_right a x lo hi \<longleftrightarrow> a ! i \<le> x)"
proof (induction a x lo hi rule: bisect_right.induct)
  case (1 a x lo hi)
  show ?case
  proof (cases "lo < hi")
    case False
    then have "bisect_right a x lo hi = lo" by (subst bisect_right.simps) simp
    then show ?thesis using 1 False by (auto simp: not_le [symmetric])
  next
    case True
    define mid where "mid = (lo + hi) div 2"
    have mid: "lo \<le> mid" "mid < hi" "mid < length a" using True 1 by (auto simp: mid_def)
    show ?thesis
    proof (cases "x < a ! mid")
      case x: True
      then have eq: "bisect_right a x lo hi = bisect_right a x lo mid"
        using True by (subst bisect_right.simps) (simp add: mid_def Let_def)
      have "x < a ! i" if "mid \<le> i" "i < length a" for i
        using x sorted_nth_mono [OF "1.prems"(1) that] by simp
      then show ?thesis unfolding eq
        using "1.IH"(1) [OF True mid_def x] 1 mid by auto
    next
      case x: False
      then have eq: "bisect_right a x lo hi = bisect_right a x (mid + 1) hi"
        using True by (subst bisect_right.simps) (simp add: mid_def Let_def)
      have "a ! i \<le> x" if "i < mid + 1" for i
        using x sorted_nth_mono [OF "1.prems"(1), of i mid] that mid by simp
      then show ?thesis unfolding eq
        using "1.IH"(2) [OF True mid_def x] 1 mid by auto
    qed
  qed
qed

lemma take_as_filter:
  "n \<le> length xs \<Longrightarrow> \<forall>i < length xs. i < n \<longleftrightarrow> P (xs ! i) \<Longrightarrow> take n xs = filter P xs"
proof (induction xs arbitrary: n)
  case (Cons x xs)
  show ?case
  proof (cases n)
    case 0
    have "\<forall>y \<in> set (x # xs). \<not> P y" using Cons.prems(2) 0 by (metis in_set_conv_nth not_less_zero)
    then show ?thesis by (simp add: 0)
  next
    case (Suc m)
    have "P x" using Cons.prems(2) Suc by force
    moreover have "take m xs = filter P xs" using Cons.prems Suc by (intro Cons.IH) force+
    ultimately show ?thesis by (simp add: Suc)
  qed
qed simp

text \<open>The bars of one security, in session order.\<close>

definition security_bars :: "bar_record list \<Rightarrow> ident \<Rightarrow> bar_record list" where
  "security_bars bars sid = filter (\<lambda>b. br_security_id b = sid)
     (sort_key (\<lambda>b. (br_security_id b, br_session b)) bars)"

lemma visible_bars_eq:
  "visible_bars (open_dataset sn c u) sid t = filter (\<lambda>b. br_available_at b \<le> t) (security_bars (sn_bars sn) sid)"
proof (cases "security_bars (sn_bars sn) sid = []")
  case True
  then show ?thesis by (simp add: visible_bars_def open_dataset_def index_bars_def security_bars_def)
next
  case False
  let ?mine = "security_bars (sn_bars sn) sid"
  let ?av = "map br_available_at ?mine"
  have entry: "ds_bars_by_security (open_dataset sn c u) sid = Some (?mine, ?av, nondecreasing ?av)"
    using False by (simp add: open_dataset_def index_bars_def security_bars_def Let_def)
  show ?thesis
  proof (cases "nondecreasing ?av")
    case True
    then have "sorted ?av" by (simp add: nondecreasing_sorted)
    then have b: "bisect_right ?av t 0 (length ?av) \<le> length ?av
        \<and> (\<forall>i < length ?av. i < bisect_right ?av t 0 (length ?av) \<longleftrightarrow> ?av ! i \<le> t)"
      by (rule bisect_right_spec) auto
    then have "take (bisect_right ?av t 0 (length ?av)) ?mine = filter (\<lambda>b. br_available_at b \<le> t) ?mine"
      by (intro take_as_filter) simp_all
    then show ?thesis using True by (simp add: visible_bars_def entry)
  next
    case nm: False
    have "map fst (filter (\<lambda>(_, at'). at' \<le> t) (zip xs (map br_available_at xs)))
        = filter (\<lambda>b. br_available_at b \<le> t) xs" for xs
      by (induction xs) auto
    then show ?thesis using nm by (simp add: visible_bars_def entry)
  qed
qed

subsection \<open>What a decision may see\<close>

definition known_at :: "instant \<Rightarrow> dataset_snapshot \<Rightarrow> dataset_snapshot" where
  "known_at t sn = sn\<lparr>sn_bars := filter (\<lambda>b. br_available_at b \<le> t) (sn_bars sn),
     sn_master := map (redact t) (sn_master sn)\<rparr>"

lemma visible_bars_known_at:
  "visible_bars (open_dataset (known_at t sn) c u) sid t = visible_bars (open_dataset sn c u) sid t"
  by (simp add: visible_bars_eq security_bars_def known_at_def filter_sort [symmetric])
     (auto intro: filter_cong)

lemma listed_on_redact: "listed_on (redact t r) d (Some t) = listed_on r d (Some t)"
  by (auto simp: listed_on_def record_visible_def redact_def Let_def split: option.splits)

lemma redact_id [simp]: "ms_security_id (redact t r) = ms_security_id r"
  by (simp add: redact_def)

lemma universe_known_at:
  "universe_as_of (open_dataset (known_at t sn) c u) t = universe_as_of (open_dataset sn c u) t"
  by (simp add: universe_as_of_def open_dataset_def known_at_def filter_map o_def listed_on_redact)

lemma open_dataset_simps [simp]:
  "ds_snapshot (open_dataset sn c u) = sn" "ds_calendar (open_dataset sn c u) = c"
  "ds_universe_id (open_dataset sn c u) = u"
  by (simp_all add: open_dataset_def)

lemma known_at_simps [simp]:
  "sn_snapshot_id (known_at t sn) = sn_snapshot_id sn" "sn_manifest (known_at t sn) = sn_manifest sn"
  by (simp_all add: known_at_def)

text \<open>Every feature is of a bar of the list it was computed from.\<close>

lemma contiguous_tail_Some:
  assumes "contiguous_tail c bars n = Some tail" and "0 < n"
  shows "last tail \<in> set bars"
proof -
  have t: "tail = drop (length bars - n) bars" "n \<le> length bars"
    using assms(1) by (auto simp: contiguous_tail_def Let_def split: if_splits)
  then have "tail \<noteq> []" using assms(2) by simp
  then have "last tail \<in> set tail" by simp
  then show ?thesis using t(1) by (metis in_set_dropD)
qed

definition derived_from :: "bar_record list \<Rightarrow> instant \<Rightarrow> ident \<Rightarrow> feature_event \<Rightarrow> bool" where
  "derived_from bars t provider f \<longleftrightarrow> (\<exists>b name x. b \<in> set bars \<and> f = feature_of b t provider name x)"

lemma derivedI: "b \<in> set bars \<Longrightarrow> derived_from bars t provider (feature_of b t provider name x)"
  unfolding derived_from_def by blast

lemma derived_tail: "0 < n \<Longrightarrow> list_all (derived_from bars t p) (case contiguous_tail c bars n of None \<Rightarrow> []
     | Some tail \<Rightarrow> [feature_of (last tail) t p name (g tail)])"
  by (cases "contiguous_tail c bars n") (auto intro!: derivedI contiguous_tail_Some)

lemma derived_concat: "(\<And>h. list_all P (g h)) \<Longrightarrow> list_all P (concat (map g hs))"
  by (induction hs) simp_all

lemma derived_v2: "list_all (derived_from bars t p) (v2_features bars t p c)"
proof (cases "bars = []")
  case True
  then show ?thesis by (simp add: v2_features_def)
next
  case False
  have last: "derived_from bars t p (feature_of (last bars) t p name x)" for name x
    using False by (intro derivedI) simp
  have nth: "derived_from bars t p (feature_of (bars ! (length bars - Suc 0)) t p name x)" for name x
    using False by (intro derivedI) simp
  have w: "0 < dol_vol_window" by (simp add: dol_vol_window_def)
  show ?thesis
    unfolding v2_features_def Let_def
    by (intro list_all_append [THEN iffD2] conjI) (simp_all add: False last nth w derived_tail derived_concat)
qed

lemma v2_features_from_bars: "f \<in> set (v2_features bars t provider c) \<Longrightarrow> derived_from bars t provider f"
  using derived_v2 by (auto simp: list_all_iff)

lemma visible_bar:
  "b \<in> set (visible_bars (open_dataset sn c u) sid t) \<Longrightarrow>
   b \<in> set (sn_bars sn) \<and> br_security_id b = sid \<and> br_available_at b \<le> t"
  by (auto simp: visible_bars_eq security_bars_def)

lemma features_row:
  assumes "features_as_of (open_dataset sn c u) t u' s' = Inr rows" and "row \<in> set rows"
  shows "pr_security_id row \<in> set (universe_as_of (open_dataset sn c u) t)"
    and "pr_decision_session row = instant_date t" and "pr_label row = None"
    and "pr_features row \<noteq> []"
    and "f \<in> set (pr_features row) \<Longrightarrow> \<exists>b name x. b \<in> set (sn_bars sn)
       \<and> br_security_id b = pr_security_id row \<and> br_available_at b \<le> t
       \<and> f = feature_of b t (mf_provider (sn_manifest sn)) name x"
proof -
  obtain sid where sid: "sid \<in> set (universe_as_of (open_dataset sn c u) t)"
    and row: "row = \<lparr>pr_security_id = sid, pr_decision_session = instant_date t,
        pr_features = v2_features (visible_bars (open_dataset sn c u) sid t) t
          (mf_provider (sn_manifest sn)) c, pr_label = None\<rparr>"
    and ne: "v2_features (visible_bars (open_dataset sn c u) sid t) t (mf_provider (sn_manifest sn)) c \<noteq> []"
    using assms unfolding features_as_of_def raise_simps Let_def by (auto split: if_splits)
  show "pr_security_id row \<in> set (universe_as_of (open_dataset sn c u) t)"
    "pr_decision_session row = instant_date t" "pr_label row = None" "pr_features row \<noteq> []"
    using sid row ne by simp_all
  show "\<exists>b name x. b \<in> set (sn_bars sn) \<and> br_security_id b = pr_security_id row \<and> br_available_at b \<le> t
       \<and> f = feature_of b t (mf_provider (sn_manifest sn)) name x" if "f \<in> set (pr_features row)"
  proof -
    have "f \<in> set (v2_features (visible_bars (open_dataset sn c u) sid t) t (mf_provider (sn_manifest sn)) c)"
      using that row by simp
    then obtain b name x where "b \<in> set (visible_bars (open_dataset sn c u) sid t)"
        "f = feature_of b t (mf_provider (sn_manifest sn)) name x"
      using v2_features_from_bars unfolding derived_from_def by metis
    then show ?thesis using visible_bar [of b sn c u sid t] row by auto
  qed
qed

lemma close_same_day: "zone_ok off \<Longrightarrow> instant_date (session_close_instant off d) = d
    \<and> instant_date (early_close_instant off d) = d"
proof -
  assume "zone_ok off"
  then have z: "- 18000 \<le> off d" "off d \<le> - 14400" by (auto simp: zone_ok_def)
  have "((d * 86400 + s - off d) * second) div (86400 * second) = d" if "0 \<le> s" "s \<le> 16 * 3600" for s
  proof -
    have "((d * 86400 + s - off d) * second) div (86400 * second) = (d * 86400 + (s - off d)) div 86400"
      by (simp add: second_def algebra_simps)
    also have "\<dots> = d" using z that by simp
    finally show ?thesis .
  qed
  then show ?thesis
    by (simp add: instant_date_def session_close_instant_def early_close_instant_def local_instant_def)
qed

lemma session_close_date: "calendar_ok c \<Longrightarrow> session_close c d = Inr t \<Longrightarrow> instant_date t = d"
  using close_same_day [of "ny_offset c" d] by (auto simp: session_close_Inr calendar_ok_def)

lemma visible_bars_sorted: "sorted (map br_session (visible_bars (open_dataset sn c u) sid t))"
proof -
  let ?k = "\<lambda>b. (br_security_id b, br_session b)"
  have "sorted (map ?k (visible_bars (open_dataset sn c u) sid t))"
    by (simp add: visible_bars_eq security_bars_def sorted_filter)
  moreover have "\<forall>b \<in> set bs. br_security_id b = sid \<Longrightarrow> sorted (map ?k bs) \<Longrightarrow> sorted (map br_session bs)"
    for bs by (induction bs) auto
  moreover have "\<forall>b \<in> set (visible_bars (open_dataset sn c u) sid t). br_security_id b = sid"
    using visible_bar by blast
  ultimately show ?thesis by blast
qed

subsection \<open>Properties\<close>

text \<open>Visibility: the binary search over publication instants and the linear filter answer the
  same. A query returns exactly the bars of the security published by the decision instant, in session
  order, and a later decision sees everything an earlier one saw.\<close>

lemma visible_bars_exact:
  "visible_bars (open_dataset sn c u) sid t
     = filter (\<lambda>b. br_security_id b = sid \<and> br_available_at b \<le> t)
         (sort_key (\<lambda>b. (br_security_id b, br_session b)) (sn_bars sn))
   \<and> sorted (map br_session (visible_bars (open_dataset sn c u) sid t))
   \<and> (\<forall>t'. t \<le> t' \<longrightarrow> visible_bars (open_dataset sn c u) sid t
        = filter (\<lambda>b. br_available_at b \<le> t) (visible_bars (open_dataset sn c u) sid t'))"
  using visible_bars_sorted by (auto simp: visible_bars_eq security_bars_def intro: filter_cong)

definition sample_decision :: "date \<Rightarrow> instant" where
  "sample_decision d = session_close_instant (\<lambda>_. - 18000) d"

theorem visible_bars_exact_witness:
  "map br_source_record_id (visible_bars (open_dataset sample_snapshot sample_calendar ''U'') ''SEC-1'' (sample_decision 103))
     = [''B0'', ''B1'']
   \<and> visible_bars (open_dataset sample_snapshot sample_calendar ''U'') ''SEC-1'' (sample_decision 103)
     = filter (\<lambda>b. br_available_at b \<le> sample_decision 103)
         (visible_bars (open_dataset sample_snapshot sample_calendar ''U'') ''SEC-1'' (sample_decision 104))"
proof
  show "map br_source_record_id (visible_bars (open_dataset sample_snapshot sample_calendar ''U'') ''SEC-1''
      (sample_decision 103)) = [''B0'', ''B1'']" by code_simp
  have "sample_decision 103 \<le> sample_decision 104" by code_simp
  then show "visible_bars (open_dataset sample_snapshot sample_calendar ''U'') ''SEC-1'' (sample_decision 103)
     = filter (\<lambda>b. br_available_at b \<le> sample_decision 103)
         (visible_bars (open_dataset sample_snapshot sample_calendar ''U'') ''SEC-1'' (sample_decision 104))"
    using visible_bars_exact [of sample_snapshot sample_calendar "''U''" "''SEC-1''" "sample_decision 103"] by blast
qed



text \<open>Claim C35. What the authority serves, the availability gate accepts: over a verified snapshot, the
  panel queried at the close of a session passes the audit whole, with no rejection. Its rows are valid
  rows of that session, of securities listed then, and every feature is of a bar of that security, of
  that session or an earlier one, published by the close.\<close>

theorem features_pass_audit:
  assumes "make_dataset digest sn c u = Inr ds" and "calendar_ok c" and "session_close c d = Inr t"
    and "features_as_of ds t u' s' = Inr rows"
  shows "audit_panel c rows = \<lparr>jo_compliant = rows, jo_rejections = []\<rparr>
    \<and> (\<forall>row \<in> set rows. panel_row_ok row \<and> pr_decision_session row = d
         \<and> pr_security_id row \<in> set (universe_as_of ds t)
         \<and> (\<forall>f \<in> set (pr_features row). \<exists>b \<in> set (sn_bars sn). br_security_id b = pr_security_id row
              \<and> br_source_record_id b = fe_source_record_id f \<and> br_available_at b = fe_available_at f
              \<and> br_session b \<le> d \<and> br_available_at b \<le> t))"
proof -
  have ds: "ds = open_dataset sn c u" and "verify_manifest digest sn c = Inr ()"
    using assms(1) by (auto simp: make_dataset_def split: sum.splits)
  then have val: "validate_snapshot sn c = Inr ()" by (simp add: verify_manifest_validates)
  have day: "instant_date t = d" using assms(2,3) by (rule session_close_date)
  have sess: "br_session b \<le> d" if b: "b \<in> set (sn_bars sn)" "br_available_at b \<le> t" for b
  proof -
    obtain k where k: "session_close c (br_session b) = Inr k" "k \<le> br_available_at b"
      using validate_snapshot_Inr(2) [OF val b(1)] by blast
    show ?thesis using static_cal.close_strict_mono [OF assms(2) _ assms(3) k(1)] k(2) b(2) by fastforce
  qed
  note row = features_row [OF assms(4) [unfolded ds]]
  have ok: "verdict c r f = None" if "r \<in> set rows" "f \<in> set (pr_features r)" for r f
    using row(5) [OF that] row(2) [OF that(1)] assms(3) day by (auto simp: verdict_None feature_of_def)
  have none: "row_rejections c r = []" if "r \<in> set rows" for r
    using ok that by (simp add: row_rejections_def)
  have "audit_panel c rows = \<lparr>jo_compliant = rows, jo_rejections = []\<rparr>"
    using ok none by (simp add: audit_panel_def audit_rows_eq list_all_iff filter_id_conv)
  moreover have "panel_row_ok r \<and> pr_decision_session r = d \<and> pr_security_id r \<in> set (universe_as_of ds t)"
    if "r \<in> set rows" for r
  proof -
    have "fe_security_id f = pr_security_id r" if "f \<in> set (pr_features r)" for f
      using row(5) [OF \<open>r \<in> set rows\<close> that] by (auto simp: feature_of_def)
    then show ?thesis using row(1-3) [OF that] day
      by (simp add: ds panel_row_ok_def list_all_iff)
  qed
  moreover have "\<exists>b \<in> set (sn_bars sn). br_security_id b = pr_security_id r
      \<and> br_source_record_id b = fe_source_record_id f \<and> br_available_at b = fe_available_at f
      \<and> br_session b \<le> d \<and> br_available_at b \<le> t" if "r \<in> set rows" "f \<in> set (pr_features r)" for r f
    using row(5) [OF that] sess by (auto simp: feature_of_def)
  ultimately show ?thesis by blast
qed

theorem features_pass_audit_witness:
  "\<exists>rows. features_as_of (open_dataset sample_snapshot sample_calendar ''U'') (sample_decision 103) ''U'' ''S1'' = Inr rows
     \<and> jo_rejections (audit_panel sample_calendar rows) = [] \<and> length rows = 1"
proof -
  have "verify_manifest sample_digest sample_snapshot sample_calendar = Inr ()" by code_simp
  then have ds: "make_dataset sample_digest sample_snapshot sample_calendar ''U''
      = Inr (open_dataset sample_snapshot sample_calendar ''U'')" by (simp add: make_dataset_def)
  have close: "session_close sample_calendar 103 = Inr (sample_decision 103)" by code_simp
  have "\<not> (case features_as_of (open_dataset sample_snapshot sample_calendar ''U'') (sample_decision 103) ''U'' ''S1'' of
      Inr rows \<Rightarrow> length rows \<noteq> 1 | Inl _ \<Rightarrow> True)" by code_simp
  then obtain rows where r: "features_as_of (open_dataset sample_snapshot sample_calendar ''U'') (sample_decision 103) ''U'' ''S1''
      = Inr rows" "length rows = 1" by (auto split: sum.splits)
  from features_pass_audit [OF ds sample_calendar_ok close r(1)] r show ?thesis by simp
qed

end
