(* ===== verification/Labels.thy ===== *)
theory Labels
  imports Authority
begin

text \<open>
  Forward-return labels of \<open>labels/build.py\<close>: for every decision session and every security of the
  point-in-time universe, the total return from the last bar visible at the decision to the bar
  \<open>horizon\<close> sessions later, adjusted for splits and dividends in between. The loops are the code's:
  one per security, one per decision date with a visibility pointer that only moves forward, one over
  the adjustments in effective order. The value is \<open>LogOf\<close> the wealth ratio, unrounded.
\<close>

datatype label_error =
    HorizonBelowOne | NotADecisionSession | VisibilityNotMonotone | RatioMissing | CashMissing

definition ratio_kinds :: "action_kind set" where
  "ratio_kinds = {Split, ReverseSplit, StockDividend}"

definition eventual :: instant where "eventual = 84006 * 86400 * second"

text \<open>The outcome-side adjustments of one security: effective ordinal and action.\<close>

definition adjustments_of :: "calendar \<Rightarrow> corporate_action list \<Rightarrow> ident \<Rightarrow> (int \<times> corporate_action) list" where
  "adjustments_of c actions sid =
     map (\<lambda>a. (ord_of c (ca_effective_session a), a))
       (filter (\<lambda>a. (ca_kind a \<in> ratio_kinds \<or> ca_kind a = CashDividend)
                    \<and> is_session c (ca_effective_session a) \<and> ca_security_id a = sid) actions)"

record adjustment =
  aj_ratio :: decimal
  aj_cash :: decimal
  aj_ids :: "ident list"
  aj_latest :: instant

definition adjustment_key :: "int \<times> corporate_action \<Rightarrow> int \<times> int" where
  "adjustment_key p = (fst p, if ca_kind (snd p) \<in> ratio_kinds then 0 else 1)"

fun adjust_loop ::
  "int \<Rightarrow> int \<Rightarrow> (int \<times> corporate_action) list \<Rightarrow> adjustment \<Rightarrow> label_error + adjustment" where
  "adjust_loop base_ord end_ord [] j = Inr j"
| "adjust_loop base_ord end_ord ((o', a) # rest) j =
     (if base_ord < o' \<and> o' \<le> end_ord
      then let j1 = j\<lparr>aj_ids := aj_ids j @ [ca_source_record_id a],
                      aj_latest := (if ca_available_at a > aj_latest j then ca_available_at a
                                    else aj_latest j)\<rparr>
           in if ca_kind a \<in> ratio_kinds
              then (case (ca_ratio_numerator a, ca_ratio_denominator a) of
                  (Some n, Some d) \<Rightarrow> adjust_loop base_ord end_ord rest
                     (j1\<lparr>aj_ratio := aj_ratio j1 * (of_int n / of_int d)\<rparr>)
                | _ \<Rightarrow> Inl RatioMissing)
              else (case ca_cash_amount a of
                  None \<Rightarrow> Inl CashMissing
                | Some x \<Rightarrow> adjust_loop base_ord end_ord rest
                     (j1\<lparr>aj_cash := aj_cash j1 + x * aj_ratio j1\<rparr>))
      else adjust_loop base_ord end_ord rest j)"

text \<open>\<open>while visible_upto < len(bars) and bars[visible_upto].available_at <= decision_at\<close>.\<close>

function advance :: "bar_record list \<Rightarrow> instant \<Rightarrow> nat \<Rightarrow> nat" where
  "advance bars t n =
     (if n < length bars \<and> br_available_at (bars ! n) \<le> t then advance bars t (n + 1) else n)"
  by pat_completeness auto
termination by (relation "measure (\<lambda>(bars, t, n). length bars - n)") auto

declare advance.simps [simp del]

definition bar_at :: "calendar \<Rightarrow> bar_record list \<Rightarrow> int \<Rightarrow> bar_record option" where
  "bar_at c bars o' = (case filter (\<lambda>b. ord_of c (br_session b) = o') (rev bars) of
      [] \<Rightarrow> None | b # _ \<Rightarrow> Some b)"

text \<open>One decision date: \<open>Inr None\<close> is a \<open>continue\<close>.\<close>

definition label_at ::
  "calendar \<Rightarrow> int \<Rightarrow> bar_record list \<Rightarrow> (int \<times> corporate_action) list \<Rightarrow> ident \<Rightarrow> date \<Rightarrow> nat
   \<Rightarrow> label_error + label_event option" where
  "label_at c horizon bars adjustments sid d visible_upto =
     (if visible_upto = 0 then Inr None
      else let base = bars ! (visible_upto - 1);
               base_ord = ord_of c (br_session base)
           in if base_ord + 1 \<noteq> ord_of c d then Inr None
              else let end_ord = base_ord + horizon
                   in if end_ord \<ge> int (length (cal_sessions c)) then Inr None
                      else if list_ex (\<lambda>o'. bar_at c bars o' = None) [base_ord + 1..end_ord] then Inr None
                      else let end' = the (bar_at c bars end_ord)
                           in case adjust_loop base_ord end_ord (sort_key adjustment_key adjustments)
                                     \<lparr>aj_ratio = 1, aj_cash = 0, aj_ids = [],
                                      aj_latest = br_available_at end'\<rparr> of
                               Inl e \<Rightarrow> Inl e
                             | Inr j \<Rightarrow>
                                 let wealth = (br_close end' * aj_ratio j + aj_cash j) / br_close base
                                 in Inr (Some
                                   \<lparr>la_security_id = sid, la_decision_session = d,
                                    la_horizon_sessions = horizon,
                                    la_label_window = (cal_sessions c ! nat (base_ord + 1),
                                                       cal_sessions c ! nat end_ord),
                                    la_value = LogOf wealth, la_observed_at = aj_latest j,
                                    la_source = br_source end',
                                    la_source_record_id = br_source_record_id end',
                                    la_adjustment_ids = sort (aj_ids j)\<rparr>))"

fun label_dates ::
  "calendar \<Rightarrow> int \<Rightarrow> dataset \<Rightarrow> bar_record list \<Rightarrow> (int \<times> corporate_action) list \<Rightarrow> ident
   \<Rightarrow> date list \<Rightarrow> nat \<Rightarrow> label_event list \<Rightarrow> label_error + label_event list" where
  "label_dates c horizon ds bars adjustments sid [] visible_upto labels = Inr labels"
| "label_dates c horizon ds bars adjustments sid (d # dates) visible_upto labels =
     (case session_close c d of
        Inl _ \<Rightarrow> Inl NotADecisionSession
      | Inr decision_at \<Rightarrow>
          if sid \<notin> set (universe_as_of ds decision_at)
          then label_dates c horizon ds bars adjustments sid dates visible_upto labels
          else let upto = advance bars decision_at visible_upto
               in case label_at c horizon bars adjustments sid d upto of
                   Inl e \<Rightarrow> Inl e
                 | Inr None \<Rightarrow> label_dates c horizon ds bars adjustments sid dates upto labels
                 | Inr (Some l) \<Rightarrow>
                     label_dates c horizon ds bars adjustments sid dates upto (labels @ [l]))"

fun label_securities ::
  "calendar \<Rightarrow> int \<Rightarrow> dataset \<Rightarrow> date list \<Rightarrow> ident list \<Rightarrow> label_event list
   \<Rightarrow> label_error + label_event list" where
  "label_securities c horizon ds dates [] labels = Inr labels"
| "label_securities c horizon ds dates (sid # sids) labels =
     (let bars = visible_bars ds sid eventual
      in if bars = [] then label_securities c horizon ds dates sids labels
         else if \<not> nondecreasing (map br_available_at bars) then Inl VisibilityNotMonotone
         else case label_dates c horizon ds bars (adjustments_of c (sn_actions (ds_snapshot ds)) sid)
                     sid dates 0 labels of
             Inl e \<Rightarrow> Inl e
           | Inr labels' \<Rightarrow> label_securities c horizon ds dates sids labels')"

definition build_labels ::
  "dataset \<Rightarrow> calendar \<Rightarrow> int \<Rightarrow> date list \<Rightarrow> label_error + label_event list" where
  "build_labels ds c horizon decision_sessions =
     (if horizon < 1 then Inl HorizonBelowOne
      else let dates = sort (remdups decision_sessions)
           in if list_ex (\<lambda>d. \<not> is_session c d) dates then Inl NotADecisionSession
              else let closes = map (\<lambda>d. case session_close c d of Inr t \<Rightarrow> t | Inl _ \<Rightarrow> 0) dates;
                       securities = sort (remdups (concat (map (universe_as_of ds) closes)))
                   in label_securities c horizon ds dates securities [])"

subsection \<open>The visibility pointer\<close>

lemma advance_spec:
  "sorted (map br_available_at bars) \<Longrightarrow> n \<le> length bars \<Longrightarrow> \<forall>i < n. br_available_at (bars ! i) \<le> t \<Longrightarrow>
   advance bars t n \<le> length bars
   \<and> (\<forall>i < length bars. i < advance bars t n \<longleftrightarrow> br_available_at (bars ! i) \<le> t)"
proof (induction bars t n rule: advance.induct)
  case (1 bars t n)
  show ?case
  proof (cases "n < length bars \<and> br_available_at (bars ! n) \<le> t")
    case True
    then have eq: "advance bars t n = advance bars t (n + 1)" by (subst advance.simps) simp
    show ?thesis unfolding eq using "1.IH" [OF True] "1.prems" True by (auto simp: less_Suc_eq)
  next
    case False
    have eq: "advance bars t n = n" using False by (subst advance.simps) auto
    have "t < br_available_at (bars ! i)" if "n \<le> i" "i < length bars" for i
      using False sorted_nth_mono [OF "1.prems"(1), of n i] that by simp
    then show ?thesis unfolding eq using "1.prems" by (auto simp: not_le [symmetric])
  qed
qed

subsection \<open>The adjustments in closed form\<close>

definition in_window :: "int \<Rightarrow> int \<Rightarrow> int \<times> corporate_action \<Rightarrow> bool" where
  "in_window b e p \<longleftrightarrow> b < fst p \<and> fst p \<le> e"

definition is_ratio :: "int \<times> corporate_action \<Rightarrow> bool" where
  "is_ratio p \<longleftrightarrow> ca_kind (snd p) \<in> ratio_kinds"

definition ratio_of :: "int \<times> corporate_action \<Rightarrow> decimal" where
  "ratio_of p = of_int (the (ca_ratio_numerator (snd p))) / of_int (the (ca_ratio_denominator (snd p)))"

definition cash_of :: "int \<times> corporate_action \<Rightarrow> decimal" where
  "cash_of p = the (ca_cash_amount (snd p))"

text \<open>The share multiplier of the ratio events among \<open>xs\<close> effective up to ordinal \<open>u\<close>.\<close>

definition share_factor :: "int \<Rightarrow> (int \<times> corporate_action) list \<Rightarrow> decimal" where
  "share_factor u xs = prod_list (map ratio_of (filter (\<lambda>p. is_ratio p \<and> fst p \<le> u) xs))"

definition dividends :: "(int \<times> corporate_action) list \<Rightarrow> decimal" where
  "dividends xs = sum_list (map (\<lambda>p. cash_of p * share_factor (fst p) xs) (filter (\<lambda>p. \<not> is_ratio p) xs))"

lemma share_factor_Nil [simp]: "share_factor u [] = 1"
  by (simp add: share_factor_def)

lemma share_factor_Cons: "share_factor u (h # t) =
    (if is_ratio h \<and> fst h \<le> u then ratio_of h * share_factor u t else share_factor u t)"
  by (simp add: share_factor_def)

lemma dividends_ratio:
  assumes "sorted (map adjustment_key (h # t))" and "is_ratio h"
  shows "dividends (h # t) = ratio_of h * dividends t"
proof -
  have "fst h \<le> fst p" if "p \<in> set t" for p
    using assms(1) that by (auto simp: adjustment_key_def)
  then have eq: "map (\<lambda>p. cash_of p * share_factor (fst p) (h # t)) (filter (\<lambda>p. \<not> is_ratio p) t)
      = map (\<lambda>p. ratio_of h * (cash_of p * share_factor (fst p) t)) (filter (\<lambda>p. \<not> is_ratio p) t)"
    using assms(2) by (auto simp: share_factor_Cons)
  have "dividends (h # t)
      = sum_list (map (\<lambda>p. cash_of p * share_factor (fst p) (h # t)) (filter (\<lambda>p. \<not> is_ratio p) t))"
    using assms(2) by (simp add: dividends_def)
  also have "\<dots> = ratio_of h * dividends t" unfolding eq by (simp add: dividends_def sum_list_const_mult)
  finally show ?thesis .
qed

lemma dividends_cash:
  assumes "sorted (map adjustment_key (h # t))" and "\<not> is_ratio h"
  shows "dividends (h # t) = cash_of h + dividends t"
proof -
  have "\<not> (is_ratio p \<and> fst p \<le> fst h)" if "p \<in> set t" for p
    using assms that by (auto simp: adjustment_key_def is_ratio_def)
  then have "share_factor (fst h) t = 1" by (simp add: share_factor_def filter_False)
  then show ?thesis using assms(2) by (simp add: dividends_def share_factor_Cons)
qed

definition latest_of :: "instant \<Rightarrow> (int \<times> corporate_action) list \<Rightarrow> instant" where
  "latest_of t xs = fold max (map (ca_available_at \<circ> snd) xs) t"

lemma adjust_loop_Inr:
  "sorted (map adjustment_key xs) \<Longrightarrow> adjust_loop b e xs j = Inr j' \<Longrightarrow> ws = filter (in_window b e) xs \<Longrightarrow>
   aj_ratio j' = aj_ratio j * prod_list (map ratio_of (filter is_ratio ws))
   \<and> aj_cash j' = aj_cash j + aj_ratio j * dividends ws
   \<and> aj_ids j' = aj_ids j @ map (ca_source_record_id \<circ> snd) ws
   \<and> aj_latest j' = latest_of (aj_latest j) ws"
proof (induction xs arbitrary: j ws)
  case Nil
  then show ?case by (simp add: dividends_def latest_of_def)
next
  case (Cons p xs)
  obtain o' a where p: "p = (o', a)" by (cases p)
  have srt: "sorted (map adjustment_key xs)" using Cons.prems(1) by simp
  show ?case
  proof (cases "in_window b e p")
    case False
    then have "adjust_loop b e xs j = Inr j'" using Cons.prems(2) by (auto simp: p in_window_def)
    with Cons.IH [OF srt this refl] Cons.prems(3) False show ?thesis by simp
  next
    case True
    let ?ws = "filter (in_window b e) xs"
    let ?j1 = "j\<lparr>aj_ids := aj_ids j @ [ca_source_record_id a], aj_latest := max (ca_available_at a) (aj_latest j)\<rparr>"
    have j1: "j\<lparr>aj_ids := aj_ids j @ [ca_source_record_id a],
        aj_latest := (if ca_available_at a > aj_latest j then ca_available_at a else aj_latest j)\<rparr> = ?j1"
      by (simp add: max_def)
    have ws: "ws = p # ?ws" using Cons.prems(3) True by simp
    have sw: "sorted (map adjustment_key (p # ?ws))"
      using Cons.prems(1) by (auto simp: sorted_filter)
    show ?thesis
    proof (cases "is_ratio p")
      case r: True
      then obtain n d where nd: "ca_ratio_numerator a = Some n" "ca_ratio_denominator a = Some d"
        and rest: "adjust_loop b e xs (?j1\<lparr>aj_ratio := aj_ratio j * (of_int n / of_int d)\<rparr>) = Inr j'"
        using Cons.prems(2) True unfolding p adjust_loop.simps Let_def j1
        by (auto simp: in_window_def is_ratio_def split: option.splits)
      from Cons.IH [OF srt rest refl] r nd dividends_ratio [OF sw r] show ?thesis
        by (simp add: ws p ratio_of_def latest_of_def)
    next
      case r: False
      then obtain x where x: "ca_cash_amount a = Some x"
        and rest: "adjust_loop b e xs (?j1\<lparr>aj_cash := aj_cash j + x * aj_ratio j\<rparr>) = Inr j'"
        using Cons.prems(2) True unfolding p adjust_loop.simps Let_def j1
        by (auto simp: in_window_def is_ratio_def split: option.splits)
      from Cons.IH [OF srt rest refl] r x dividends_cash [OF sw r] show ?thesis
        by (simp add: ws p cash_of_def latest_of_def algebra_simps)
    qed
  qed
qed

text \<open>The closed form does not see the order of the actions.\<close>

lemma prod_list_mset: "mset xs = mset ys \<Longrightarrow> prod_list xs = prod_list (ys :: 'a::comm_monoid_mult list)"
  by (metis prod_mset_prod_list)

lemma sum_list_mset: "mset xs = mset ys \<Longrightarrow> sum_list xs = sum_list (ys :: 'a::comm_monoid_add list)"
  by (metis sum_mset_sum_list)

lemma share_factor_mset: "mset xs = mset ys \<Longrightarrow> share_factor u xs = share_factor u ys"
  unfolding share_factor_def by (rule prod_list_mset) simp

lemma dividends_mset: "mset xs = mset ys \<Longrightarrow> dividends xs = dividends ys"
proof -
  assume m: "mset xs = mset ys"
  have "dividends xs = sum_list (map (\<lambda>p. cash_of p * share_factor (fst p) ys) (filter (\<lambda>p. \<not> is_ratio p) xs))"
    unfolding dividends_def using share_factor_mset [OF m] by simp
  also have "\<dots> = dividends ys"
    unfolding dividends_def by (rule sum_list_mset) (simp add: m)
  finally show ?thesis .
qed

lemma latest_of_Max: "latest_of t xs = Max (set (t # map (ca_available_at \<circ> snd) xs))"
  unfolding latest_of_def by (simp only: Max.set_eq_fold)

lemma latest_of_mset: "mset xs = mset ys \<Longrightarrow> latest_of t xs = latest_of t ys"
  unfolding latest_of_Max by (metis list.simps(15) mset_eq_setD mset_map)

lemma latest_of_ge: "t \<le> latest_of t xs"
  unfolding latest_of_Max by simp

subsection \<open>Where a label comes from\<close>

definition label_from ::
  "calendar \<Rightarrow> int \<Rightarrow> dataset \<Rightarrow> bar_record list \<Rightarrow> (int \<times> corporate_action) list \<Rightarrow> ident \<Rightarrow> date list
   \<Rightarrow> label_event \<Rightarrow> bool" where
  "label_from c h ds bars adj sid dates l \<longleftrightarrow> (\<exists>d \<in> set dates. \<exists>t n. session_close c d = Inr t
     \<and> sid \<in> set (universe_as_of ds t) \<and> n \<le> length bars
     \<and> (\<forall>i < length bars. i < n \<longleftrightarrow> br_available_at (bars ! i) \<le> t)
     \<and> label_at c h bars adj sid d n = Inr (Some l))"

lemma close_mono: "calendar_ok c \<Longrightarrow> d \<le> d' \<Longrightarrow> session_close c d = Inr t \<Longrightarrow> session_close c d' = Inr t' \<Longrightarrow> t \<le> t'"
  using static_cal.close_strict_mono [of c d d' t t'] by (cases "d = d'") fastforce+

lemma label_dates_from:
  assumes "calendar_ok c" and "sorted (map br_available_at bars)"
    and "label_dates c h ds bars adj sid dates n labels = Inr ls" and "sorted dates" and "n \<le> length bars"
    and "\<forall>i < n. \<forall>d \<in> set dates. \<forall>t. session_close c d = Inr t \<longrightarrow> br_available_at (bars ! i) \<le> t"
  shows "l \<in> set ls \<Longrightarrow> l \<in> set labels \<or> label_from c h ds bars adj sid dates l"
  using assms(3-6)
proof (induction dates arbitrary: n labels)
  case (Cons d dates)
  obtain t where t: "session_close c d = Inr t" using Cons.prems(2) by (auto split: sum.splits)
  have weaken: "label_from c h ds bars adj sid dates l \<Longrightarrow> label_from c h ds bars adj sid (d # dates) l"
    by (auto simp: label_from_def)
  show ?case
  proof (cases "sid \<in> set (universe_as_of ds t)")
    case False
    then have "label_dates c h ds bars adj sid dates n labels = Inr ls" using Cons.prems(2) t by simp
    then have "l \<in> set labels \<or> label_from c h ds bars adj sid dates l"
      using Cons.prems by (intro Cons.IH [of n labels]) auto
    with weaken show ?thesis by blast
  next
    case True
    define m where "m = advance bars t n"
    have m: "m \<le> length bars" "\<forall>i < length bars. i < m \<longleftrightarrow> br_available_at (bars ! i) \<le> t"
      using advance_spec [OF assms(2) Cons.prems(4), of t] Cons.prems(5) t by (auto simp: m_def)
    have later: "\<forall>i < m. \<forall>d' \<in> set dates. \<forall>t'. session_close c d' = Inr t' \<longrightarrow> br_available_at (bars ! i) \<le> t'"
    proof (intro allI ballI impI)
      fix i :: nat and d' t' assume "i < m" "d' \<in> set dates" "session_close c d' = Inr t'"
      then have "t \<le> t'" using close_mono [OF assms(1) _ t, of d' t'] Cons.prems(3) by simp
      moreover have "i < length bars" using m(1) \<open>i < m\<close> by linarith
      then have "br_available_at (bars ! i) \<le> t" using m(2) \<open>i < m\<close> by blast
      ultimately show "br_available_at (bars ! i) \<le> t'" by simp
    qed
    obtain r where r: "label_at c h bars adj sid d m = Inr r"
      using Cons.prems(2) t True by (auto simp: m_def Let_def split: sum.splits)
    have rest: "label_dates c h ds bars adj sid dates m (labels @ (case r of None \<Rightarrow> [] | Some x \<Rightarrow> [x])) = Inr ls"
      using Cons.prems(2) t True r by (cases r) (simp_all add: m_def Let_def)
    have "l \<in> set (labels @ (case r of None \<Rightarrow> [] | Some x \<Rightarrow> [x])) \<or> label_from c h ds bars adj sid dates l"
      using Cons.IH [OF Cons.prems(1) rest] Cons.prems(3) m(1) later by simp
    moreover have "label_from c h ds bars adj sid (d # dates) l" if "r = Some l"
      using t True m r that unfolding label_from_def by auto
    ultimately show ?thesis using weaken by (cases r) auto
  qed
qed simp

lemma label_securities_from:
  assumes "calendar_ok c" and "sorted dates"
  shows "label_securities c h ds dates sids labels = Inr ls \<Longrightarrow> l \<in> set ls \<Longrightarrow>
    l \<in> set labels \<or> (\<exists>sid. sorted (map br_available_at (visible_bars ds sid eventual))
      \<and> label_from c h ds (visible_bars ds sid eventual)
            (adjustments_of c (sn_actions (ds_snapshot ds)) sid) sid dates l)"
proof (induction sids arbitrary: labels)
  case (Cons sid sids)
  let ?bars = "visible_bars ds sid eventual"
  let ?adj = "adjustments_of c (sn_actions (ds_snapshot ds)) sid"
  show ?case
  proof (cases "?bars = []")
    case True
    then show ?thesis using Cons by (simp add: Let_def)
  next
    case False
    then obtain ls1 where m: "sorted (map br_available_at ?bars)"
      and ls1: "label_dates c h ds ?bars ?adj sid dates 0 labels = Inr ls1"
      and rest: "label_securities c h ds dates sids ls1 = Inr ls"
      using Cons.prems(1) by (auto simp: Let_def nondecreasing_sorted split: sum.splits if_splits)
    show ?thesis using Cons.IH [OF rest Cons.prems(2)] label_dates_from [OF assms(1) m ls1 assms(2)] m by auto
  qed
qed simp

lemma build_labels_from:
  assumes "calendar_ok c" and "build_labels ds c h dd = Inr ls" and "l \<in> set ls"
  shows "1 \<le> h \<and> (\<exists>sid. sorted (map br_available_at (visible_bars ds sid eventual))
      \<and> label_from c h ds (visible_bars ds sid eventual)
            (adjustments_of c (sn_actions (ds_snapshot ds)) sid) sid (sort (remdups dd)) l)"
proof -
  obtain sids where h: "1 \<le> h" and l: "label_securities c h ds (sort (remdups dd)) sids [] = Inr ls"
    using assms(2) by (auto simp: build_labels_def Let_def split: if_splits)
  from label_securities_from [OF assms(1) _ l assms(3)] show ?thesis using h by simp
qed

subsection \<open>Properties\<close>

lemma ord_of_session: "calendar_ok c \<Longrightarrow> is_session c d \<Longrightarrow>
    0 \<le> ord_of c d \<and> ord_of c d < int (length (cal_sessions c)) \<and> cal_sessions c ! nat (ord_of c d) = d"
proof -
  assume c: "calendar_ok c" and "is_session c d"
  then obtain i where i: "ordinal c d = Inr i" using session_ordinal by blast
  then have "ord_of c d = int i" by (simp add: ord_of_def)
  then show ?thesis using i ordinal_Inr_iff [OF c, of d i] by simp
qed

lemma ord_of_less: "calendar_ok c \<Longrightarrow> is_session c d \<Longrightarrow> is_session c d' \<Longrightarrow>
    ord_of c d < ord_of c d' \<longleftrightarrow> d < d'"
  using session_ordinal [of c d] session_ordinal [of c d'] static_cal.ordinal_strict_mono [of c d _ d']
  by (auto simp: ord_of_def)

lemma bar_at_Some:
  assumes "bar_at c bars o' = Some b"
  shows "b \<in> set bars \<and> ord_of c (br_session b) = o'"
proof -
  obtain bs where eq: "filter (\<lambda>b. ord_of c (br_session b) = o') (rev bars) = b # bs"
    using assms by (auto simp: bar_at_def split: list.splits)
  have "b \<in> set (filter (\<lambda>b. ord_of c (br_session b) = o') (rev bars))" unfolding eq by simp
  then show ?thesis by auto
qed

text \<open>The bar of a later session than the last visible one is not visible yet.\<close>

lemma later_bar_hidden:
  assumes "sorted (map br_session bars)" and "0 < n" and "n \<le> length bars"
    and "\<forall>i < length bars. i < n \<longleftrightarrow> br_available_at (bars ! i) \<le> t"
    and "b \<in> set bars" and "br_session (bars ! (n - 1)) < br_session b"
  shows "t < br_available_at b"
proof -
  obtain k where k: "k < length bars" "bars ! k = b" using assms(5) by (auto simp: in_set_conv_nth)
  have "n \<le> k"
  proof (rule ccontr)
    assume "\<not> n \<le> k"
    then have "br_session (bars ! k) \<le> br_session (bars ! (n - 1))"
      using sorted_nth_mono [OF assms(1), of k "n - 1"] assms(3) k by simp
    then show False using assms(6) k by simp
  qed
  then show ?thesis using assms(4) k by fastforce
qed

lemma adjusted_label:
  assumes "adjust_loop b e (sort_key adjustment_key adj)
      \<lparr>aj_ratio = 1, aj_cash = 0, aj_ids = [], aj_latest = t\<rparr> = Inr j"
    and "ws = filter (in_window b e) adj"
  shows "aj_ratio j = share_factor e ws" and "aj_cash j = dividends ws"
    and "aj_latest j = latest_of t ws"
    and "sort (aj_ids j) = sort (map (ca_source_record_id \<circ> snd) ws)"
proof -
  let ?ws = "filter (in_window b e) (sort_key adjustment_key adj)"
  have m: "mset ?ws = mset ws" using assms(2) by simp
  have s: "sorted (map adjustment_key (sort_key adjustment_key adj))" by simp
  note r = adjust_loop_Inr [OF s assms(1) refl]
  have "filter (\<lambda>p. is_ratio p \<and> fst p \<le> e) ?ws = filter is_ratio ?ws"
    by (rule filter_cong) (auto simp: in_window_def)
  then have "prod_list (map ratio_of (filter is_ratio ?ws)) = share_factor e ?ws"
    by (simp add: share_factor_def)
  then show "aj_ratio j = share_factor e ws" using r share_factor_mset [OF m] by simp
  show "aj_cash j = dividends ws" using r dividends_mset [OF m] by simp
  show "aj_latest j = latest_of t ws" using r latest_of_mset [OF m] by simp
  have "mset (map (ca_source_record_id \<circ> snd) ?ws) = mset (map (ca_source_record_id \<circ> snd) ws)"
    unfolding mset_map using m by simp
  then show "sort (aj_ids j) = sort (map (ca_source_record_id \<circ> snd) ws)"
    using r by (auto intro!: properties_for_sort [symmetric])
qed

text \<open>What a label at one decision date is made of.\<close>

lemma label_at_Some:
  assumes "label_at c h bars adj sid d n = Inr (Some l)" and "base = bars ! (n - 1)"
    and "b = ord_of c (br_session base)" and "ws = filter (in_window b (b + h)) adj"
  obtains end' where "0 < n" and "b + 1 = ord_of c d" and "b + h < int (length (cal_sessions c))"
    and "\<forall>o' \<in> {b + 1..b + h}. bar_at c bars o' \<noteq> None" and "bar_at c bars (b + h) = Some end'"
    and "la_security_id l = sid" and "la_decision_session l = d" and "la_horizon_sessions l = h"
    and "la_label_window l = (cal_sessions c ! nat (b + 1), cal_sessions c ! nat (b + h))"
    and "la_value l = LogOf ((br_close end' * share_factor (b + h) ws + dividends ws) / br_close base)"
    and "la_observed_at l = latest_of (br_available_at end') ws"
  | "h < 1"
proof (cases "h < 1")
  case False
  note g = assms(1) [unfolded label_at_def Let_def, folded assms(2), folded assms(3)]
  have n: "n \<noteq> 0" "b + 1 = ord_of c d" "\<not> b + h \<ge> int (length (cal_sessions c))"
    "\<not> list_ex (\<lambda>o'. bar_at c bars o' = None) [b + 1..b + h]"
    using g by (auto split: if_splits)
  then have window: "\<forall>o' \<in> {b + 1..b + h}. bar_at c bars o' \<noteq> None" by (auto simp: list_ex_iff)
  then obtain end' where e: "bar_at c bars (b + h) = Some end'" using False by force
  from g n obtain j where j: "adjust_loop b (b + h) (sort_key adjustment_key adj)
      \<lparr>aj_ratio = 1, aj_cash = 0, aj_ids = [], aj_latest = br_available_at end'\<rparr> = Inr j"
    and l: "l = \<lparr>la_security_id = sid, la_decision_session = d, la_horizon_sessions = h,
      la_label_window = (cal_sessions c ! nat (b + 1), cal_sessions c ! nat (b + h)),
      la_value = LogOf ((br_close end' * aj_ratio j + aj_cash j) / br_close base),
      la_observed_at = aj_latest j, la_source = br_source end',
      la_source_record_id = br_source_record_id end', la_adjustment_ids = sort (aj_ids j)\<rparr>"
    by (auto simp: e split: if_splits sum.splits)
  note a = adjusted_label [OF j assms(4)]
  show thesis
    by (rule that(1) [of end']) (use n window e l a in auto)
qed (rule that(2))

lemma label_anatomy:
  assumes "make_dataset digest sn c u = Inr ds" and "calendar_ok c"
    and "build_labels ds c h dd = Inr ls" and "l \<in> set ls"
  shows "\<exists>t base end' ws. session_close c (la_decision_session l) = Inr t
    \<and> la_decision_session l \<in> set dd \<and> la_security_id l \<in> set (universe_as_of ds t)
    \<and> base \<in> set (sn_bars sn) \<and> br_security_id base = la_security_id l \<and> br_available_at base \<le> t
    \<and> ord_of c (br_session base) + 1 = ord_of c (la_decision_session l)
    \<and> (\<forall>i \<in> {ord_of c (la_decision_session l)..ord_of c (br_session base) + h}.
         \<exists>b \<in> set (sn_bars sn). br_security_id b = la_security_id l \<and> ord_of c (br_session b) = i
            \<and> t < br_available_at b)
    \<and> end' \<in> set (sn_bars sn) \<and> ord_of c (br_session end') = ord_of c (br_session base) + h
    \<and> la_label_window l = (la_decision_session l, br_session end') \<and> t < la_observed_at l
    \<and> ws = filter (in_window (ord_of c (br_session base)) (ord_of c (br_session base) + h))
          (adjustments_of c (sn_actions sn) (la_security_id l))
    \<and> la_value l = LogOf ((br_close end' * share_factor (ord_of c (br_session base) + h) ws + dividends ws)
          / br_close base)"
proof -
  have ds: "ds = open_dataset sn c u" and "verify_manifest digest sn c = Inr ()"
    using assms(1) by (auto simp: make_dataset_def split: sum.splits)
  then have val: "validate_snapshot sn c = Inr ()" by (simp add: verify_manifest_validates)
  obtain sid where h: "1 \<le> h" and from': "label_from c h ds (visible_bars ds sid eventual)
      (adjustments_of c (sn_actions sn) sid) sid (sort (remdups dd)) l"
    using build_labels_from [OF assms(2-4)] by (auto simp: ds)
  define bars where "bars = visible_bars ds sid eventual"
  obtain d t n where d: "d \<in> set dd" "session_close c d = Inr t" "sid \<in> set (universe_as_of ds t)"
    "n \<le> length bars" and vis: "\<forall>i < length bars. i < n \<longleftrightarrow> br_available_at (bars ! i) \<le> t"
    and lab: "label_at c h bars (adjustments_of c (sn_actions sn) sid) sid d n = Inr (Some l)"
    using from' by (auto simp: label_from_def bars_def)
  define base where "base = bars ! (n - 1)"
  define b where "b = ord_of c (br_session base)"
  define ws where "ws = filter (in_window b (b + h)) (adjustments_of c (sn_actions sn) sid)"
  obtain end' where p: "0 < n" "b + 1 = ord_of c d" "b + h < int (length (cal_sessions c))"
    "\<forall>o' \<in> {b + 1..b + h}. bar_at c bars o' \<noteq> None" "bar_at c bars (b + h) = Some end'"
    "la_security_id l = sid" "la_decision_session l = d"
    "la_label_window l = (cal_sessions c ! nat (b + 1), cal_sessions c ! nat (b + h))"
    "la_value l = LogOf ((br_close end' * share_factor (b + h) ws + dividends ws) / br_close base)"
    "la_observed_at l = latest_of (br_available_at end') ws"
    using lab base_def b_def ws_def by (rule label_at_Some) (use h in auto)
  have srt: "sorted (map br_session bars)"
    unfolding bars_def ds by (rule visible_bars_sorted)
  have mem: "x \<in> set (sn_bars sn) \<and> br_security_id x = sid \<and> is_session c (br_session x)" if "x \<in> set bars" for x
    using visible_bar [of x sn c u sid eventual] that validate_snapshot_Inr(2) [OF val, of x]
    by (auto simp: bars_def ds session_close_Inr)
  have base: "base \<in> set bars" "br_available_at base \<le> t"
    using p(1) d(4) vis [rule_format, of "n - 1"] by (simp_all add: base_def)
  have hidden: "t < br_available_at x" if "x \<in> set bars" "b < ord_of c (br_session x)" for x
    using later_bar_hidden [OF srt p(1) d(4) vis that(1)] that mem base(1) ord_of_less [OF assms(2)]
    by (simp add: b_def base_def)
  have e: "end' \<in> set bars" "ord_of c (br_session end') = b + h" using bar_at_Some [OF p(5)] by auto
  have d': "cal_sessions c ! nat (b + 1) = d"
    using ord_of_session [OF assms(2), of d] d(2) p(2) by (simp add: session_close_Inr)
  have e': "cal_sessions c ! nat (b + h) = br_session end'"
    using ord_of_session [OF assms(2), of "br_session end'"] mem [OF e(1)] e(2) by simp
  have win: "\<exists>x \<in> set (sn_bars sn). br_security_id x = sid \<and> ord_of c (br_session x) = i \<and> t < br_available_at x"
    if "i \<in> {b + 1..b + h}" for i
  proof -
    have "bar_at c bars i \<noteq> None" using p(4) that by blast
    then obtain x where "bar_at c bars i = Some x" by blast
    then have "x \<in> set bars" "ord_of c (br_session x) = i" using bar_at_Some by blast+
    then show ?thesis using mem hidden that by (intro bexI [of _ x]) auto
  qed
  have "t < br_available_at end'" using hidden e h by simp
  then have "t < la_observed_at l" using p(10) latest_of_ge [of "br_available_at end'" ws] by simp
  then show ?thesis
    using d(1-3) base mem [OF base(1)] mem [OF e(1)] p(2,6-9) win e d' e' ws_def
    by (intro exI [of _ t] exI [of _ base] exI [of _ end'] exI [of _ ws]) (auto simp: b_def)
qed

lemma action_ok_fields: "action_ok a \<Longrightarrow>
    (ca_kind a \<in> ratio_kinds \<longrightarrow> (\<exists>n d. ca_ratio_numerator a = Some n \<and> ca_ratio_denominator a = Some d))
    \<and> (ca_kind a = CashDividend \<longrightarrow> (\<exists>x. ca_cash_amount a = Some x))"
  by (auto simp: action_ok_def kind_consistent_def ratioed_def cashed_def ratio_kinds_def)

lemma adjust_loop_defined:
  "\<forall>p \<in> set xs. (is_ratio p \<longrightarrow> (\<exists>n d. ca_ratio_numerator (snd p) = Some n \<and> ca_ratio_denominator (snd p) = Some d))
     \<and> (\<not> is_ratio p \<longrightarrow> (\<exists>x. ca_cash_amount (snd p) = Some x)) \<Longrightarrow>
   \<exists>j'. adjust_loop b e xs j = Inr j'"
  by (induction b e xs j rule: adjust_loop.induct) (auto simp: is_ratio_def Let_def)

lemma label_at_cong:
  assumes "mset adj' = mset adj" and "\<forall>p \<in> set adj. (is_ratio p \<longrightarrow>
        (\<exists>n d. ca_ratio_numerator (snd p) = Some n \<and> ca_ratio_denominator (snd p) = Some d))
     \<and> (\<not> is_ratio p \<longrightarrow> (\<exists>x. ca_cash_amount (snd p) = Some x))"
  shows "label_at c h bars adj' sid d n = label_at c h bars adj sid d n"
proof -
  have same: "\<exists>j j'. adjust_loop b e (sort_key adjustment_key adj)
        \<lparr>aj_ratio = 1, aj_cash = 0, aj_ids = [], aj_latest = t\<rparr> = Inr j
      \<and> adjust_loop b e (sort_key adjustment_key adj')
        \<lparr>aj_ratio = 1, aj_cash = 0, aj_ids = [], aj_latest = t\<rparr> = Inr j'
      \<and> aj_ratio j' = aj_ratio j \<and> aj_cash j' = aj_cash j \<and> aj_latest j' = aj_latest j
      \<and> sort (aj_ids j') = sort (aj_ids j)" for b e t
  proof -
    let ?i = "\<lparr>aj_ratio = 1, aj_cash = 0, aj_ids = [], aj_latest = t\<rparr>"
    have "set adj' = set adj" using assms(1) by (rule mset_eq_setD)
    then obtain j j' where j: "adjust_loop b e (sort_key adjustment_key adj) ?i = Inr j"
      "adjust_loop b e (sort_key adjustment_key adj') ?i = Inr j'"
      using adjust_loop_defined [of "sort_key adjustment_key adj" b e ?i]
        adjust_loop_defined [of "sort_key adjustment_key adj'" b e ?i] assms(2) by auto
    have m: "mset (filter (in_window b e) adj') = mset (filter (in_window b e) adj)"
      using assms(1) by simp
    have ids: "sort (map (ca_source_record_id \<circ> snd) (filter (in_window b e) adj'))
        = sort (map (ca_source_record_id \<circ> snd) (filter (in_window b e) adj))"
      by (rule properties_for_sort) (use m in simp_all)
    show ?thesis
      using j adjusted_label [OF j(1) refl] adjusted_label [OF j(2) refl] ids
        share_factor_mset [OF m] dividends_mset [OF m] latest_of_mset [OF m] by auto
  qed
  show ?thesis
    unfolding label_at_def Let_def
    using same [of "ord_of c (br_session (bars ! (n - 1)))" "ord_of c (br_session (bars ! (n - 1))) + h"
        "br_available_at (the (bar_at c bars (ord_of c (br_session (bars ! (n - 1))) + h)))"]
    by auto
qed

lemma label_dates_cong:
  "(\<And>d n. label_at c h bars adj' sid d n = label_at c h bars adj sid d n) \<Longrightarrow>
   (\<And>t. universe_as_of ds' t = universe_as_of ds t) \<Longrightarrow>
   label_dates c h ds' bars adj' sid dates n labels = label_dates c h ds bars adj sid dates n labels"
  by (induction dates arbitrary: n labels) (simp_all add: Let_def split: sum.splits option.splits)

lemma label_securities_cong:
  assumes "\<And>sid t. visible_bars ds' sid t = visible_bars ds sid t"
    and "\<And>t. universe_as_of ds' t = universe_as_of ds t"
    and "\<And>sid bars d n. label_at c h bars (adjustments_of c (sn_actions (ds_snapshot ds')) sid) sid d n
       = label_at c h bars (adjustments_of c (sn_actions (ds_snapshot ds)) sid) sid d n"
  shows "label_securities c h ds' dates sids labels = label_securities c h ds dates sids labels"
  by (induction sids arbitrary: labels)
     (simp_all add: Let_def assms(1) label_dates_cong [OF assms(3) assms(2)] split: sum.splits)

text \<open>Claim C33. Labels are outcomes, and only outcomes: over a verified snapshot, a label of a decision
  session is built from the last bar visible at that session's close, which is of the session just
  before, and a window of \<open>horizon\<close> consecutive sessions starting at the decision session, every bar of
  which is published strictly after the decision; so is the label itself. Its value is the total return
  with every split in the window applied to the shares and every dividend paid on the shares then held.\<close>

theorem labels_post_decision:
  assumes "make_dataset digest sn c u = Inr ds" and "calendar_ok c"
    and "build_labels ds c h dd = Inr ls" and "l \<in> set ls"
  shows "\<exists>t base end' ws. session_close c (la_decision_session l) = Inr t
    \<and> la_decision_session l \<in> set dd \<and> la_security_id l \<in> set (universe_as_of ds t)
    \<and> base \<in> set (sn_bars sn) \<and> br_security_id base = la_security_id l \<and> br_available_at base \<le> t
    \<and> ord_of c (br_session base) + 1 = ord_of c (la_decision_session l)
    \<and> (\<forall>i \<in> {ord_of c (la_decision_session l)..ord_of c (br_session base) + h}.
         \<exists>b \<in> set (sn_bars sn). br_security_id b = la_security_id l \<and> ord_of c (br_session b) = i
            \<and> t < br_available_at b)
    \<and> end' \<in> set (sn_bars sn) \<and> ord_of c (br_session end') = ord_of c (br_session base) + h
    \<and> la_label_window l = (la_decision_session l, br_session end') \<and> t < la_observed_at l
    \<and> ws = filter (in_window (ord_of c (br_session base)) (ord_of c (br_session base) + h))
          (adjustments_of c (sn_actions sn) (la_security_id l))
    \<and> la_value l = LogOf ((br_close end' * share_factor (ord_of c (br_session base) + h) ws + dividends ws)
          / br_close base)"
  using assms by (rule label_anatomy)

definition sample_labels :: "label_event list" where
  "sample_labels = (case build_labels (open_dataset sample_snapshot sample_calendar ''U'') sample_calendar 2 [102] of
     Inr ls \<Rightarrow> ls | Inl _ \<Rightarrow> [])"

theorem labels_post_decision_witness:
  "\<exists>l t. sample_labels = [l] \<and> la_value l = LogOf (102 / 100)
     \<and> session_close sample_calendar 102 = Inr t \<and> t < la_observed_at l"
proof -
  have "verify_manifest sample_digest sample_snapshot sample_calendar = Inr ()" by code_simp
  then have ds: "make_dataset sample_digest sample_snapshot sample_calendar ''U''
      = Inr (open_dataset sample_snapshot sample_calendar ''U'')" by (simp add: make_dataset_def)
  have "\<not> (case build_labels (open_dataset sample_snapshot sample_calendar ''U'') sample_calendar 2 [102] of
      Inr ls \<Rightarrow> False | Inl _ \<Rightarrow> True)" by code_simp
  then have b: "build_labels (open_dataset sample_snapshot sample_calendar ''U'') sample_calendar 2 [102]
      = Inr sample_labels" by (simp add: sample_labels_def split: sum.splits)
  have "map (\<lambda>l. (la_value l, la_decision_session l)) sample_labels = [(LogOf (102 / 100), 102)]" by code_simp
  then obtain l where l: "sample_labels = [l]" "la_value l = LogOf (102 / 100)" "la_decision_session l = 102"
    by auto
  have "l \<in> set sample_labels" unfolding l(1) by simp
  from labels_post_decision [OF ds sample_calendar_ok b this] obtain t where
    "session_close sample_calendar (la_decision_session l) = Inr t" "t < la_observed_at l"
    by (elim exE conjE) (rule that, assumption+)
  then show ?thesis using l by auto
qed

text \<open>Labels do not depend on the order in which the vendor lists corporate actions: permuting
  the actions of a snapshot, all of them valid, gives the same labels, value for value, and the same
  errors.\<close>

lemma labels_order_blind:
  assumes "mset actions' = mset (sn_actions sn)" and "\<forall>a \<in> set (sn_actions sn). action_ok a"
  shows "build_labels (open_dataset (sn\<lparr>sn_actions := actions'\<rparr>) c u) c h dd
     = build_labels (open_dataset sn c u) c h dd"
proof -
  have m: "mset (adjustments_of c actions' sid) = mset (adjustments_of c (sn_actions sn) sid)" for sid
    using assms(1) by (simp add: adjustments_of_def)
  have ok: "\<forall>p \<in> set (adjustments_of c (sn_actions sn) sid). (is_ratio p \<longrightarrow>
        (\<exists>n d. ca_ratio_numerator (snd p) = Some n \<and> ca_ratio_denominator (snd p) = Some d))
     \<and> (\<not> is_ratio p \<longrightarrow> (\<exists>x. ca_cash_amount (snd p) = Some x))" for sid
    using assms(2) action_ok_fields by (auto simp: adjustments_of_def is_ratio_def)
  have un: "universe_as_of (open_dataset (sn\<lparr>sn_actions := actions'\<rparr>) c u) = universe_as_of (open_dataset sn c u)"
    by (simp add: universe_as_of_def fun_eq_iff)
  have vb: "visible_bars (open_dataset (sn\<lparr>sn_actions := actions'\<rparr>) c u) sid t = visible_bars (open_dataset sn c u) sid t"
    for sid t by (simp add: visible_bars_eq)
  show ?thesis
    unfolding build_labels_def un Let_def
    by (simp add: label_securities_cong [OF vb un [THEN fun_cong]] label_at_cong [OF m ok])
qed

theorem labels_order_blind_witness:
  "build_labels (open_dataset (sample_snapshot\<lparr>sn_actions := rev (sn_actions sample_snapshot)\<rparr>) sample_calendar ''U'')
      sample_calendar 2 [102]
    = build_labels (open_dataset sample_snapshot sample_calendar ''U'') sample_calendar 2 [102]"
proof -
  have "\<forall>a \<in> set (sn_actions sample_snapshot). action_ok a" by code_simp
  then show ?thesis by (intro labels_order_blind) simp_all
qed

text \<open>Claim C34. No label of a training row reaches into evaluation (INV-06), end to end: for folds the
  checker accepted with the labels' horizon, the label window of a row whose decision session is in a
  fold's train set, built over a verified snapshot, ends strictly before every evaluation session of
  that fold.\<close>

theorem train_labels_before_eval:
  assumes "make_dataset digest sn c u = Inr ds" and "calendar_ok c"
    and "build_labels ds c h dd = Inr ls" and "l \<in> set ls"
    and "check_folds c folds h e = Inr ()" and "f \<in> set folds"
    and "la_decision_session l \<in> train_sessions f" and "t \<in> all_eval_sessions f"
  shows "snd (la_label_window l) < t"
proof -
  obtain k and b end' :: bar_record where p: "session_close c (la_decision_session l) = Inr k"
    "ord_of c (br_session b) + 1 = ord_of c (la_decision_session l)"
    "la_label_window l = (la_decision_session l, br_session end')"
    "end' \<in> set (sn_bars sn)" "ord_of c (br_session end') = ord_of c (br_session b) + h"
    using label_anatomy [OF assms(1-4)] by (elim exE conjE) (rule that, assumption+)
  have chk: "check_fold c h e f = Inr ()" using assms(5,6) by (rule check_folds_each)
  have far: "ord_of c (la_decision_session l) + h < ord_of c t" and t: "is_session c t"
    using check_fold_purged [OF chk assms(7,8)] by auto
  have "verify_manifest digest sn c = Inr ()"
    using assms(1) by (auto simp: make_dataset_def split: sum.splits)
  then have "is_session c (br_session end')"
    using validate_snapshot_Inr(2) [OF verify_manifest_validates p(4)] by (auto simp: session_close_Inr)
  moreover have "ord_of c (br_session end') < ord_of c t" using p(2,5) far by linarith
  ultimately have "br_session end' < t" using ord_of_less [OF assms(2) _ t] by blast
  then show ?thesis using p(3) by simp
qed

theorem train_labels_before_eval_witness:
  "\<exists>l. l \<in> set sample_labels \<and> snd (la_label_window l) < 110"
proof -
  let ?f = "\<lparr>fold_id = 0, train_sessions = {100, 101, 102}, validation_sessions = {109},
      test_sessions = {110}, final_fit_train_sessions = {100, 101, 102}\<rparr>"
  have chk: "check_folds sample_calendar [?f] 2 1 = Inr ()" by code_simp
  have "verify_manifest sample_digest sample_snapshot sample_calendar = Inr ()" by code_simp
  then have ds: "make_dataset sample_digest sample_snapshot sample_calendar ''U''
      = Inr (open_dataset sample_snapshot sample_calendar ''U'')" by (simp add: make_dataset_def)
  have "\<not> (case build_labels (open_dataset sample_snapshot sample_calendar ''U'') sample_calendar 2 [102] of
      Inr ls \<Rightarrow> False | Inl _ \<Rightarrow> True)" by code_simp
  then have b: "build_labels (open_dataset sample_snapshot sample_calendar ''U'') sample_calendar 2 [102]
      = Inr sample_labels" by (simp add: sample_labels_def split: sum.splits)
  have "map la_decision_session sample_labels = [102]" by code_simp
  then obtain l where l: "sample_labels = [l]" "la_decision_session l = 102" by auto
  have mem: "l \<in> set sample_labels" unfolding l(1) by simp
  have "la_decision_session l \<in> train_sessions ?f" "110 \<in> all_eval_sessions ?f" "?f \<in> set [?f]"
    by (simp_all add: l all_eval_sessions_def)
  then show ?thesis using train_labels_before_eval [OF ds sample_calendar_ok b mem chk] mem by blast
qed

end
