(* ===== verification/ExecRecords.thy ===== *)
theory ExecRecords
  imports Prelude
begin

text \<open>
  The execution records of \<open>execution/records.py\<close>: local intents, transport attempts, local
  uncertainty, and the broker's facts. A pydantic model is a \<open>record\<close> and its validators a
  boolean function \<open>..._ok\<close>; the unions \<open>ExecutionRecord\<close> and \<open>StoredExecutionRecord\<close> are
  datatypes. The fixed \<open>record_type\<close> literal of a class is its constructor.

  A money amount keeps the sign, digits and exponent of its \<open>Decimal\<close>, since the canonical bytes
  of a record spell them out: \<open>1.0\<close> and \<open>1.00\<close> are equal numbers in different records.
\<close>

subsection \<open>Exact decimals\<close>

record exact_decimal =
  ed_negative :: bool
  ed_coefficient :: nat
  ed_exponent :: int

definition decimal_value :: "exact_decimal \<Rightarrow> decimal" where
  "decimal_value d =
     (let m = (if 0 \<le> ed_exponent d then of_nat (ed_coefficient d) * 10 ^ nat (ed_exponent d)
               else of_nat (ed_coefficient d) / 10 ^ nat (- ed_exponent d))
      in if ed_negative d then - m else m)"

text \<open>\<open>max_digits=18, decimal_places=8\<close>: a value on the grid of eight places with at most ten
  digits before the point.\<close>

definition eight_places :: "decimal \<Rightarrow> bool" where
  "eight_places x \<longleftrightarrow> of_int \<lfloor>x * 10 ^ 8\<rfloor> = x * 10 ^ 8 \<and> \<bar>x\<bar> < 10 ^ 10"

definition exact_price_ok :: "exact_decimal \<Rightarrow> bool" where
  "exact_price_ok d \<longleftrightarrow> 0 < decimal_value d \<and> eight_places (decimal_value d)"

definition exact_money_ok :: "exact_decimal \<Rightarrow> bool" where
  "exact_money_ok d \<longleftrightarrow> 0 \<le> decimal_value d \<and> eight_places (decimal_value d)"

subsection \<open>The intent\<close>

datatype intent_side = BUY | SELL
datatype position_effect = OPEN_LONG | CLOSE_LONG
datatype intent_order_type = MARKET | LIMIT
datatype execution_style = Single | Package | Legged

record order_intent =
  oi_intent_id :: ident
  oi_contract_id :: ident
  oi_side :: intent_side
  oi_position_effect :: position_effect
  oi_quantity :: int
  oi_order_type :: intent_order_type
  oi_limit_price :: "exact_decimal option"
  oi_execution_style :: execution_style
  oi_package_id :: "ident option"
  oi_intent_created_at :: instant
  oi_source :: ident
  oi_source_sequence_id :: ident

definition opt_ok :: "('a \<Rightarrow> bool) \<Rightarrow> 'a option \<Rightarrow> bool" where
  "opt_ok P x = (case x of None \<Rightarrow> True | Some y \<Rightarrow> P y)"

definition intent_ok :: "order_intent \<Rightarrow> bool" where
  "intent_ok i \<longleftrightarrow>
     id_str (oi_intent_id i) \<and> id_str (oi_contract_id i) \<and> 1 \<le> oi_quantity i
     \<and> opt_ok exact_price_ok (oi_limit_price i) \<and> opt_ok id_str (oi_package_id i)
     \<and> id_str (oi_source i) \<and> id_str (oi_source_sequence_id i)
     \<and> (oi_side i, oi_position_effect i) \<in> {(BUY, OPEN_LONG), (SELL, CLOSE_LONG)}
     \<and> \<not> (oi_order_type i = LIMIT \<and> oi_limit_price i = None)
     \<and> \<not> (oi_order_type i = MARKET \<and> oi_limit_price i \<noteq> None)
     \<and> \<not> (oi_execution_style i = Single \<and> oi_package_id i \<noteq> None)
     \<and> \<not> (oi_execution_style i \<noteq> Single \<and> oi_package_id i = None)"

subsection \<open>Local records\<close>

record submit_attempt =
  sa_record_id :: ident
  sa_intent_id :: ident
  sa_send_attempt_at :: instant
  sa_source :: ident
  sa_source_sequence_id :: ident

definition submit_ok :: "submit_attempt \<Rightarrow> bool" where
  "submit_ok r \<longleftrightarrow> id_str (sa_record_id r) \<and> id_str (sa_intent_id r) \<and> id_str (sa_source r)
     \<and> id_str (sa_source_sequence_id r)"

record uncertainty_observed =
  uo_record_id :: ident
  uo_intent_id :: ident
  uo_locally_received_at :: instant
  uo_reason_code :: ident
  uo_source :: ident
  uo_source_sequence_id :: ident

definition uncertainty_ok :: "uncertainty_observed \<Rightarrow> bool" where
  "uncertainty_ok r \<longleftrightarrow> id_str (uo_record_id r) \<and> id_str (uo_intent_id r)
     \<and> id_str (uo_reason_code r) \<and> id_str (uo_source r) \<and> id_str (uo_source_sequence_id r)"

record timeout_observed =
  to_record_id :: ident
  to_intent_id :: ident
  to_attempt_id :: ident
  to_locally_received_at :: instant
  to_source :: ident
  to_source_sequence_id :: ident

definition timeout_ok :: "timeout_observed \<Rightarrow> bool" where
  "timeout_ok r \<longleftrightarrow> id_str (to_record_id r) \<and> id_str (to_intent_id r)
     \<and> id_str (to_attempt_id r) \<and> id_str (to_source r) \<and> id_str (to_source_sequence_id r)"

record disconnect_observed =
  do_record_id :: ident
  do_intent_id :: ident
  do_locally_received_at :: instant
  do_source :: ident
  do_source_sequence_id :: ident

definition disconnect_ok :: "disconnect_observed \<Rightarrow> bool" where
  "disconnect_ok r \<longleftrightarrow> id_str (do_record_id r) \<and> id_str (do_intent_id r) \<and> id_str (do_source r)
     \<and> id_str (do_source_sequence_id r)"

record replace_intent =
  ri_record_id :: ident
  ri_intent_id :: ident
  ri_based_on_readback_id :: ident
  ri_broker_order_id :: ident
  ri_new_total_quantity :: int
  ri_new_limit_price :: exact_decimal
  ri_replace_created_at :: instant
  ri_source :: ident
  ri_source_sequence_id :: ident

definition replace_ok :: "replace_intent \<Rightarrow> bool" where
  "replace_ok r \<longleftrightarrow> id_str (ri_record_id r) \<and> id_str (ri_intent_id r)
     \<and> id_str (ri_based_on_readback_id r) \<and> id_str (ri_broker_order_id r)
     \<and> 1 \<le> ri_new_total_quantity r \<and> exact_price_ok (ri_new_limit_price r)
     \<and> id_str (ri_source r) \<and> id_str (ri_source_sequence_id r)"

subsection \<open>Broker facts\<close>

record broker_acknowledgement =
  ba_record_id :: ident
  ba_intent_id :: ident
  ba_broker_order_id :: ident
  ba_broker_acknowledged_at :: instant
  ba_locally_received_at :: instant
  ba_source :: ident
  ba_source_sequence_id :: ident
  ba_broker_sequence_id :: ident

definition ack_ok :: "broker_acknowledgement \<Rightarrow> bool" where
  "ack_ok r \<longleftrightarrow> id_str (ba_record_id r) \<and> id_str (ba_intent_id r) \<and> id_str (ba_broker_order_id r)
     \<and> id_str (ba_source r) \<and> id_str (ba_source_sequence_id r) \<and> id_str (ba_broker_sequence_id r)
     \<and> ba_broker_acknowledged_at r \<le> ba_locally_received_at r"

record order_reject =
  oj_record_id :: ident
  oj_intent_id :: ident
  oj_broker_order_id :: "ident option"
  oj_reason_code :: ident
  oj_broker_acknowledged_at :: instant
  oj_locally_received_at :: instant
  oj_source :: ident
  oj_source_sequence_id :: ident
  oj_broker_sequence_id :: ident

definition reject_ok :: "order_reject \<Rightarrow> bool" where
  "reject_ok r \<longleftrightarrow> id_str (oj_record_id r) \<and> id_str (oj_intent_id r)
     \<and> opt_ok id_str (oj_broker_order_id r) \<and> id_str (oj_reason_code r)
     \<and> id_str (oj_source r) \<and> id_str (oj_source_sequence_id r) \<and> id_str (oj_broker_sequence_id r)
     \<and> oj_broker_acknowledged_at r \<le> oj_locally_received_at r"

record fill_record =
  xf_record_id :: ident
  xf_intent_id :: ident
  xf_broker_order_id :: ident
  xf_fill_quantity :: int
  xf_cumulative_quantity :: int
  xf_unit_price :: exact_decimal
  xf_fees :: exact_decimal
  xf_exchange_event_at :: instant
  xf_locally_received_at :: instant
  xf_source :: ident
  xf_source_sequence_id :: ident
  xf_broker_sequence_id :: ident

definition fill_record_ok :: "fill_record \<Rightarrow> bool" where
  "fill_record_ok r \<longleftrightarrow> id_str (xf_record_id r) \<and> id_str (xf_intent_id r)
     \<and> id_str (xf_broker_order_id r) \<and> 1 \<le> xf_fill_quantity r \<and> 1 \<le> xf_cumulative_quantity r
     \<and> exact_price_ok (xf_unit_price r) \<and> exact_money_ok (xf_fees r)
     \<and> id_str (xf_source r) \<and> id_str (xf_source_sequence_id r) \<and> id_str (xf_broker_sequence_id r)
     \<and> xf_fill_quantity r \<le> xf_cumulative_quantity r
     \<and> xf_exchange_event_at r \<le> xf_locally_received_at r"

datatype readback_status =
  RB_OPEN | RB_PARTIALLY_FILLED | RB_FILLED | RB_CANCELED | RB_REJECTED | RB_ABSENT | RB_AMBIGUOUS

record broker_readback =
  rb_record_id :: ident
  rb_intent_id :: ident
  rb_status :: readback_status
  rb_broker_order_id :: "ident option"
  rb_observed_order_id :: "ident option"
  rb_observed_total_quantity :: "int option"
  rb_observed_status :: "ident option"
  rb_total_quantity :: "int option"
  rb_cumulative_quantity :: int
  rb_broker_snapshot_at :: instant
  rb_locally_received_at :: instant
  rb_source :: ident
  rb_source_sequence_id :: ident
  rb_broker_sequence_id :: ident

definition agree :: "'a option \<Rightarrow> 'a option \<Rightarrow> bool" where
  "agree x y \<longleftrightarrow> \<not> (x \<noteq> None \<and> y \<noteq> None \<and> x \<noteq> y)"

definition readback_ok :: "broker_readback \<Rightarrow> bool" where
  "readback_ok r \<longleftrightarrow>
     id_str (rb_record_id r) \<and> id_str (rb_intent_id r) \<and> opt_ok id_str (rb_broker_order_id r)
     \<and> opt_ok id_str (rb_observed_order_id r) \<and> opt_ok (\<lambda>n. 1 \<le> n) (rb_observed_total_quantity r)
     \<and> opt_ok id_str (rb_observed_status r) \<and> opt_ok (\<lambda>n. 1 \<le> n) (rb_total_quantity r)
     \<and> 0 \<le> rb_cumulative_quantity r
     \<and> id_str (rb_source r) \<and> id_str (rb_source_sequence_id r) \<and> id_str (rb_broker_sequence_id r)
     \<and> agree (rb_observed_order_id r) (rb_broker_order_id r)
     \<and> agree (rb_observed_total_quantity r) (rb_total_quantity r)
     \<and> rb_broker_snapshot_at r \<le> rb_locally_received_at r
     \<and> (rb_status r \<in> {RB_OPEN, RB_PARTIALLY_FILLED, RB_FILLED, RB_CANCELED} \<longrightarrow>
          rb_broker_order_id r \<noteq> None \<and> rb_total_quantity r \<noteq> None)
     \<and> (rb_status r \<in> {RB_REJECTED, RB_ABSENT, RB_AMBIGUOUS} \<longrightarrow> rb_total_quantity r = None)
     \<and> (rb_status r \<in> {RB_ABSENT, RB_AMBIGUOUS} \<longrightarrow>
          rb_broker_order_id r = None \<and> rb_cumulative_quantity r = 0)
     \<and> (rb_status r = RB_OPEN \<longrightarrow> rb_cumulative_quantity r = 0)
     \<and> (rb_status r = RB_PARTIALLY_FILLED \<longrightarrow>
          rb_cumulative_quantity r \<noteq> 0 \<and> opt_ok (\<lambda>t. rb_cumulative_quantity r < t) (rb_total_quantity r))
     \<and> (rb_status r = RB_FILLED \<longrightarrow> Some (rb_cumulative_quantity r) = rb_total_quantity r)
     \<and> (rb_status r = RB_CANCELED \<longrightarrow> opt_ok (\<lambda>t. rb_cumulative_quantity r \<le> t) (rb_total_quantity r))
     \<and> (rb_status r = RB_REJECTED \<longrightarrow> rb_cumulative_quantity r = 0)"

subsection \<open>The unions\<close>

datatype exec_record =
    Submit submit_attempt
  | Ack broker_acknowledgement
  | Reject order_reject
  | Partial fill_record
  | Complete fill_record
  | Timeout timeout_observed
  | Disconnect disconnect_observed
  | Uncertain uncertainty_observed
  | Readback broker_readback
  | Replace replace_intent

datatype stored_record = Intent order_intent | Exec exec_record

fun exec_record_ok :: "exec_record \<Rightarrow> bool" where
  "exec_record_ok (Submit r) = submit_ok r"
| "exec_record_ok (Ack r) = ack_ok r"
| "exec_record_ok (Reject r) = reject_ok r"
| "exec_record_ok (Partial r) = fill_record_ok r"
| "exec_record_ok (Complete r) = fill_record_ok r"
| "exec_record_ok (Timeout r) = timeout_ok r"
| "exec_record_ok (Disconnect r) = disconnect_ok r"
| "exec_record_ok (Uncertain r) = uncertainty_ok r"
| "exec_record_ok (Readback r) = readback_ok r"
| "exec_record_ok (Replace r) = replace_ok r"

subsection \<open>The fields every record shares\<close>

fun exec_record_id :: "exec_record \<Rightarrow> ident" where
  "exec_record_id (Submit r) = sa_record_id r"
| "exec_record_id (Ack r) = ba_record_id r"
| "exec_record_id (Reject r) = oj_record_id r"
| "exec_record_id (Partial r) = xf_record_id r"
| "exec_record_id (Complete r) = xf_record_id r"
| "exec_record_id (Timeout r) = to_record_id r"
| "exec_record_id (Disconnect r) = do_record_id r"
| "exec_record_id (Uncertain r) = uo_record_id r"
| "exec_record_id (Readback r) = rb_record_id r"
| "exec_record_id (Replace r) = ri_record_id r"

fun exec_intent_id :: "exec_record \<Rightarrow> ident" where
  "exec_intent_id (Submit r) = sa_intent_id r"
| "exec_intent_id (Ack r) = ba_intent_id r"
| "exec_intent_id (Reject r) = oj_intent_id r"
| "exec_intent_id (Partial r) = xf_intent_id r"
| "exec_intent_id (Complete r) = xf_intent_id r"
| "exec_intent_id (Timeout r) = to_intent_id r"
| "exec_intent_id (Disconnect r) = do_intent_id r"
| "exec_intent_id (Uncertain r) = uo_intent_id r"
| "exec_intent_id (Readback r) = rb_intent_id r"
| "exec_intent_id (Replace r) = ri_intent_id r"

fun exec_source_key :: "exec_record \<Rightarrow> ident \<times> ident" where
  "exec_source_key (Submit r) = (sa_source r, sa_source_sequence_id r)"
| "exec_source_key (Ack r) = (ba_source r, ba_source_sequence_id r)"
| "exec_source_key (Reject r) = (oj_source r, oj_source_sequence_id r)"
| "exec_source_key (Partial r) = (xf_source r, xf_source_sequence_id r)"
| "exec_source_key (Complete r) = (xf_source r, xf_source_sequence_id r)"
| "exec_source_key (Timeout r) = (to_source r, to_source_sequence_id r)"
| "exec_source_key (Disconnect r) = (do_source r, do_source_sequence_id r)"
| "exec_source_key (Uncertain r) = (uo_source r, uo_source_sequence_id r)"
| "exec_source_key (Readback r) = (rb_source r, rb_source_sequence_id r)"
| "exec_source_key (Replace r) = (ri_source r, ri_source_sequence_id r)"

text \<open>\<open>_record_id\<close>: an intent's record id is its intent id.\<close>

fun stored_id :: "stored_record \<Rightarrow> ident" where
  "stored_id (Intent i) = oi_intent_id i"
| "stored_id (Exec r) = exec_record_id r"

fun stored_source_key :: "stored_record \<Rightarrow> ident \<times> ident" where
  "stored_source_key (Intent i) = (oi_source i, oi_source_sequence_id i)"
| "stored_source_key (Exec r) = exec_source_key r"

text \<open>\<open>_broker_sequence\<close>: only the broker's records carry one.\<close>

fun broker_sequence :: "stored_record \<Rightarrow> ident option" where
  "broker_sequence (Exec (Ack r)) = Some (ba_broker_sequence_id r)"
| "broker_sequence (Exec (Reject r)) = Some (oj_broker_sequence_id r)"
| "broker_sequence (Exec (Partial r)) = Some (xf_broker_sequence_id r)"
| "broker_sequence (Exec (Complete r)) = Some (xf_broker_sequence_id r)"
| "broker_sequence (Exec (Readback r)) = Some (rb_broker_sequence_id r)"
| "broker_sequence _ = None"

subsection \<open>The kinds of record\<close>

fun is_submit :: "exec_record \<Rightarrow> bool" where
  "is_submit (Submit _) = True"
| "is_submit _ = False"

fun is_replace :: "exec_record \<Rightarrow> bool" where
  "is_replace (Replace _) = True"
| "is_replace _ = False"

fun is_readback :: "exec_record \<Rightarrow> bool" where
  "is_readback (Readback _) = True"
| "is_readback _ = False"

fun is_fill :: "exec_record \<Rightarrow> bool" where
  "is_fill (Partial _) = True"
| "is_fill (Complete _) = True"
| "is_fill _ = False"

fun is_broker_fact :: "exec_record \<Rightarrow> bool" where
  "is_broker_fact (Ack _) = True"
| "is_broker_fact (Reject _) = True"
| "is_broker_fact (Partial _) = True"
| "is_broker_fact (Complete _) = True"
| "is_broker_fact (Readback _) = True"
| "is_broker_fact _ = False"

fun is_uncertainty :: "exec_record \<Rightarrow> bool" where
  "is_uncertainty (Timeout _) = True"
| "is_uncertainty (Disconnect _) = True"
| "is_uncertainty (Uncertain _) = True"
| "is_uncertainty _ = False"

text \<open>The records of one kind, unwrapped.\<close>

fun the_fill :: "exec_record \<Rightarrow> fill_record option" where
  "the_fill (Partial r) = Some r"
| "the_fill (Complete r) = Some r"
| "the_fill _ = None"

fun the_readback :: "exec_record \<Rightarrow> broker_readback option" where
  "the_readback (Readback r) = Some r"
| "the_readback _ = None"

fun the_replace :: "exec_record \<Rightarrow> replace_intent option" where
  "the_replace (Replace r) = Some r"
| "the_replace _ = None"

fun the_submit :: "exec_record \<Rightarrow> submit_attempt option" where
  "the_submit (Submit r) = Some r"
| "the_submit _ = None"

end
