(* ===== verification/Lifecycle.thy ===== *)
theory Lifecycle
  imports ExecRecords
begin

text \<open>
  The execution lifecycle of \<open>execution/lifecycle.py\<close>: a pure reducer over the records of one
  order intent. Every field of the projection is derived again from the full tuple of retained
  records; the derivations are the functions \<open>derive_...\<close> and the reducer is \<open>lifecycle_apply\<close>.

  The tuple \<open>records\<close> always starts with the intent (\<open>start\<close> puts it there and \<open>apply\<close> only
  appends), so the model keeps the intent in \<open>lc_intent\<close> and the other records in \<open>lc_records\<close>;
  the derivations that read only execution records take the latter. \<open>canon\<close> is
  \<open>_canonical_bytes\<close>: pydantic's JSON dump of a record, a parameter. Record objects are compared
  with \<open>is\<close> in two places; records of one lifecycle have distinct ids, so equality says the same.
\<close>

subsection \<open>States, reasons, errors\<close>

datatype exec_state =
  CREATED | SUBMITTING | ACKNOWLEDGED | PARTIALLY_FILLED | FILLED | CANCEL_PENDING | CANCELED
  | REJECTED | UNKNOWN | RECONCILIATION_REQUIRED

datatype reason =
  MISSING_SUBMIT | BROKER_ORDER_ID_CONFLICT | TOTAL_UNCONFIRMED | FILL_EXCEEDS_CONFIRMED_TOTAL
  | FILL_KIND_TOTAL_MISMATCH | FILL_ECONOMIC_GAP | FILL_ECONOMIC_OVERLAP
  | FILL_CUMULATIVE_REGRESSION | RETRY_AFTER_LOCAL_KNOWLEDGE | OVERLAPPING_REPLACE_INTENTS
  | INVALID_REPLACE_BASIS | REJECT_WITH_OBSERVED_FILL | READBACK_FILL_CONTRADICTION
  | READBACK_CUMULATIVE_REGRESSION | TERMINAL_FACT_CONTRADICTION | AMBIGUOUS_READBACK
  | AMBIGUOUS_REPLACE_CONFIRMATION | REPLACE_CONFIRMATION_MISMATCH
  | UNEXPECTED_CONFIRMED_TOTAL_CHANGE

datatype lifecycle_error =
  IntentMismatchError | RecordIdentityCollisionError | SequenceIdentityCollisionError
  | TemporalOrderError | TransitionRefusedError | ReplacementRefusedError | StopIteration

subsection \<open>Times and sort keys\<close>

fun primary_time :: "exec_record \<Rightarrow> instant" where
  "primary_time (Submit r) = sa_send_attempt_at r"
| "primary_time (Ack r) = ba_broker_acknowledged_at r"
| "primary_time (Reject r) = oj_broker_acknowledged_at r"
| "primary_time (Partial r) = xf_exchange_event_at r"
| "primary_time (Complete r) = xf_exchange_event_at r"
| "primary_time (Timeout r) = to_locally_received_at r"
| "primary_time (Disconnect r) = do_locally_received_at r"
| "primary_time (Uncertain r) = uo_locally_received_at r"
| "primary_time (Readback r) = rb_broker_snapshot_at r"
| "primary_time (Replace r) = ri_replace_created_at r"

text \<open>\<open>locally_received_at\<close>, and for the two local actions, which have none, their own time: what
  \<open>_known_no_later_than\<close> compares.\<close>

fun learned_at :: "exec_record \<Rightarrow> instant" where
  "learned_at (Submit r) = sa_send_attempt_at r"
| "learned_at (Ack r) = ba_locally_received_at r"
| "learned_at (Reject r) = oj_locally_received_at r"
| "learned_at (Partial r) = xf_locally_received_at r"
| "learned_at (Complete r) = xf_locally_received_at r"
| "learned_at (Timeout r) = to_locally_received_at r"
| "learned_at (Disconnect r) = do_locally_received_at r"
| "learned_at (Uncertain r) = uo_locally_received_at r"
| "learned_at (Readback r) = rb_locally_received_at r"
| "learned_at (Replace r) = ri_replace_created_at r"

definition known_no_later_than :: "exec_record \<Rightarrow> instant \<Rightarrow> bool" where
  "known_no_later_than r observed_at \<longleftrightarrow> learned_at r \<le> observed_at"

definition event_sort_key ::
  "(stored_record \<Rightarrow> string) \<Rightarrow> exec_record \<Rightarrow> instant \<times> nat \<times> string" where
  "event_sort_key canon r =
     (primary_time r, if is_submit r \<or> is_replace r then 0 else 1, canon (Exec r))"

definition broker_facts :: "exec_record list \<Rightarrow> exec_record list" where
  "broker_facts rs = filter is_broker_fact rs"

definition fill_records :: "exec_record list \<Rightarrow> fill_record list" where
  "fill_records rs = List.map_filter the_fill rs"

definition readback_records :: "exec_record list \<Rightarrow> broker_readback list" where
  "readback_records rs = List.map_filter the_readback rs"

definition submits_in_order ::
  "(stored_record \<Rightarrow> string) \<Rightarrow> exec_record list \<Rightarrow> exec_record list" where
  "submits_in_order canon rs = sort_key (event_sort_key canon) (filter is_submit rs)"

definition replaces_in_order ::
  "(stored_record \<Rightarrow> string) \<Rightarrow> exec_record list \<Rightarrow> replace_intent list" where
  "replaces_in_order canon rs =
     List.map_filter the_replace (sort_key (event_sort_key canon) (filter is_replace rs))"

subsection \<open>Fill intervals\<close>

definition fill_interval :: "fill_record \<Rightarrow> int \<times> int" where
  "fill_interval r = (xf_cumulative_quantity r - xf_fill_quantity r, xf_cumulative_quantity r)"

fun any_overlap :: "(int \<times> int) list \<Rightarrow> bool" where
  "any_overlap [] = False"
| "any_overlap ((left_start, left_end) # rest) =
     (list_ex (\<lambda>(right_start, right_end). left_start < right_end \<and> right_start < left_end) rest
      \<or> any_overlap rest)"

text \<open>The loop over the sorted intervals, \<open>merged\<close> being the list built so far.\<close>

fun merge_loop :: "(int \<times> int) list \<Rightarrow> (int \<times> int) list \<Rightarrow> (int \<times> int) list" where
  "merge_loop merged [] = merged"
| "merge_loop merged ((start, stop) # rest) =
     (if merged = [] \<or> start > snd (last merged) then merge_loop (merged @ [(start, stop)]) rest
      else merge_loop (butlast merged @ [(fst (last merged), max (snd (last merged)) stop)]) rest)"

definition derive_fill_intervals :: "exec_record list \<Rightarrow> (int \<times> int) list \<times> bool" where
  "derive_fill_intervals rs =
     (let raw = sort (map fill_interval (fill_records rs)) in (merge_loop [] raw, any_overlap raw))"

definition covers_through :: "(int \<times> int) list \<Rightarrow> int \<Rightarrow> bool" where
  "covers_through intervals quantity \<longleftrightarrow> quantity = 0 \<or> intervals = [(0, quantity)]"

fun cumulative_of :: "exec_record \<Rightarrow> int option" where
  "cumulative_of (Partial r) = Some (xf_cumulative_quantity r)"
| "cumulative_of (Complete r) = Some (xf_cumulative_quantity r)"
| "cumulative_of (Readback r) = Some (rb_cumulative_quantity r)"
| "cumulative_of _ = None"

definition derive_observed_cumulative :: "exec_record list \<Rightarrow> int" where
  "derive_observed_cumulative rs =
     (case max_default (List.map_filter cumulative_of rs) of None \<Rightarrow> 0 | Some q \<Rightarrow> q)"

subsection \<open>The broker's order id\<close>

fun broker_order_of :: "exec_record \<Rightarrow> ident option" where
  "broker_order_of (Ack r) = Some (ba_broker_order_id r)"
| "broker_order_of (Reject r) = oj_broker_order_id r"
| "broker_order_of (Partial r) = Some (xf_broker_order_id r)"
| "broker_order_of (Complete r) = Some (xf_broker_order_id r)"
| "broker_order_of (Readback r) = rb_broker_order_id r"
| "broker_order_of _ = None"

definition derive_broker_order_id ::
  "(stored_record \<Rightarrow> string) \<Rightarrow> exec_record list \<Rightarrow> ident option \<times> bool" where
  "derive_broker_order_id canon rs =
     (case sort_key (event_sort_key canon)
             (filter (\<lambda>r. broker_order_of r \<noteq> None) (broker_facts rs)) of
        [] \<Rightarrow> (None, False)
      | r # later \<Rightarrow> (broker_order_of r, \<not> list_all (\<lambda>r'. broker_order_of r' = broker_order_of r) later))"

subsection \<open>Contradictions between records\<close>

definition has_fill_cumulative_regression :: "exec_record list \<Rightarrow> bool" where
  "has_fill_cumulative_regression rs =
     list_ex (\<lambda>earlier.
       (case cumulative_of earlier of
          None \<Rightarrow> False
        | Some earlier_cumulative \<Rightarrow>
            list_ex (\<lambda>later.
                Some (xf_broker_order_id later) = broker_order_of earlier
                \<and> xf_exchange_event_at later > primary_time earlier
                \<and> xf_cumulative_quantity later < earlier_cumulative)
              (fill_records rs))) rs"

definition has_retry_after_local_knowledge ::
  "(stored_record \<Rightarrow> string) \<Rightarrow> exec_record list \<Rightarrow> bool" where
  "has_retry_after_local_knowledge canon rs =
     (let attempts = submits_in_order canon rs;
          boundaries = map learned_at (broker_facts rs) @ map learned_at (filter is_uncertainty rs)
      in list_ex (\<lambda>retry. list_ex (\<lambda>boundary. boundary \<le> primary_time retry) boundaries)
           (drop 1 attempts))"

definition resolved_before ::
  "broker_readback list \<Rightarrow> replace_intent \<Rightarrow> replace_intent \<Rightarrow> bool" where
  "resolved_before readbacks prior current =
     list_ex (\<lambda>rb.
        rb_total_quantity rb \<noteq> None
        \<and> rb_broker_order_id rb = Some (ri_broker_order_id prior)
        \<and> rb_record_id rb \<noteq> ri_based_on_readback_id prior
        \<and> rb_broker_snapshot_at rb > ri_replace_created_at prior
        \<and> (rb_locally_received_at rb < ri_replace_created_at current
           \<or> (rb_record_id rb = ri_based_on_readback_id current
              \<and> rb_locally_received_at rb \<le> ri_replace_created_at current))) readbacks"

fun overlapping_from ::
  "broker_readback list \<Rightarrow> replace_intent list \<Rightarrow> replace_intent list \<Rightarrow> bool" where
  "overlapping_from readbacks prior [] = False"
| "overlapping_from readbacks prior (current # later) =
     (list_ex (\<lambda>p. \<not> resolved_before readbacks p current) prior
      \<or> overlapping_from readbacks (prior @ [current]) later)"

definition has_overlapping_replace_intents ::
  "(stored_record \<Rightarrow> string) \<Rightarrow> exec_record list \<Rightarrow> bool" where
  "has_overlapping_replace_intents canon rs =
     overlapping_from (readback_records rs) [] (replaces_in_order canon rs)"

subsection \<open>Quantity authority\<close>

text \<open>The local variables of the loop of \<open>_derive_quantity_authority\<close>.\<close>

record authority_loop =
  qa_confirmed :: "int option"
  qa_pending :: "int option"
  qa_pending_basis_id :: "ident option"
  qa_pending_created_at :: "instant option"
  qa_superseded_pending :: "int option"
  qa_confirmed_at :: "instant option"
  qa_submitted :: bool
  qa_reasons :: "reason set"

definition authority_init :: authority_loop where
  "authority_init = \<lparr>qa_confirmed = None, qa_pending = None, qa_pending_basis_id = None,
     qa_pending_created_at = None, qa_superseded_pending = None, qa_confirmed_at = None,
     qa_submitted = False, qa_reasons = {}\<rparr>"

definition note_reason :: "bool \<Rightarrow> reason \<Rightarrow> authority_loop \<Rightarrow> authority_loop" where
  "note_reason c x q = (if c then q\<lparr>qa_reasons := insert x (qa_reasons q)\<rparr> else q)"

definition confirm :: "int \<Rightarrow> instant \<Rightarrow> authority_loop \<Rightarrow> authority_loop" where
  "confirm quantity when q = q\<lparr>qa_confirmed := Some quantity, qa_confirmed_at := Some when\<rparr>"

definition authority_readback ::
  "order_intent \<Rightarrow> broker_readback \<Rightarrow> int \<Rightarrow> authority_loop \<Rightarrow> authority_loop" where
  "authority_readback intent r observed q =
     (let when = rb_broker_snapshot_at r in
      if qa_pending q \<noteq> None \<and> Some (rb_record_id r) = qa_pending_basis_id q
         \<and> qa_superseded_pending q \<noteq> None
      then (confirm observed when
              (note_reason (Some observed \<noteq> qa_superseded_pending q) REPLACE_CONFIRMATION_MISMATCH q))
             \<lparr>qa_superseded_pending := None\<rparr>
      else if qa_pending q \<noteq> None \<and> Some (rb_record_id r) \<noteq> qa_pending_basis_id q
      then (if (case qa_pending_created_at q of None \<Rightarrow> False | Some created \<Rightarrow> when \<le> created)
            then (if Some observed \<noteq> qa_confirmed q
                  then confirm observed when (note_reason True AMBIGUOUS_REPLACE_CONFIRMATION q)
                  else q)
            else (confirm observed when
                    (note_reason (Some observed \<noteq> qa_pending q) REPLACE_CONFIRMATION_MISMATCH q))
                   \<lparr>qa_pending := None, qa_pending_basis_id := None, qa_pending_created_at := None\<rparr>)
      else if qa_confirmed q = None
      then confirm observed when
             (note_reason (observed \<noteq> oi_quantity intent) UNEXPECTED_CONFIRMED_TOTAL_CHANGE q)
      else if Some observed \<noteq> qa_confirmed q
      then confirm observed when (note_reason True UNEXPECTED_CONFIRMED_TOTAL_CHANGE q)
      else q)"

fun authority_step :: "order_intent \<Rightarrow> exec_record \<Rightarrow> authority_loop \<Rightarrow> authority_loop" where
  "authority_step intent (Submit r) q = q\<lparr>qa_submitted := True\<rparr>"
| "authority_step intent (Ack r) q =
     (if \<not> qa_submitted q then q
      else if qa_confirmed q = None
      then confirm (oi_quantity intent) (ba_broker_acknowledged_at r) q else q)"
| "authority_step intent (Replace r) q =
     (if \<not> qa_submitted q then q
      else (if qa_pending q \<noteq> None then q\<lparr>qa_superseded_pending := qa_pending q\<rparr> else q)
             \<lparr>qa_pending := Some (ri_new_total_quantity r),
              qa_pending_basis_id := Some (ri_based_on_readback_id r),
              qa_pending_created_at := Some (ri_replace_created_at r)\<rparr>)"
| "authority_step intent (Readback r) q =
     (if \<not> qa_submitted q then q
      else case rb_total_quantity r of
          None \<Rightarrow> q
        | Some observed \<Rightarrow> authority_readback intent r observed q)"
| "authority_step intent _ q = q"

fun has_authority :: "exec_record \<Rightarrow> bool" where
  "has_authority (Submit _) = True"
| "has_authority (Ack _) = True"
| "has_authority (Readback _) = True"
| "has_authority (Replace _) = True"
| "has_authority _ = False"

definition derive_quantity_authority ::
  "(stored_record \<Rightarrow> string) \<Rightarrow> order_intent \<Rightarrow> exec_record list
   \<Rightarrow> int option \<times> int option \<times> instant option \<times> reason set" where
  "derive_quantity_authority canon intent rs =
     (let q = fold (authority_step intent)
                (sort_key (event_sort_key canon) (filter has_authority rs)) authority_init
      in (qa_confirmed q, qa_pending q, qa_confirmed_at q, qa_reasons q))"

subsection \<open>Reasons from the broker's facts\<close>

definition readback_terminal_state :: "broker_readback \<Rightarrow> exec_state option" where
  "readback_terminal_state r = (case rb_status r of
      RB_FILLED \<Rightarrow> Some FILLED
    | RB_CANCELED \<Rightarrow>
        if rb_total_quantity r \<noteq> None \<and> Some (rb_cumulative_quantity r) = rb_total_quantity r
        then Some FILLED else Some CANCELED
    | RB_REJECTED \<Rightarrow> Some REJECTED
    | _ \<Rightarrow> None)"

record fact_loop =
  fq_reasons :: "reason set"
  fq_observed :: int
  fq_terminal :: "exec_state option"
  fq_terminal_cumulative :: int
  fq_terminal_at :: "instant option"

definition fact_init :: fact_loop where
  "fact_init = \<lparr>fq_reasons = {}, fq_observed = 0, fq_terminal = None, fq_terminal_cumulative = 0,
     fq_terminal_at = None\<rparr>"

definition note_fact :: "bool \<Rightarrow> reason \<Rightarrow> fact_loop \<Rightarrow> fact_loop" where
  "note_fact c x q = (if c then q\<lparr>fq_reasons := insert x (fq_reasons q)\<rparr> else q)"

definition fill_after_terminal :: "fill_record \<Rightarrow> fact_loop \<Rightarrow> bool" where
  "fill_after_terminal r q \<longleftrightarrow> fq_terminal q \<noteq> None
     \<and> (xf_cumulative_quantity r > fq_terminal_cumulative q
        \<or> (case fq_terminal_at q of None \<Rightarrow> False | Some t \<Rightarrow> xf_exchange_event_at r > t))"

definition fact_fill :: "fill_record \<Rightarrow> fact_loop \<Rightarrow> fact_loop" where
  "fact_fill r q = (note_fact (fill_after_terminal r q) TERMINAL_FACT_CONTRADICTION q)
     \<lparr>fq_observed := max (fq_observed q) (xf_cumulative_quantity r)\<rparr>"

definition fact_readback :: "broker_readback \<Rightarrow> fact_loop \<Rightarrow> fact_loop" where
  "fact_readback r q =
     (if rb_status r = RB_ABSENT \<or> rb_status r = RB_AMBIGUOUS
      then note_fact True AMBIGUOUS_READBACK q
      else let q1 = note_fact (rb_cumulative_quantity r < fq_observed q)
                      READBACK_CUMULATIVE_REGRESSION q;
               q2 = note_fact ((rb_status r = RB_OPEN \<or> rb_status r = RB_REJECTED) \<and> fq_observed q > 0)
                      READBACK_FILL_CONTRADICTION q1;
               mapped = readback_terminal_state r;
               q3 = note_fact (fq_terminal q \<noteq> None \<and> (mapped = None \<or> mapped \<noteq> fq_terminal q))
                      TERMINAL_FACT_CONTRADICTION q2;
               q4 = (if mapped \<noteq> None
                     then q3\<lparr>fq_terminal := mapped,
                             fq_terminal_cumulative := max (fq_observed q) (rb_cumulative_quantity r),
                             fq_terminal_at := Some (rb_broker_snapshot_at r)\<rparr>
                     else q3)
           in q4\<lparr>fq_observed := max (fq_observed q) (rb_cumulative_quantity r)\<rparr>)"

fun fact_step :: "exec_record \<Rightarrow> fact_loop \<Rightarrow> fact_loop" where
  "fact_step (Ack r) q =
     note_fact (fq_terminal q = Some CANCELED \<or> fq_terminal q = Some REJECTED)
       TERMINAL_FACT_CONTRADICTION q"
| "fact_step (Reject r) q =
     (note_fact (fq_terminal q \<noteq> None \<and> fq_terminal q \<noteq> Some REJECTED) TERMINAL_FACT_CONTRADICTION
       (note_fact (fq_observed q > 0) REJECT_WITH_OBSERVED_FILL q))
       \<lparr>fq_terminal := Some REJECTED, fq_terminal_cumulative := fq_observed q,
        fq_terminal_at := Some (oj_broker_acknowledged_at r)\<rparr>"
| "fact_step (Partial r) q = fact_fill r q"
| "fact_step (Complete r) q =
     (let q' = fact_fill r q
      in q'\<lparr>fq_terminal := Some FILLED, fq_terminal_cumulative := fq_observed q',
            fq_terminal_at := Some (xf_exchange_event_at r)\<rparr>)"
| "fact_step (Readback r) q = fact_readback r q"
| "fact_step _ q = q"

definition facts_in_order ::
  "(stored_record \<Rightarrow> string) \<Rightarrow> exec_record list \<Rightarrow> exec_record list" where
  "facts_in_order canon rs = sort_key (event_sort_key canon) (broker_facts rs)"

definition derive_fact_reasons ::
  "(stored_record \<Rightarrow> string) \<Rightarrow> exec_record list \<Rightarrow> reason set" where
  "derive_fact_reasons canon rs = fq_reasons (fold fact_step (facts_in_order canon rs) fact_init)"

subsection \<open>The broker's state\<close>

definition terminal_state :: "exec_state \<Rightarrow> bool" where
  "terminal_state s \<longleftrightarrow> s = FILLED \<or> s = CANCELED \<or> s = REJECTED"

definition state_for_status :: "broker_readback \<Rightarrow> exec_state \<Rightarrow> exec_state" where
  "state_for_status r s = (case rb_status r of
      RB_OPEN \<Rightarrow> ACKNOWLEDGED
    | RB_PARTIALLY_FILLED \<Rightarrow> PARTIALLY_FILLED
    | RB_FILLED \<Rightarrow> FILLED
    | RB_CANCELED \<Rightarrow>
        if rb_total_quantity r \<noteq> None \<and> Some (rb_cumulative_quantity r) = rb_total_quantity r
        then FILLED else CANCELED
    | RB_REJECTED \<Rightarrow> REJECTED
    | _ \<Rightarrow> s)"

definition state_fill :: "exec_state \<Rightarrow> fill_record \<Rightarrow> exec_state \<times> int \<Rightarrow> exec_state \<times> int" where
  "state_fill reached r = (\<lambda>(s, observed).
     (if terminal_state s \<and> xf_cumulative_quantity r \<le> observed then s else reached,
      max observed (xf_cumulative_quantity r)))"

fun state_step :: "exec_record \<Rightarrow> exec_state \<times> int \<Rightarrow> exec_state \<times> int" where
  "state_step (Ack r) (s, observed) =
     (if terminal_state s then s else if observed > 0 then PARTIALLY_FILLED else ACKNOWLEDGED, observed)"
| "state_step (Reject r) (s, observed) = (if observed = 0 then REJECTED else s, observed)"
| "state_step (Partial r) q = state_fill PARTIALLY_FILLED r q"
| "state_step (Complete r) q = state_fill FILLED r q"
| "state_step (Readback r) (s, observed) =
     (if rb_status r = RB_ABSENT \<or> rb_status r = RB_AMBIGUOUS then s
      else if rb_cumulative_quantity r < observed then s
      else if (rb_status r = RB_OPEN \<or> rb_status r = RB_REJECTED) \<and> observed > 0 then s
      else state_for_status r s,
      max observed (rb_cumulative_quantity r))"
| "state_step _ q = q"

definition derive_broker_state ::
  "(stored_record \<Rightarrow> string) \<Rightarrow> exec_record list \<Rightarrow> exec_state" where
  "derive_broker_state canon rs =
     (if \<not> list_ex is_submit rs then CREATED
      else fst (fold state_step (facts_in_order canon rs) (SUBMITTING, 0)))"

subsection \<open>Receipts and uncertainty\<close>

definition derive_latest_authoritative_receipt :: "exec_record list \<Rightarrow> instant option" where
  "derive_latest_authoritative_receipt rs =
     (let non_readbacks = filter (\<lambda>r. \<not> is_readback r) (broker_facts rs);
          latest = max_default (map primary_time non_readbacks)
      in max_default (map learned_at non_readbacks
           @ map learned_at (filter (\<lambda>r. is_readback r
               \<and> (case latest of None \<Rightarrow> True | Some t \<Rightarrow> primary_time r \<ge> t)) rs)))"

definition recovers :: "instant \<Rightarrow> exec_record \<Rightarrow> bool" where
  "recovers since r = (case the_readback r of
      None \<Rightarrow> False
    | Some rb \<Rightarrow> rb_status rb \<noteq> RB_ABSENT \<and> rb_status rb \<noteq> RB_AMBIGUOUS
        \<and> rb_locally_received_at rb > since \<and> rb_broker_snapshot_at rb > since)"

definition derive_uncertain_since :: "exec_record list \<Rightarrow> instant option" where
  "derive_uncertain_since rs =
     (case max_default (map learned_at (filter is_uncertainty rs)) of
        None \<Rightarrow> None
      | Some latest \<Rightarrow> if list_ex (recovers latest) rs then None else Some latest)"

subsection \<open>All the reasons\<close>

fun kind_mismatch :: "int \<Rightarrow> exec_record \<Rightarrow> bool" where
  "kind_mismatch confirmed (Complete r) = (xf_cumulative_quantity r \<noteq> confirmed)"
| "kind_mismatch confirmed (Partial r) = (xf_cumulative_quantity r \<ge> confirmed)"
| "kind_mismatch confirmed _ = False"

definition reason_if :: "bool \<Rightarrow> reason \<Rightarrow> reason set" where
  "reason_if c x = (if c then {x} else {})"

text \<open>The argument \<open>invalid_basis\<close> is the value of
  \<open>validate_replace_bases and _has_invalid_replace_basis(records)\<close>.\<close>

definition derive_reconciliation_reasons ::
  "(stored_record \<Rightarrow> string) \<Rightarrow> exec_record list \<Rightarrow> int option \<Rightarrow> reason set \<Rightarrow> int
   \<Rightarrow> (int \<times> int) list \<Rightarrow> bool \<Rightarrow> bool \<Rightarrow> bool \<Rightarrow> reason set" where
  "derive_reconciliation_reasons canon rs confirmed_total quantity_reasons filled_quantity
     fill_intervals fill_overlap broker_id_conflict invalid_basis =
     quantity_reasons
     \<union> reason_if (broker_facts rs \<noteq> [] \<and> \<not> list_ex is_submit rs) MISSING_SUBMIT
     \<union> reason_if broker_id_conflict BROKER_ORDER_ID_CONFLICT
     \<union> reason_if fill_overlap FILL_ECONOMIC_OVERLAP
     \<union> reason_if (has_fill_cumulative_regression rs) FILL_CUMULATIVE_REGRESSION
     \<union> reason_if (has_retry_after_local_knowledge canon rs) RETRY_AFTER_LOCAL_KNOWLEDGE
     \<union> reason_if (has_overlapping_replace_intents canon rs) OVERLAPPING_REPLACE_INTENTS
     \<union> reason_if invalid_basis INVALID_REPLACE_BASIS
     \<union> reason_if (filled_quantity > 0 \<and> \<not> covers_through fill_intervals filled_quantity)
         FILL_ECONOMIC_GAP
     \<union> reason_if (filled_quantity > 0 \<and> confirmed_total = None) TOTAL_UNCONFIRMED
     \<union> (case confirmed_total of
           None \<Rightarrow> {}
         | Some confirmed \<Rightarrow> reason_if (filled_quantity > confirmed) FILL_EXCEEDS_CONFIRMED_TOTAL
             \<union> reason_if (list_ex (kind_mismatch confirmed) rs) FILL_KIND_TOTAL_MISMATCH)
     \<union> derive_fact_reasons canon rs"

definition effective_state :: "reason set \<Rightarrow> instant option \<Rightarrow> exec_state \<Rightarrow> exec_state" where
  "effective_state reasons uncertain_since broker_state =
     (if reasons \<noteq> {} then RECONCILIATION_REQUIRED
      else if uncertain_since \<noteq> None then UNKNOWN else broker_state)"

definition effective_uncertain ::
  "exec_state \<Rightarrow> exec_record list \<Rightarrow> instant option" where
  "effective_uncertain broker_state rs =
     (if terminal_state broker_state then None else derive_uncertain_since rs)"

subsection \<open>The replace basis\<close>

definition basis_candidate ::
  "ident option \<Rightarrow> int option \<Rightarrow> int \<Rightarrow> broker_readback \<Rightarrow> bool" where
  "basis_candidate broker_order_id confirmed_total filled_quantity r \<longleftrightarrow>
     (rb_status r = RB_OPEN \<or> rb_status r = RB_PARTIALLY_FILLED)
     \<and> rb_broker_order_id r = broker_order_id \<and> rb_total_quantity r = confirmed_total
     \<and> rb_cumulative_quantity r = filled_quantity"

definition invalidates :: "broker_readback \<Rightarrow> exec_record \<Rightarrow> bool" where
  "invalidates candidate f \<longleftrightarrow> f \<noteq> Readback candidate
     \<and> (learned_at f \<ge> rb_locally_received_at candidate
        \<or> primary_time f > rb_broker_snapshot_at candidate)"

definition basis_key ::
  "(stored_record \<Rightarrow> string) \<Rightarrow> broker_readback \<Rightarrow> instant \<times> instant \<times> string" where
  "basis_key canon r =
     (rb_locally_received_at r, rb_broker_snapshot_at r, canon (Exec (Readback r)))"

definition derive_replace_basis ::
  "(stored_record \<Rightarrow> string) \<Rightarrow> exec_record list \<Rightarrow> exec_state \<Rightarrow> ident option \<Rightarrow> int option
   \<Rightarrow> int option \<Rightarrow> int \<Rightarrow> (int \<times> int) list \<Rightarrow> broker_readback option" where
  "derive_replace_basis canon rs state broker_order_id confirmed_total pending_total
     filled_quantity fill_intervals =
     (if (state \<noteq> ACKNOWLEDGED \<and> state \<noteq> PARTIALLY_FILLED) \<or> pending_total \<noteq> None
         \<or> \<not> covers_through fill_intervals filled_quantity
      then None
      else case filter (\<lambda>c. \<not> list_ex (invalidates c) (broker_facts rs))
             (filter (basis_candidate broker_order_id confirmed_total filled_quantity)
               (readback_records rs)) of
          [] \<Rightarrow> None
        | c # cs \<Rightarrow> Some (first_max (basis_key canon) c cs))"

definition derive_local_replace_basis ::
  "(stored_record \<Rightarrow> string) \<Rightarrow> order_intent \<Rightarrow> exec_record list
   \<Rightarrow> broker_readback option \<times> int option" where
  "derive_local_replace_basis canon intent rs =
     (let (confirmed_total, pending_total, _, quantity_reasons) =
            derive_quantity_authority canon intent rs;
          (fill_intervals, fill_overlap) = derive_fill_intervals rs;
          filled_quantity = derive_observed_cumulative rs;
          (broker_order_id, broker_id_conflict) = derive_broker_order_id canon rs;
          reasons = derive_reconciliation_reasons canon rs confirmed_total quantity_reasons
                      filled_quantity fill_intervals fill_overlap broker_id_conflict False;
          broker_state = derive_broker_state canon rs;
          state = effective_state reasons (effective_uncertain broker_state rs) broker_state
      in (derive_replace_basis canon rs state broker_order_id confirmed_total pending_total
            filled_quantity fill_intervals, pending_total))"

definition has_invalid_replace_basis ::
  "(stored_record \<Rightarrow> string) \<Rightarrow> order_intent \<Rightarrow> exec_record list \<Rightarrow> bool" where
  "has_invalid_replace_basis canon intent rs =
     list_ex (\<lambda>p.
       let known = filter (\<lambda>r. r \<noteq> Replace p \<and> known_no_later_than r (ri_replace_created_at p)) rs
       in case derive_local_replace_basis canon intent known of
            (_, Some _) \<Rightarrow> False
          | (None, None) \<Rightarrow> True
          | (Some basis, None) \<Rightarrow> rb_record_id basis \<noteq> ri_based_on_readback_id p)
       (List.map_filter the_replace rs)"

subsection \<open>The lifecycle\<close>

record lifecycle =
  lc_intent :: order_intent
  lc_state :: exec_state
  lc_broker_state :: exec_state
  lc_records :: "exec_record list"
  lc_submit_attempt_ids :: "ident list"
  lc_broker_order_id :: "ident option"
  lc_confirmed_total :: "int option"
  lc_pending_total :: "int option"
  lc_filled_quantity :: int
  lc_fill_intervals :: "(int \<times> int) list"
  lc_reasons :: "reason set"
  lc_latest_fill_exchange_at :: "instant option"
  lc_latest_broker_fact_at :: "instant option"
  lc_latest_broker_fact_received_at :: "instant option"
  lc_latest_total_confirmation_at :: "instant option"
  lc_uncertain_since_at :: "instant option"
  lc_replace_basis :: "broker_readback option"

definition lifecycle_start :: "order_intent \<Rightarrow> lifecycle" where
  "lifecycle_start i =
     \<lparr>lc_intent = i, lc_state = CREATED, lc_broker_state = CREATED, lc_records = [],
      lc_submit_attempt_ids = [], lc_broker_order_id = None, lc_confirmed_total = None,
      lc_pending_total = None, lc_filled_quantity = 0, lc_fill_intervals = [], lc_reasons = {},
      lc_latest_fill_exchange_at = None, lc_latest_broker_fact_at = None,
      lc_latest_broker_fact_received_at = None, lc_latest_total_confirmation_at = None,
      lc_uncertain_since_at = None, lc_replace_basis = None\<rparr>"

definition economically_covered_quantity :: "lifecycle \<Rightarrow> int" where
  "economically_covered_quantity L = sum_list (map (\<lambda>(start, stop). stop - start) (lc_fill_intervals L))"

definition project_records ::
  "(stored_record \<Rightarrow> string) \<Rightarrow> order_intent \<Rightarrow> exec_record list \<Rightarrow> lifecycle" where
  "project_records canon intent rs =
     (let (confirmed_total, pending_total, total_at, quantity_reasons) =
            derive_quantity_authority canon intent rs;
          (fill_intervals, fill_overlap) = derive_fill_intervals rs;
          filled_quantity = derive_observed_cumulative rs;
          (broker_order_id, broker_id_conflict) = derive_broker_order_id canon rs;
          reasons = derive_reconciliation_reasons canon rs confirmed_total quantity_reasons
                      filled_quantity fill_intervals fill_overlap broker_id_conflict
                      (has_invalid_replace_basis canon intent rs);
          broker_state = derive_broker_state canon rs;
          uncertain_since = effective_uncertain broker_state rs;
          state = effective_state reasons uncertain_since broker_state
      in \<lparr>lc_intent = intent, lc_state = state, lc_broker_state = broker_state, lc_records = rs,
          lc_submit_attempt_ids = map exec_record_id (submits_in_order canon rs),
          lc_broker_order_id = broker_order_id, lc_confirmed_total = confirmed_total,
          lc_pending_total = pending_total, lc_filled_quantity = filled_quantity,
          lc_fill_intervals = fill_intervals, lc_reasons = reasons,
          lc_latest_fill_exchange_at = max_default (map xf_exchange_event_at (fill_records rs)),
          lc_latest_broker_fact_at = max_default (map primary_time (broker_facts rs)),
          lc_latest_broker_fact_received_at = derive_latest_authoritative_receipt rs,
          lc_latest_total_confirmation_at = total_at, lc_uncertain_since_at = uncertain_since,
          lc_replace_basis = derive_replace_basis canon rs state broker_order_id confirmed_total
            pending_total filled_quantity fill_intervals\<rparr>)"

subsection \<open>Applying a record\<close>

text \<open>\<open>_check_identity\<close>: walks the retained records, the intent first. \<open>True\<close> is an exact
  duplicate.\<close>

fun check_identity ::
  "(stored_record \<Rightarrow> string) \<Rightarrow> exec_record \<Rightarrow> stored_record list \<Rightarrow> lifecycle_error + bool" where
  "check_identity canon r [] = Inr False"
| "check_identity canon r (existing # later) =
     (if stored_id existing = exec_record_id r
      then (if canon existing = canon (Exec r) then Inr True else Inl RecordIdentityCollisionError)
      else if stored_source_key existing = exec_source_key r
      then (if canon existing = canon (Exec r) then Inr True else Inl SequenceIdentityCollisionError)
      else if broker_sequence (Exec r) \<noteq> None \<and> broker_sequence existing = broker_sequence (Exec r)
         \<and> fst (stored_source_key existing) = fst (exec_source_key r)
      then (if canon existing = canon (Exec r) then Inr True else Inl SequenceIdentityCollisionError)
      else check_identity canon r later)"

definition stored_records :: "lifecycle \<Rightarrow> stored_record list" where
  "stored_records L = Intent (lc_intent L) # map Exec (lc_records L)"

definition first_submit_at :: "exec_record list \<Rightarrow> instant option" where
  "first_submit_at rs = (case map primary_time (filter is_submit rs) of
      [] \<Rightarrow> None | t # ts \<Rightarrow> Some (fold min ts t))"

definition require_after_first_submit :: "exec_record list \<Rightarrow> instant \<Rightarrow> lifecycle_error + unit" where
  "require_after_first_submit rs event_at = (case first_submit_at rs of
      None \<Rightarrow> Inr ()
    | Some t \<Rightarrow> if event_at < t then Inl TemporalOrderError else Inr ())"

definition with_record ::
  "(stored_record \<Rightarrow> string) \<Rightarrow> lifecycle \<Rightarrow> exec_record \<Rightarrow> lifecycle" where
  "with_record canon L r = project_records canon (lc_intent L) (lc_records L @ [r])"

definition lc_apply_submit ::
  "(stored_record \<Rightarrow> string) \<Rightarrow> lifecycle \<Rightarrow> submit_attempt \<Rightarrow> lifecycle_error + lifecycle" where
  "lc_apply_submit canon L r =
     (let rs = lc_records L @ [Submit r];
          first_attempt = hd (submits_in_order canon rs)
      in if list_ex (\<lambda>f. primary_time f < primary_time first_attempt) (broker_facts rs)
         then Inl TemporalOrderError
         else Inr (project_records canon (lc_intent L) rs))"

definition find_attempt :: "exec_record list \<Rightarrow> ident \<Rightarrow> exec_record option" where
  "find_attempt rs attempt_id = find (\<lambda>r. is_submit r \<and> exec_record_id r = attempt_id) rs"

definition lc_apply_uncertainty ::
  "(stored_record \<Rightarrow> string) \<Rightarrow> lifecycle \<Rightarrow> exec_record \<Rightarrow> lifecycle_error + lifecycle" where
  "lc_apply_uncertainty canon L r =
     (case (case r of
              Timeout t \<Rightarrow>
                if to_attempt_id t \<notin> set (lc_submit_attempt_ids L) then Inl TransitionRefusedError
                else (case find_attempt (lc_records L) (to_attempt_id t) of
                    None \<Rightarrow> Inl StopIteration
                  | Some attempt \<Rightarrow>
                      if to_locally_received_at t < primary_time attempt
                      then Inl TemporalOrderError else Inr ())
            | _ \<Rightarrow> require_after_first_submit (lc_records L) (learned_at r)) of
        Inl e \<Rightarrow> Inl e
      | Inr _ \<Rightarrow>
          if lc_submit_attempt_ids L = [] then Inl TransitionRefusedError
          else Inr (with_record canon L r))"

text \<open>\<open>_apply_ack\<close>, \<open>_apply_reject\<close>, \<open>_apply_fill\<close> and \<open>_apply_readback\<close> differ only in the time
  they read, which is the primary time of the record.\<close>

definition lc_apply_fact ::
  "(stored_record \<Rightarrow> string) \<Rightarrow> lifecycle \<Rightarrow> exec_record \<Rightarrow> lifecycle_error + lifecycle" where
  "lc_apply_fact canon L r =
     (case require_after_first_submit (lc_records L) (primary_time r) of
        Inl e \<Rightarrow> Inl e
      | Inr _ \<Rightarrow> Inr (with_record canon L r))"

definition retained_basis :: "exec_record list \<Rightarrow> ident \<Rightarrow> broker_readback option" where
  "retained_basis rs readback_id = find (\<lambda>r. rb_record_id r = readback_id) (readback_records rs)"

definition lc_apply_replace ::
  "(stored_record \<Rightarrow> string) \<Rightarrow> lifecycle \<Rightarrow> replace_intent \<Rightarrow> lifecycle_error + lifecycle" where
  "lc_apply_replace canon L r =
     (case retained_basis (lc_records L) (ri_based_on_readback_id r) of
        None \<Rightarrow> Inl ReplacementRefusedError
      | Some retained \<Rightarrow>
          if ri_replace_created_at r < rb_locally_received_at retained then Inl TemporalOrderError
          else let known = filter (\<lambda>x. known_no_later_than x (ri_replace_created_at r)) (lc_records L);
                   historical = project_records canon (lc_intent L) known
               in case derive_local_replace_basis canon (lc_intent L) known of
                    (_, Some _) \<Rightarrow>
                      if rb_broker_order_id retained \<noteq> Some (ri_broker_order_id r)
                      then Inl ReplacementRefusedError
                      else if ri_new_total_quantity r \<le> rb_cumulative_quantity retained
                      then Inl ReplacementRefusedError
                      else Inr (with_record canon L (Replace r))
                  | (None, None) \<Rightarrow> Inl ReplacementRefusedError
                  | (Some basis, None) \<Rightarrow>
                      if rb_record_id basis \<noteq> ri_based_on_readback_id r then Inl ReplacementRefusedError
                      else if rb_broker_order_id basis \<noteq> Some (ri_broker_order_id r)
                           \<or> lc_broker_order_id historical \<noteq> Some (ri_broker_order_id r)
                      then Inl ReplacementRefusedError
                      else if rb_total_quantity basis \<noteq> lc_confirmed_total historical
                      then Inl ReplacementRefusedError
                      else if rb_cumulative_quantity basis \<noteq> lc_filled_quantity historical
                      then Inl ReplacementRefusedError
                      else if \<not> covers_through (lc_fill_intervals historical)
                                  (lc_filled_quantity historical)
                      then Inl ReplacementRefusedError
                      else if ri_new_total_quantity r \<le> lc_filled_quantity historical
                      then Inl ReplacementRefusedError
                      else Inr (with_record canon L (Replace r)))"

fun lc_dispatch ::
  "(stored_record \<Rightarrow> string) \<Rightarrow> lifecycle \<Rightarrow> exec_record \<Rightarrow> lifecycle_error + lifecycle" where
  "lc_dispatch canon L (Submit r) = lc_apply_submit canon L r"
| "lc_dispatch canon L (Timeout r) = lc_apply_uncertainty canon L (Timeout r)"
| "lc_dispatch canon L (Disconnect r) = lc_apply_uncertainty canon L (Disconnect r)"
| "lc_dispatch canon L (Uncertain r) = lc_apply_uncertainty canon L (Uncertain r)"
| "lc_dispatch canon L (Ack r) = lc_apply_fact canon L (Ack r)"
| "lc_dispatch canon L (Reject r) = lc_apply_fact canon L (Reject r)"
| "lc_dispatch canon L (Partial r) = lc_apply_fact canon L (Partial r)"
| "lc_dispatch canon L (Complete r) = lc_apply_fact canon L (Complete r)"
| "lc_dispatch canon L (Readback r) = lc_apply_fact canon L (Readback r)"
| "lc_dispatch canon L (Replace r) = lc_apply_replace canon L r"

definition lifecycle_apply ::
  "(stored_record \<Rightarrow> string) \<Rightarrow> lifecycle \<Rightarrow> exec_record \<Rightarrow> lifecycle_error + lifecycle" where
  "lifecycle_apply canon L r =
     (if exec_intent_id r \<noteq> oi_intent_id (lc_intent L) then Inl IntentMismatchError
      else case check_identity canon r (stored_records L) of
          Inl e \<Rightarrow> Inl e
        | Inr True \<Rightarrow> Inr L
        | Inr False \<Rightarrow>
            if primary_time r < oi_intent_created_at (lc_intent L) then Inl TemporalOrderError
            else lc_dispatch canon L r)"

text \<open>A delivery of records, one \<open>apply\<close> after the other; the first refusal ends it.\<close>

fun lifecycle_run ::
  "(stored_record \<Rightarrow> string) \<Rightarrow> lifecycle \<Rightarrow> exec_record list \<Rightarrow> lifecycle_error + lifecycle" where
  "lifecycle_run canon L [] = Inr L"
| "lifecycle_run canon L (r # rs) = (case lifecycle_apply canon L r of
      Inl e \<Rightarrow> Inl e
    | Inr L' \<Rightarrow> lifecycle_run canon L' rs)"

end
