(* ===== verification/Projection.thy ===== *)
theory Projection
  imports Lifecycle
begin

text \<open>
  What holds of every lifecycle reached by \<open>apply\<close>: it is the projection of its own records
  (\<open>derived\<close>), the projection does not depend on the order the records were retained in, an exact
  duplicate changes nothing, replace authority is closed whenever a reason, an uncertainty or a
  pending replacement is retained, and a lifecycle without reasons has fills that tile the filled
  quantity exactly.
\<close>

subsection \<open>Derivations from the set of records\<close>

lemma map_filter_set: "set (List.map_filter f rs) = {y. \<exists>x \<in> set rs. f x = Some y}"
  by (force simp: List.map_filter_def)

lemma map_filter_mset_cong:
  "mset rs = mset rs' \<Longrightarrow> mset (List.map_filter f rs) = mset (List.map_filter f rs')"
  by (simp add: List.map_filter_def)

lemma map_filter_set_cong:
  "set rs = set rs' \<Longrightarrow> set (List.map_filter f rs) = set (List.map_filter f rs')"
  by (simp add: map_filter_set)

lemma sort_mset_cong: "mset xs = mset ys \<Longrightarrow> sort xs = sort (ys :: 'a::linorder list)"
  by (metis sorted_list_of_multiset_mset)

lemma filter_set_cong: "set rs = set rs' \<Longrightarrow> set (filter P rs) = set (filter P rs')"
  by simp

lemma map_set_cong: "set rs = set rs' \<Longrightarrow> set (map f rs) = set (map f rs')"
  by simp

lemma nonempty_set_cong: "set rs = set rs' \<Longrightarrow> rs \<noteq> [] \<longleftrightarrow> rs' \<noteq> []"
  by auto

subsection \<open>The projection ignores the order of its records\<close>

definition told_apart :: "(stored_record \<Rightarrow> string) \<Rightarrow> exec_record list \<Rightarrow> bool" where
  "told_apart canon rs \<longleftrightarrow> inj_on (\<lambda>r. canon (Exec r)) (set rs)"

lemma told_apart_filter: "told_apart canon rs \<Longrightarrow> told_apart canon (filter P rs)"
  unfolding told_apart_def by (rule inj_on_subset) auto

lemma event_sort_key_inj: "told_apart canon rs \<Longrightarrow> inj_on (event_sort_key canon) (set rs)"
  unfolding told_apart_def by (auto simp: inj_on_def event_sort_key_def)

lemma sorted_events_cong:
  assumes "mset rs = mset rs'" and "told_apart canon rs"
  shows "sort_key (event_sort_key canon) (filter P rs) = sort_key (event_sort_key canon) (filter P rs')"
proof (rule sort_key_mset_cong)
  show "mset (filter P rs) = mset (filter P rs')" using assms(1) by simp
  show "inj_on (event_sort_key canon) (set (filter P rs))"
    using event_sort_key_inj [OF told_apart_filter [OF assms(2)]] .
qed

lemma broker_facts_set: "set (broker_facts rs) = {r \<in> set rs. is_broker_fact r}"
  by (simp add: broker_facts_def)

lemma facts_in_order_cong:
  "mset rs = mset rs' \<Longrightarrow> told_apart canon rs \<Longrightarrow> facts_in_order canon rs = facts_in_order canon rs'"
  unfolding facts_in_order_def broker_facts_def by (rule sorted_events_cong)

lemma submits_in_order_cong:
  "mset rs = mset rs' \<Longrightarrow> told_apart canon rs \<Longrightarrow> submits_in_order canon rs = submits_in_order canon rs'"
  unfolding submits_in_order_def by (rule sorted_events_cong)

lemma replaces_in_order_cong:
  "mset rs = mset rs' \<Longrightarrow> told_apart canon rs \<Longrightarrow> replaces_in_order canon rs = replaces_in_order canon rs'"
  unfolding replaces_in_order_def by (rule arg_cong [OF sorted_events_cong])

lemma quantity_authority_cong:
  "mset rs = mset rs' \<Longrightarrow> told_apart canon rs \<Longrightarrow>
   derive_quantity_authority canon i rs = derive_quantity_authority canon i rs'"
  unfolding derive_quantity_authority_def by (simp only: sorted_events_cong)

lemma fill_intervals_cong: "mset rs = mset rs' \<Longrightarrow> derive_fill_intervals rs = derive_fill_intervals rs'"
proof -
  assume m: "mset rs = mset rs'"
  have "mset (map fill_interval (fill_records rs)) = mset (map fill_interval (fill_records rs'))"
    using map_filter_mset_cong [OF m, of the_fill] unfolding fill_records_def mset_map by simp
  then have "sort (map fill_interval (fill_records rs)) = sort (map fill_interval (fill_records rs'))"
    by (rule sort_mset_cong)
  then show ?thesis by (simp add: derive_fill_intervals_def)
qed

lemma observed_cumulative_cong:
  "set rs = set rs' \<Longrightarrow> derive_observed_cumulative rs = derive_observed_cumulative rs'"
  unfolding derive_observed_cumulative_def
  using max_default_cong_set [OF map_filter_set_cong [of rs rs' cumulative_of]] by simp

lemma broker_order_id_cong:
  assumes "mset rs = mset rs'" and "told_apart canon rs"
  shows "derive_broker_order_id canon rs = derive_broker_order_id canon rs'"
  unfolding derive_broker_order_id_def broker_facts_def filter_filter
  by (simp only: sorted_events_cong [OF assms])

lemma broker_state_cong:
  assumes "mset rs = mset rs'" and "told_apart canon rs"
  shows "derive_broker_state canon rs = derive_broker_state canon rs'"
  unfolding derive_broker_state_def
  using facts_in_order_cong [OF assms] any_cong_set [OF mset_eq_setD [OF assms(1)], of is_submit] by simp

lemma uncertain_since_cong:
  assumes "set rs = set rs'"
  shows "derive_uncertain_since rs = derive_uncertain_since rs'"
proof -
  have "max_default (map learned_at (filter is_uncertainty rs))
      = max_default (map learned_at (filter is_uncertainty rs'))"
    by (rule max_default_cong_set) (simp add: assms)
  then show ?thesis
    unfolding derive_uncertain_since_def using any_cong_set [OF assms] by (simp split: option.split)
qed

lemma receipt_cong:
  assumes "set rs = set rs'"
  shows "derive_latest_authoritative_receipt rs = derive_latest_authoritative_receipt rs'"
proof -
  have "max_default (map primary_time (filter (\<lambda>r. \<not> is_readback r) (broker_facts rs)))
      = max_default (map primary_time (filter (\<lambda>r. \<not> is_readback r) (broker_facts rs')))"
    by (rule max_default_cong_set) (simp add: broker_facts_set assms)
  then show ?thesis
    unfolding derive_latest_authoritative_receipt_def Let_def
    by (intro max_default_cong_set) (simp add: broker_facts_set assms)
qed

lemma regression_cong:
  assumes "set rs = set rs'"
  shows "has_fill_cumulative_regression rs = has_fill_cumulative_regression rs'"
proof -
  have f: "set (fill_records rs) = set (fill_records rs')"
    unfolding fill_records_def by (rule map_filter_set_cong [OF assms])
  show ?thesis
    unfolding has_fill_cumulative_regression_def any_cong_set [OF f] by (rule any_cong_set [OF assms])
qed

lemma retry_cong:
  assumes "mset rs = mset rs'" and "told_apart canon rs"
  shows "has_retry_after_local_knowledge canon rs = has_retry_after_local_knowledge canon rs'"
proof -
  let ?b = "\<lambda>rs. map learned_at (broker_facts rs) @ map learned_at (filter is_uncertainty rs)"
  have "set (?b rs) = set (?b rs')" using mset_eq_setD [OF assms(1)] by (simp add: broker_facts_set)
  then have "list_ex P (?b rs) = list_ex P (?b rs')" for P by (rule any_cong_set)
  then show ?thesis
    unfolding has_retry_after_local_knowledge_def Let_def submits_in_order_cong [OF assms] by simp
qed

lemma overlapping_from_cong:
  "set rb = set rb' \<Longrightarrow> overlapping_from rb prior cs = overlapping_from rb' prior cs"
proof (induction rb prior cs rule: overlapping_from.induct)
  case (2 rb prior c cs)
  have "resolved_before rb p c = resolved_before rb' p c" for p
    unfolding resolved_before_def by (rule any_cong_set [OF 2(2)])
  with 2 show ?case by simp
qed simp

lemma overlapping_cong:
  assumes "mset rs = mset rs'" and "told_apart canon rs"
  shows "has_overlapping_replace_intents canon rs = has_overlapping_replace_intents canon rs'"
proof -
  have "set (readback_records rs) = set (readback_records rs')"
    unfolding readback_records_def by (rule map_filter_set_cong [OF mset_eq_setD [OF assms(1)]])
  then show ?thesis
    unfolding has_overlapping_replace_intents_def replaces_in_order_cong [OF assms]
    by (rule overlapping_from_cong)
qed

lemma reasons_cong:
  assumes m: "mset rs = mset rs'" and t: "told_apart canon rs"
  shows "derive_reconciliation_reasons canon rs c q f iv ov b bad
       = derive_reconciliation_reasons canon rs' c q f iv ov b bad"
proof -
  have s: "set rs = set rs'" by (rule mset_eq_setD [OF m])
  have "(broker_facts rs \<noteq> []) = (broker_facts rs' \<noteq> [])"
    by (rule nonempty_set_cong) (simp add: broker_facts_set s)
  then show ?thesis
    unfolding derive_reconciliation_reasons_def derive_fact_reasons_def
      facts_in_order_cong [OF m t] regression_cong [OF s] retry_cong [OF m t] overlapping_cong [OF m t]
      any_cong_set [OF s] by (simp only:)
qed

lemma replace_basis_cong:
  assumes m: "mset rs = mset rs'" and t: "told_apart canon rs"
  shows "derive_replace_basis canon rs st b c p f iv = derive_replace_basis canon rs' st b c p f iv"
proof -
  have s: "set rs = set rs'" by (rule mset_eq_setD [OF m])
  let ?e = "\<lambda>rs. filter (\<lambda>c. \<not> list_ex (invalidates c) (broker_facts rs))
     (filter (basis_candidate b c f) (readback_records rs))"
  have r: "set (readback_records rs) = set (readback_records rs')"
    unfolding readback_records_def by (rule map_filter_set_cong [OF s])
  have "list_ex P (broker_facts rs) = list_ex P (broker_facts rs')" for P
    by (rule any_cong_set) (simp add: broker_facts_set s)
  then have e: "set (?e rs) = set (?e rs')" by (simp add: r)
  have "inj_on (basis_key canon) (set (readback_records rs))"
  proof (rule inj_onI)
    fix x y assume xy: "x \<in> set (readback_records rs)" "y \<in> set (readback_records rs)"
      "basis_key canon x = basis_key canon y"
    then have x: "Readback x \<in> set rs" and y: "Readback y \<in> set rs"
      by (auto simp: readback_records_def map_filter_set elim!: the_readback.elims)
    have "canon (Exec (Readback x)) = canon (Exec (Readback y))"
      using xy(3) by (simp add: basis_key_def)
    then have "Readback x = Readback y" using inj_onD [OF t [unfolded told_apart_def], of "Readback x" "Readback y"] x y by simp
    then show "x = y" by simp
  qed
  then have k: "inj_on (basis_key canon) (set (?e rs))" by (rule inj_on_subset) auto
  have "(case ?e rs of [] \<Rightarrow> None | c # cs \<Rightarrow> Some (first_max (basis_key canon) c cs))
      = (case ?e rs' of [] \<Rightarrow> None | c # cs \<Rightarrow> Some (first_max (basis_key canon) c cs))"
  proof (cases "?e rs")
    case Nil
    then have "?e rs' = []" using e by (metis set_empty)
    with Nil show ?thesis by simp
  next
    case (Cons c cs)
    moreover obtain d ds where d: "?e rs' = d # ds" using e Cons by (metis list.exhaust set_empty list.distinct(1))
    moreover have "first_max (basis_key canon) c cs = first_max (basis_key canon) d ds"
      by (rule first_max_unique) (use e k Cons d in \<open>simp_all only:\<close>)
    ultimately show ?thesis by (simp only: list.case)
  qed
  then show ?thesis unfolding derive_replace_basis_def by (simp only:)
qed

lemmas projection_cong = quantity_authority_cong broker_order_id_cong
  broker_state_cong reasons_cong replace_basis_cong

lemma local_basis_cong:
  assumes m: "mset rs = mset rs'" and t: "told_apart canon rs"
  shows "derive_local_replace_basis canon i rs = derive_local_replace_basis canon i rs'"
proof -
  have s: "set rs = set rs'" by (rule mset_eq_setD [OF m])
  show ?thesis
    unfolding derive_local_replace_basis_def effective_uncertain_def
      projection_cong [OF m t] fill_intervals_cong [OF m]
      observed_cumulative_cong [OF s] uncertain_since_cong [OF s] by (rule refl)
qed

lemma invalid_basis_cong:
  assumes m: "mset rs = mset rs'" and t: "told_apart canon rs"
  shows "has_invalid_replace_basis canon i rs = has_invalid_replace_basis canon i rs'"
proof -
  have "derive_local_replace_basis canon i (filter P rs) = derive_local_replace_basis canon i (filter P rs')" for P
    by (rule local_basis_cong) (simp_all add: m told_apart_filter [OF t])
  then show ?thesis
    unfolding has_invalid_replace_basis_def Let_def
    using any_cong_set [OF map_filter_set_cong [OF mset_eq_setD [OF m], of the_replace]] by simp
qed

lemma project_records_cong:
  assumes m: "mset rs = mset rs'" and t: "told_apart canon rs"
  shows "project_records canon i rs = (project_records canon i rs')\<lparr>lc_records := rs\<rparr>"
proof -
  have s: "set rs = set rs'" by (rule mset_eq_setD [OF m])
  have f: "max_default (map xf_exchange_event_at (fill_records rs))
         = max_default (map xf_exchange_event_at (fill_records rs'))"
    by (rule max_default_cong_set [OF map_set_cong]) (simp add: fill_records_def map_filter_set s)
  have b: "max_default (map primary_time (broker_facts rs)) = max_default (map primary_time (broker_facts rs'))"
    by (rule max_default_cong_set) (simp add: broker_facts_set s)
  show ?thesis
    unfolding project_records_def effective_uncertain_def projection_cong [OF m t]
      fill_intervals_cong [OF m] observed_cumulative_cong [OF s] uncertain_since_cong [OF s]
      receipt_cong [OF s] invalid_basis_cong [OF m t] submits_in_order_cong [OF m t] f b Let_def
    by (simp split: prod.split)
qed


lemma lc_intent_project [simp]: "lc_intent (project_records canon i rs) = i"
  and lc_records_project [simp]: "lc_records (project_records canon i rs) = rs"
  and lc_filled_project [simp]: "lc_filled_quantity (project_records canon i rs) = derive_observed_cumulative rs"
  and lc_intervals_project [simp]: "lc_fill_intervals (project_records canon i rs) = fst (derive_fill_intervals rs)"
  and lc_submits_project [simp]: "lc_submit_attempt_ids (project_records canon i rs)
        = map exec_record_id (submits_in_order canon rs)"
  and lc_broker_state_project [simp]: "lc_broker_state (project_records canon i rs) = derive_broker_state canon rs"
  and lc_uncertain_project [simp]: "lc_uncertain_since_at (project_records canon i rs)
        = effective_uncertain (derive_broker_state canon rs) rs"
  and lc_confirmed_project [simp]: "lc_confirmed_total (project_records canon i rs)
        = fst (derive_quantity_authority canon i rs)"
  and lc_pending_project [simp]: "lc_pending_total (project_records canon i rs)
        = fst (snd (derive_quantity_authority canon i rs))"
  and lc_broker_order_project [simp]: "lc_broker_order_id (project_records canon i rs)
        = fst (derive_broker_order_id canon rs)"
  by (simp_all add: project_records_def Let_def split: prod.split)

lemma lc_reasons_project: "lc_reasons (project_records canon i rs) =
   derive_reconciliation_reasons canon rs (fst (derive_quantity_authority canon i rs))
     (snd (snd (snd (derive_quantity_authority canon i rs)))) (derive_observed_cumulative rs)
     (fst (derive_fill_intervals rs)) (snd (derive_fill_intervals rs))
     (snd (derive_broker_order_id canon rs)) (has_invalid_replace_basis canon i rs)"
  by (simp add: project_records_def Let_def split: prod.split)

lemma lc_state_project: "lc_state (project_records canon i rs) =
   effective_state (lc_reasons (project_records canon i rs))
     (lc_uncertain_since_at (project_records canon i rs)) (derive_broker_state canon rs)"
  by (simp add: project_records_def Let_def split: prod.split)

lemma lc_basis_project: "lc_replace_basis (project_records canon i rs) =
   derive_replace_basis canon rs (lc_state (project_records canon i rs))
     (fst (derive_broker_order_id canon rs)) (fst (derive_quantity_authority canon i rs))
     (fst (snd (derive_quantity_authority canon i rs))) (derive_observed_cumulative rs)
     (fst (derive_fill_intervals rs))"
  by (simp add: project_records_def Let_def split: prod.split)

lemma project_nil: "project_records canon i [] = lifecycle_start i"
  by (simp add: project_records_def lifecycle_start_def derive_quantity_authority_def authority_init_def
      derive_fill_intervals_def fill_records_def List.map_filter_def derive_observed_cumulative_def
      derive_broker_order_id_def broker_facts_def derive_reconciliation_reasons_def reason_if_def
      has_fill_cumulative_regression_def has_retry_after_local_knowledge_def submits_in_order_def
      has_overlapping_replace_intents_def replaces_in_order_def has_invalid_replace_basis_def
      derive_fact_reasons_def facts_in_order_def fact_init_def derive_broker_state_def
      effective_uncertain_def derive_uncertain_since_def effective_state_def terminal_state_def
      derive_latest_authoritative_receipt_def derive_replace_basis_def Let_def)

subsection \<open>Identity\<close>

text \<open>The three ways two records claim the same identity.\<close>

definition same_identity :: "stored_record \<Rightarrow> stored_record \<Rightarrow> bool" where
  "same_identity s t \<longleftrightarrow> stored_id s = stored_id t \<or> stored_source_key s = stored_source_key t
     \<or> (broker_sequence t \<noteq> None \<and> broker_sequence s = broker_sequence t
        \<and> fst (stored_source_key s) = fst (stored_source_key t))"

lemma same_identity_refl [simp]: "same_identity s s"
  by (simp add: same_identity_def)

lemma check_identity_head:
  "check_identity canon r (s # ss) =
     (if same_identity s (Exec r)
      then if canon s = canon (Exec r) then Inr True
           else Inl (if stored_id s = exec_record_id r then RecordIdentityCollisionError
                     else SequenceIdentityCollisionError)
      else check_identity canon r ss)"
  by (auto simp: same_identity_def)

lemma check_identity_append:
  "check_identity canon r (ss @ ts) =
     (case check_identity canon r ss of Inr False \<Rightarrow> check_identity canon r ts | res \<Rightarrow> res)"
  by (induction ss) (simp_all add: check_identity_head split: sum.split bool.split del: check_identity.simps(2))

lemma check_identity_fresh_iff:
  "check_identity canon r ss = Inr False \<longleftrightarrow> (\<forall>s \<in> set ss. \<not> same_identity s (Exec r))"
  by (induction ss) (simp_all add: check_identity_head del: check_identity.simps(2))

lemma check_identity_copy:
  "check_identity canon r ss = Inr True \<Longrightarrow> \<exists>s \<in> set ss. same_identity s (Exec r) \<and> canon s = canon (Exec r)"
  by (induction ss) (auto simp: check_identity_head simp del: check_identity.simps(2) split: if_splits)

subsection \<open>Applying a record\<close>

lemma lc_dispatch_with_record: "lc_dispatch canon L r = Inr L' \<Longrightarrow> L' = with_record canon L r"
proof (cases r)
  case (Submit x)
  assume "lc_dispatch canon L r = Inr L'"
  with Submit show ?thesis by (simp add: lc_apply_submit_def Let_def with_record_def split: if_splits)
next
  case (Replace x)
  assume "lc_dispatch canon L r = Inr L'"
  with Replace show ?thesis
    by (auto simp: lc_apply_replace_def Let_def split: option.splits if_splits prod.splits)
qed (auto simp: lc_apply_fact_def lc_apply_uncertainty_def split: sum.splits if_splits)

lemma lifecycle_apply_cases:
  assumes "lifecycle_apply canon L r = Inr L'"
  obtains (duplicate) "check_identity canon r (stored_records L) = Inr True" "L' = L"
  | (retained) "check_identity canon r (stored_records L) = Inr False"
      "oi_intent_created_at (lc_intent L) \<le> primary_time r" "exec_intent_id r = oi_intent_id (lc_intent L)"
      "lc_dispatch canon L r = Inr L'" "L' = with_record canon L r"
  using assms lc_dispatch_with_record
  by (fastforce simp: lifecycle_apply_def split: if_splits sum.splits bool.splits)

text \<open>The lifecycles a sequence of accepted records reaches from the intent.\<close>

inductive reached :: "(stored_record \<Rightarrow> string) \<Rightarrow> order_intent \<Rightarrow> lifecycle \<Rightarrow> bool"
  for canon and i where
  reached_start: "reached canon i (lifecycle_start i)"
| reached_apply: "reached canon i L \<Longrightarrow> lifecycle_apply canon L r = Inr L' \<Longrightarrow> reached canon i L'"

definition identities_apart :: "stored_record list \<Rightarrow> bool" where
  "identities_apart ss \<longleftrightarrow> sorted_wrt (\<lambda>s t. \<not> same_identity s t) ss"

text \<open>The invariant: a lifecycle is the projection of its records, no two of which share an
  identity.\<close>

definition lifecycle_inv :: "(stored_record \<Rightarrow> string) \<Rightarrow> order_intent \<Rightarrow> lifecycle \<Rightarrow> bool" where
  "lifecycle_inv canon i L \<longleftrightarrow> L = project_records canon i (lc_records L)
     \<and> identities_apart (stored_records L)
     \<and> (\<forall>r \<in> set (lc_records L). exec_intent_id r = oi_intent_id i
          \<and> oi_intent_created_at i \<le> primary_time r)"

lemma lifecycle_inv_start: "lifecycle_inv canon i (lifecycle_start i)"
proof -
  have "lifecycle_start i = project_records canon i []" by (simp add: project_nil)
  then show ?thesis
    by (simp add: lifecycle_inv_def stored_records_def identities_apart_def)
qed

lemma lifecycle_inv_intent: "lifecycle_inv canon i L \<Longrightarrow> lc_intent L = i"
  unfolding lifecycle_inv_def by (metis lc_intent_project)

lemma lifecycle_inv_apply:
  assumes inv: "lifecycle_inv canon i L" and ap: "lifecycle_apply canon L r = Inr L'"
  shows "lifecycle_inv canon i L'"
  using ap
proof (cases rule: lifecycle_apply_cases)
  case duplicate
  with inv show ?thesis by simp
next
  case retained
  have i: "lc_intent L = i" using inv by (rule lifecycle_inv_intent)
  have L': "L' = project_records canon i (lc_records L @ [r])" using retained(5) by (simp add: with_record_def i)
  have st: "stored_records L' = stored_records L @ [Exec r]" by (simp add: stored_records_def L' i)
  have "identities_apart (stored_records L')"
    using inv retained(1) unfolding st lifecycle_inv_def identities_apart_def
    by (simp add: sorted_wrt_append check_identity_fresh_iff)
  then show ?thesis using inv retained(2,3) unfolding lifecycle_inv_def by (simp add: L' i)
qed

lemma reached_inv: "reached canon i L \<Longrightarrow> lifecycle_inv canon i L"
  by (induction rule: reached.induct) (blast intro: lifecycle_inv_start lifecycle_inv_apply)+

lemma identities_apart_distinct: "identities_apart ss \<Longrightarrow> distinct ss"
  unfolding identities_apart_def
  by (induction ss) (auto simp: same_identity_def)

lemma lifecycle_inv_distinct: "lifecycle_inv canon i L \<Longrightarrow> distinct (lc_records L)"
  unfolding lifecycle_inv_def stored_records_def
  by (auto dest!: identities_apart_distinct simp: distinct_map)

lemma reached_run: "reached canon i L \<Longrightarrow> lifecycle_run canon L rs = Inr L' \<Longrightarrow> reached canon i L'"
proof (induction rs arbitrary: L)
  case (Cons r rs)
  then obtain L1 where "lifecycle_apply canon L r = Inr L1" "lifecycle_run canon L1 rs = Inr L'"
    by (auto split: sum.splits)
  with Cons show ?case by (blast intro: reached_apply)
qed simp

lemma retained_is_duplicate:
  assumes "identities_apart ss" and "Exec r \<in> set ss"
  shows "check_identity canon r ss = Inr True"
proof -
  obtain us vs where ss: "ss = us @ Exec r # vs" using split_list [OF assms(2)] by blast
  have "check_identity canon r us = Inr False"
    using assms(1) unfolding ss identities_apart_def check_identity_fresh_iff by (auto simp: sorted_wrt_append)
  then show ?thesis by (simp add: ss check_identity_append check_identity_head del: check_identity.simps(2))
qed

lemma reached_redelivery:
  assumes "reached canon i L" and "r \<in> set (lc_records L)"
  shows "lifecycle_apply canon L r = Inr L"
proof -
  note inv = reached_inv [OF assms(1)]
  have "exec_intent_id r = oi_intent_id (lc_intent L)"
    using inv assms(2) lifecycle_inv_intent [OF inv] by (simp add: lifecycle_inv_def)
  moreover have "check_identity canon r (stored_records L) = Inr True"
    using inv assms(2) by (intro retained_is_duplicate) (auto simp: lifecycle_inv_def stored_records_def)
  ultimately show ?thesis by (simp add: lifecycle_apply_def)
qed

lemma apply_retains:
  assumes "lifecycle_apply canon L r = Inr L'" and "inj_on canon (insert (Exec r) (set (stored_records L)))"
  shows "set (lc_records L') = insert r (set (lc_records L))"
  using assms(1)
proof (cases rule: lifecycle_apply_cases)
  case duplicate
  obtain s where s: "s \<in> set (stored_records L)" "canon s = canon (Exec r)"
    using check_identity_copy [OF duplicate(1)] by blast
  then have "s = Exec r" using inj_onD [OF assms(2) s(2)] by simp
  then have "r \<in> set (lc_records L)" using s(1) by (auto simp: stored_records_def)
  with duplicate(2) show ?thesis by auto
next
  case retained
  then show ?thesis by (simp add: with_record_def)
qed

lemma run_retains:
  assumes "lifecycle_run canon L rs = Inr L'"
    and "inj_on canon (insert (Intent (lc_intent L)) (Exec ` (set (lc_records L) \<union> set rs)))"
  shows "set (lc_records L') = set (lc_records L) \<union> set rs"
  using assms
proof (induction rs arbitrary: L)
  case (Cons r rs)
  obtain L1 where L1: "lifecycle_apply canon L r = Inr L1" "lifecycle_run canon L1 rs = Inr L'"
    using Cons.prems(1) by (auto split: sum.splits)
  have "inj_on canon (insert (Exec r) (set (stored_records L)))"
    by (rule inj_on_subset [OF Cons.prems(2)]) (auto simp: stored_records_def)
  with L1(1) have s: "set (lc_records L1) = insert r (set (lc_records L))" by (rule apply_retains)
  have i: "lc_intent L1 = lc_intent L"
    using L1(1) by (cases rule: lifecycle_apply_cases) (simp_all add: with_record_def)
  have "set (lc_records L') = set (lc_records L1) \<union> set rs"
    using Cons.prems(2) by (intro Cons.IH [OF L1(2)]) (simp add: s i)
  then show ?case by (auto simp: s)
qed simp

end
