(* ===== verification/ExecutionLaws.thy ===== *)
theory ExecutionLaws
  imports Projection
begin

text \<open>
  The promises of the execution lifecycle: redelivery and reordering of records change nothing,
  replace authority is fail closed, accepted replacements rest on a retained readback, and a
  lifecycle without reconciliation reasons has fills that tile the filled quantity.
\<close>

subsection \<open>A sample order\<close>

definition sample_intent :: order_intent where
  "sample_intent = \<lparr>oi_intent_id = ''i1'', oi_contract_id = ''c1'', oi_side = BUY,
     oi_position_effect = OPEN_LONG, oi_quantity = 4, oi_order_type = MARKET, oi_limit_price = None,
     oi_execution_style = Single, oi_package_id = None, oi_intent_created_at = 5,
     oi_source = ''runner'', oi_source_sequence_id = ''0''\<rparr>"

definition sample_price :: exact_decimal where
  "sample_price = \<lparr>ed_negative = False, ed_coefficient = 125, ed_exponent = -2\<rparr>"

definition sample_submit :: exec_record where
  "sample_submit = Submit \<lparr>sa_record_id = ''s1'', sa_intent_id = ''i1'', sa_send_attempt_at = 10,
     sa_source = ''runner'', sa_source_sequence_id = ''1''\<rparr>"

definition sample_ack :: exec_record where
  "sample_ack = Ack \<lparr>ba_record_id = ''a1'', ba_intent_id = ''i1'', ba_broker_order_id = ''o1'',
     ba_broker_acknowledged_at = 11, ba_locally_received_at = 12, ba_source = ''broker'',
     ba_source_sequence_id = ''1'', ba_broker_sequence_id = ''1''\<rparr>"

definition sample_part :: exec_record where
  "sample_part = Partial \<lparr>xf_record_id = ''f1'', xf_intent_id = ''i1'', xf_broker_order_id = ''o1'',
     xf_fill_quantity = 1, xf_cumulative_quantity = 1, xf_unit_price = sample_price,
     xf_fees = sample_price, xf_exchange_event_at = 13, xf_locally_received_at = 13,
     xf_source = ''broker'', xf_source_sequence_id = ''2'', xf_broker_sequence_id = ''2''\<rparr>"

definition sample_readback :: exec_record where
  "sample_readback = Readback \<lparr>rb_record_id = ''r1'', rb_intent_id = ''i1'',
     rb_status = RB_PARTIALLY_FILLED, rb_broker_order_id = Some ''o1'', rb_observed_order_id = None,
     rb_observed_total_quantity = None, rb_observed_status = None, rb_total_quantity = Some 4,
     rb_cumulative_quantity = 1, rb_broker_snapshot_at = 14, rb_locally_received_at = 15,
     rb_source = ''broker'', rb_source_sequence_id = ''3'', rb_broker_sequence_id = ''3''\<rparr>"

definition sample_replace :: exec_record where
  "sample_replace = Replace \<lparr>ri_record_id = ''p1'', ri_intent_id = ''i1'',
     ri_based_on_readback_id = ''r1'', ri_broker_order_id = ''o1'', ri_new_total_quantity = 6,
     ri_new_limit_price = sample_price, ri_replace_created_at = 16, ri_source = ''runner'',
     ri_source_sequence_id = ''2''\<rparr>"

lemmas sample_order_defs = sample_intent_def sample_submit_def sample_ack_def sample_part_def
  sample_readback_def sample_replace_def sample_price_def

definition sample_delivery :: "exec_record list" where
  "sample_delivery = [sample_submit, sample_ack, sample_part, sample_readback]"

definition sample_lifecycle :: lifecycle where
  "sample_lifecycle = (case lifecycle_run stored_id (lifecycle_start sample_intent) sample_delivery of
      Inr L \<Rightarrow> L | Inl _ \<Rightarrow> lifecycle_start sample_intent)"

lemma sample_run: "lifecycle_run stored_id (lifecycle_start sample_intent) sample_delivery = Inr sample_lifecycle"
proof -
  have "\<not> (case lifecycle_run stored_id (lifecycle_start sample_intent) sample_delivery of
      Inr _ \<Rightarrow> False | Inl _ \<Rightarrow> True)" by code_simp
  then show ?thesis unfolding sample_lifecycle_def by (simp split: sum.splits)
qed

lemma sample_reached: "reached stored_id sample_intent sample_lifecycle"
  by (rule reached_run [OF reached_start sample_run])

lemma sample_facts:
  "lc_reasons sample_lifecycle = {}" "lc_filled_quantity sample_lifecycle = 1"
  "lc_replace_basis sample_lifecycle \<noteq> None" "set (lc_records sample_lifecycle) = set sample_delivery"
  by code_simp+


subsection \<open>Redelivery and reordering\<close>

lemma observed_cumulative_mono:
  assumes "set rs \<subseteq> set rs'" and "\<forall>r \<in> set rs'. opt_ok (\<lambda>q. 0 \<le> q) (cumulative_of r)"
  shows "derive_observed_cumulative rs \<le> derive_observed_cumulative rs'"
proof -
  let ?q = "\<lambda>rs. List.map_filter cumulative_of rs"
  have sub: "set (?q rs) \<subseteq> set (?q rs')" using assms(1) by (auto simp: map_filter_set)
  have pos: "0 \<le> x" if "x \<in> set (?q rs')" for x
    using that assms(2) by (force simp: map_filter_set opt_ok_def)
  show ?thesis
  proof (cases "?q rs = []")
    case True
    then show ?thesis
      using pos unfolding derive_observed_cumulative_def
      by (auto simp: max_default_Max split: if_splits)
  next
    case False
    with sub have "?q rs' \<noteq> []" by auto
    with False sub show ?thesis
      unfolding derive_observed_cumulative_def max_default_Max
      by (simp only: if_False option.case) (rule Max_mono, simp_all)
  qed
qed

lemma record_ok_cumulative: "exec_record_ok r \<Longrightarrow> opt_ok (\<lambda>q. 0 \<le> q) (cumulative_of r)"
  by (cases r) (auto simp: opt_ok_def fill_record_ok_def readback_ok_def)

text \<open>Redelivery: once a record is accepted, delivering it again changes nothing, nor does
  delivering again any record retained before; accepting a record forgets nothing and, for valid
  records, never lowers the filled quantity.\<close>

lemma lifecycle_redelivery:
  assumes "reached canon i L" and "lifecycle_apply canon L r = Inr L'"
    and "\<forall>x \<in> set (lc_records L'). exec_record_ok x"
  shows "lifecycle_apply canon L' r = Inr L'
    \<and> (\<forall>x \<in> set (lc_records L). x \<in> set (lc_records L') \<and> lifecycle_apply canon L' x = Inr L')
    \<and> lc_filled_quantity L \<le> lc_filled_quantity L'"
proof -
  have re: "reached canon i L'" using assms(1,2) by (rule reached_apply)
  have sub: "set (lc_records L) \<subseteq> set (lc_records L')"
    using assms(2) by (cases rule: lifecycle_apply_cases) (auto simp: with_record_def)
  have same: "lifecycle_apply canon L' r = Inr L'" using assms(2)
  proof (cases rule: lifecycle_apply_cases)
    case duplicate
    with assms(2) show ?thesis by simp
  next
    case retained
    then have "r \<in> set (lc_records L')" by (simp add: with_record_def)
    with re show ?thesis by (rule reached_redelivery)
  qed
  have filled: "lc_filled_quantity M = derive_observed_cumulative (lc_records M)"
    if "reached canon i M" for M
    using reached_inv [OF that] unfolding lifecycle_inv_def by (metis lc_filled_project)
  have "derive_observed_cumulative (lc_records L) \<le> derive_observed_cumulative (lc_records L')"
    by (rule observed_cumulative_mono [OF sub]) (use assms(3) record_ok_cumulative in blast)
  then show ?thesis using same sub reached_redelivery [OF re] filled [OF re] filled [OF assms(1)] by auto
qed

lemma sample_records_ok: "\<forall>x \<in> set sample_delivery. exec_record_ok x"
  by code_simp

lemma sample_redelivered: "lifecycle_apply stored_id sample_lifecycle sample_ack = Inr sample_lifecycle"
  by (rule reached_redelivery [OF sample_reached]) (simp add: sample_facts sample_delivery_def)

lemma lifecycle_redelivery_witness:
  "lifecycle_apply stored_id sample_lifecycle sample_part = Inr sample_lifecycle"
proof -
  have "\<forall>x \<in> set (lc_records sample_lifecycle). exec_record_ok x"
    using sample_records_ok by (simp only: sample_facts)
  moreover have "sample_part \<in> set (lc_records sample_lifecycle)"
    by (simp add: sample_facts sample_delivery_def)
  ultimately show ?thesis
    using lifecycle_redelivery [OF sample_reached sample_redelivered] by blast
qed

text \<open>Claim C6. Reordering: two deliveries of the same records, in any order and with any
  repetitions, that are both accepted reach the same projection, whatever the order in which the
  records are retained. The canonical bytes must tell the records apart.\<close>

theorem lifecycle_order_blind:
  assumes "lifecycle_run canon (lifecycle_start i) rs = Inr L"
    and "lifecycle_run canon (lifecycle_start i) rs' = Inr L'"
    and "set rs = set rs'" and "inj_on canon (insert (Intent i) (Exec ` set rs))"
  shows "L = L'\<lparr>lc_records := lc_records L\<rparr> \<and> set (lc_records L) = set rs"
proof -
  have s: "set (lc_records L) = set rs" "set (lc_records L') = set rs"
    using run_retains [OF assms(1)] run_retains [OF assms(2)] assms(3,4)
    by (simp_all add: lifecycle_start_def)
  note inv = reached_inv [OF reached_run [OF reached_start assms(1)]]
    and inv' = reached_inv [OF reached_run [OF reached_start assms(2)]]
  have m: "mset (lc_records L) = mset (lc_records L')"
    using lifecycle_inv_distinct [OF inv] lifecycle_inv_distinct [OF inv'] s set_eq_iff_mset_eq_distinct by blast
  have t: "told_apart canon (lc_records L)"
    unfolding told_apart_def s using assms(4) by (auto simp: inj_on_def)
  have "L = project_records canon i (lc_records L)" using inv by (simp add: lifecycle_inv_def)
  also have "\<dots> = (project_records canon i (lc_records L'))\<lparr>lc_records := lc_records L\<rparr>"
    by (rule project_records_cong [OF m t])
  also have "project_records canon i (lc_records L') = L'" using inv' by (simp add: lifecycle_inv_def)
  finally show ?thesis using s(1) by blast
qed

lemma sample_reordered:
  "\<exists>L. lifecycle_run stored_id (lifecycle_start sample_intent)
     [sample_part, sample_readback, sample_submit, sample_part, sample_ack] = Inr L"
  by (rule returnedD) code_simp

lemma lifecycle_order_blind_witness:
  "\<exists>L. lifecycle_run stored_id (lifecycle_start sample_intent)
      [sample_part, sample_readback, sample_submit, sample_part, sample_ack] = Inr L
    \<and> lc_state L = PARTIALLY_FILLED"
proof -
  let ?rs = "[sample_part, sample_readback, sample_submit, sample_part, sample_ack]"
  obtain L where L: "lifecycle_run stored_id (lifecycle_start sample_intent) ?rs = Inr L"
    using sample_reordered by blast
  have "inj_on stored_id (insert (Intent sample_intent) (Exec ` set ?rs))"
    by (auto simp: sample_order_defs)
  then have "L = sample_lifecycle\<lparr>lc_records := lc_records L\<rparr>"
    using lifecycle_order_blind [OF L sample_run] by (simp add: sample_delivery_def insert_commute)
  then have "lc_state L = lc_state sample_lifecycle"
    by (metis lifecycle.select_convs(2) lifecycle.surjective lifecycle.update_convs(4))
  moreover have "lc_state sample_lifecycle = PARTIALLY_FILLED" by code_simp
  ultimately show ?thesis using L by auto
qed


subsection \<open>Replace authority\<close>

lemma list_case_Some:
  "(case xs of [] \<Rightarrow> None | c # cs \<Rightarrow> Some (g c cs)) = Some r \<Longrightarrow> \<exists>c cs. xs = c # cs \<and> r = g c cs"
  by (cases xs) auto

lemma replace_basis_Some:
  assumes "derive_replace_basis canon rs st b c p f iv = Some rb"
  shows "st = ACKNOWLEDGED \<or> st = PARTIALLY_FILLED" and "p = None" and "covers_through iv f"
    and "Readback rb \<in> set rs" and "basis_candidate b c f rb"
    and "x \<in> set rs \<Longrightarrow> is_broker_fact x \<Longrightarrow> \<not> invalidates rb x"
proof -
  let ?e = "filter (\<lambda>c. \<not> list_ex (invalidates c) (broker_facts rs))
     (filter (basis_candidate b c f) (readback_records rs))"
  have open_: "\<not> ((st \<noteq> ACKNOWLEDGED \<and> st \<noteq> PARTIALLY_FILLED) \<or> p \<noteq> None \<or> \<not> covers_through iv f)"
    using assms unfolding derive_replace_basis_def by (rule contrapos_pn) simp
  then show "st = ACKNOWLEDGED \<or> st = PARTIALLY_FILLED" "p = None" "covers_through iv f" by blast+
  have "(case ?e of [] \<Rightarrow> None | c # cs \<Rightarrow> Some (first_max (basis_key canon) c cs)) = Some rb"
    using assms open_ unfolding derive_replace_basis_def by (simp only: if_False)
  then obtain e es where e: "?e = e # es" and "rb = first_max (basis_key canon) e es"
    using list_case_Some by metis
  then have "rb \<in> set ?e" using first_max_in [of "basis_key canon" e es] by simp
  then have r: "rb \<in> set (readback_records rs)" and "basis_candidate b c f rb"
    and free: "\<not> list_ex (invalidates rb) (broker_facts rs)" by simp_all
  then show "basis_candidate b c f rb" by blast
  show "Readback rb \<in> set rs"
    using r by (auto simp: readback_records_def map_filter_set elim!: the_readback.elims)
  show "\<not> invalidates rb x" if "x \<in> set rs" "is_broker_fact x"
    using free that by (auto simp: list_ex_iff broker_facts_set)
qed

lemma effective_state_open:
  "effective_state rsn u bs = ACKNOWLEDGED \<or> effective_state rsn u bs = PARTIALLY_FILLED \<Longrightarrow>
   rsn = {} \<and> u = None \<and> effective_state rsn u bs = bs"
  by (auto simp: effective_state_def split: if_splits)

text \<open>Claim C12. Replace authority is fail closed: a lifecycle with a replace basis retains no
  reconciliation reason and no uncertainty, has no replacement pending and complete fill economics,
  and its basis is a retained open readback that agrees with the confirmed total and the filled
  quantity, learned after every other broker fact and taken no earlier than any of them happened.\<close>

theorem replace_authority_fail_closed:
  assumes "reached canon i L" and "lc_replace_basis L = Some rb"
  shows "lc_reasons L = {} \<and> lc_uncertain_since_at L = None \<and> lc_pending_total L = None
    \<and> (lc_state L = ACKNOWLEDGED \<or> lc_state L = PARTIALLY_FILLED) \<and> lc_state L = lc_broker_state L
    \<and> covers_through (lc_fill_intervals L) (lc_filled_quantity L)
    \<and> Readback rb \<in> set (lc_records L) \<and> rb_status rb \<in> {RB_OPEN, RB_PARTIALLY_FILLED}
    \<and> rb_broker_order_id rb = lc_broker_order_id L \<and> rb_total_quantity rb = lc_confirmed_total L
    \<and> rb_cumulative_quantity rb = lc_filled_quantity L
    \<and> (\<forall>x \<in> set (lc_records L). is_broker_fact x \<and> x \<noteq> Readback rb \<longrightarrow>
         learned_at x < rb_locally_received_at rb \<and> primary_time x \<le> rb_broker_snapshot_at rb)"
proof -
  define rs where "rs = lc_records L"
  have L: "L = project_records canon i rs"
    using reached_inv [OF assms(1)] by (simp add: lifecycle_inv_def rs_def)
  note basis = replace_basis_Some [OF assms(2) [unfolded L lc_basis_project]]
  have st: "lc_state L = ACKNOWLEDGED \<or> lc_state L = PARTIALLY_FILLED" using basis(1) by (simp add: L)
  then have "lc_reasons L = {} \<and> lc_uncertain_since_at L = None \<and> lc_state L = lc_broker_state L"
    using effective_state_open [OF basis(1) [unfolded lc_state_project]] by (simp add: L lc_state_project effective_state_def)
  moreover have "learned_at x < rb_locally_received_at rb \<and> primary_time x \<le> rb_broker_snapshot_at rb"
    if "x \<in> set rs" "is_broker_fact x" "x \<noteq> Readback rb" for x
    using basis(6) [OF that(1,2)] that(3) by (auto simp: invalidates_def)
  ultimately show ?thesis
    using st basis(2,3,4,5) by (simp add: L basis_candidate_def)
qed

lemma replace_authority_fail_closed_witness:
  "lc_reasons sample_lifecycle = {} \<and> lc_pending_total sample_lifecycle = None"
proof -
  obtain rb where "lc_replace_basis sample_lifecycle = Some rb" using sample_facts(3) by blast
  from replace_authority_fail_closed [OF sample_reached this] show ?thesis by blast
qed

lemma readback_by_id:
  assumes "retained_basis rs q = Some rb"
  shows "Readback rb \<in> set rs" and "rb_record_id rb = q"
proof -
  have f: "find (\<lambda>r. rb_record_id r = q) (readback_records rs) = Some rb"
    using assms by (simp add: retained_basis_def)
  then show "rb_record_id rb = q" by (auto simp: find_Some_iff)
  from f have "rb \<in> set (readback_records rs)" by (auto simp: find_Some_iff)
  then show "Readback rb \<in> set rs"
    by (auto simp: readback_records_def map_filter_set elim!: the_readback.elims)
qed

lemma identities_apart_ids:
  assumes "identities_apart ss" and "s \<in> set ss" and "t \<in> set ss" and "stored_id s = stored_id t"
  shows "s = t"
  using assms unfolding identities_apart_def
  by (induction ss) (auto simp: same_identity_def)

lemma local_basis_member:
  "derive_local_replace_basis canon i rs = (Some rb, p) \<Longrightarrow> Readback rb \<in> set rs"
  unfolding derive_local_replace_basis_def Let_def
  by (auto split: prod.splits dest: replace_basis_Some(4))

text \<open>A replacement the lifecycle newly retains names a retained readback received no later
  than its creation, targets that readback's broker order, and asks for more than that readback
  reports filled; unless an earlier replacement was still pending in what was known at its creation,
  that readback was the replace basis of what was known.\<close>

lemma replace_accepted:
  assumes "reached canon i L" and "lifecycle_apply canon L (Replace r) = Inr L'"
    and "Replace r \<notin> set (lc_records L)"
    and "inj_on canon (insert (Exec (Replace r)) (set (stored_records L)))"
  shows "\<exists>rb. Readback rb \<in> set (lc_records L) \<and> rb_record_id rb = ri_based_on_readback_id r
    \<and> rb_locally_received_at rb \<le> ri_replace_created_at r
    \<and> rb_broker_order_id rb = Some (ri_broker_order_id r)
    \<and> rb_cumulative_quantity rb < ri_new_total_quantity r
    \<and> (let known = filter (\<lambda>x. known_no_later_than x (ri_replace_created_at r)) (lc_records L)
       in snd (derive_local_replace_basis canon i known) \<noteq> None
          \<or> derive_local_replace_basis canon i known = (Some rb, None))"
  using assms(2)
proof (cases rule: lifecycle_apply_cases)
  case duplicate
  obtain s where "s \<in> set (stored_records L)" "canon s = canon (Exec (Replace r))"
    using check_identity_copy [OF duplicate(1)] by blast
  then have "Exec (Replace r) \<in> set (stored_records L)" using assms(4) by (metis inj_onD insertI1 insertI2)
  then show ?thesis using assms(3) by (auto simp: stored_records_def)
next
  case retained
  have i: "lc_intent L = i" using reached_inv [OF assms(1)] by (rule lifecycle_inv_intent)
  let ?known = "filter (\<lambda>x. known_no_later_than x (ri_replace_created_at r)) (lc_records L)"
  obtain rb where rb: "retained_basis (lc_records L) (ri_based_on_readback_id r) = Some rb"
    using retained(4) by (auto simp: lc_apply_replace_def split: option.splits)
  note mem = readback_by_id [OF rb]
  have time: "rb_locally_received_at rb \<le> ri_replace_created_at r"
    using retained(4) rb by (auto simp: lc_apply_replace_def split: if_splits)
  obtain basis p where bp: "derive_local_replace_basis canon i ?known = (basis, p)" by fastforce
  show ?thesis
  proof (cases p)
    case (Some q)
    then have "rb_broker_order_id rb = Some (ri_broker_order_id r)" "rb_cumulative_quantity rb < ri_new_total_quantity r"
      using retained(4) rb time bp
      by (cases basis; auto simp: lc_apply_replace_def Let_def i split: if_splits)+
    with mem time bp Some show ?thesis by (intro exI [of _ rb]) (simp add: Let_def)
  next
    case None
    then obtain b where b: "basis = Some b"
      using retained(4) rb time bp by (cases basis) (auto simp: lc_apply_replace_def Let_def i)
    have acc: "rb_record_id b = ri_based_on_readback_id r" "rb_broker_order_id b = Some (ri_broker_order_id r)"
        "rb_cumulative_quantity b < ri_new_total_quantity r"
      using retained(4) rb time bp None b
      by (simp_all add: lc_apply_replace_def Let_def i split: if_splits)
    have "Readback b \<in> set (lc_records L)" using local_basis_member [of canon i ?known b p] bp b by simp
    then have "Exec (Readback b) = Exec (Readback rb)"
      using reached_inv [OF assms(1)] mem acc(1) unfolding lifecycle_inv_def
      by (intro identities_apart_ids [of "stored_records L"]) (simp_all add: stored_records_def)
    then have "b = rb" by simp
    with acc mem time bp None b show ?thesis by (intro exI [of _ rb]) (simp add: Let_def)
  qed
qed

lemma replace_accepted_witness:
  "\<exists>rb. Readback rb \<in> set (lc_records sample_lifecycle) \<and> rb_cumulative_quantity rb < 6"
proof -
  obtain r where r: "sample_replace = Replace r" by (simp add: sample_replace_def)
  have "\<exists>L'. lifecycle_apply stored_id sample_lifecycle sample_replace = Inr L'"
    by (rule returnedD) code_simp
  then obtain L' where L': "lifecycle_apply stored_id sample_lifecycle (Replace r) = Inr L'" by (auto simp: r)
  have n: "Replace r \<notin> set (lc_records sample_lifecycle)"
    unfolding sample_facts(4) r [symmetric] by (simp add: sample_delivery_def sample_order_defs)
  have "set (stored_records sample_lifecycle) = insert (Intent sample_intent) (Exec ` set sample_delivery)"
    using lifecycle_inv_intent [OF reached_inv [OF sample_reached]] by (simp add: stored_records_def sample_facts)
  then have "inj_on stored_id (insert (Exec (Replace r)) (set (stored_records sample_lifecycle)))"
    unfolding r [symmetric] by (auto simp: sample_delivery_def sample_order_defs)
  moreover have "ri_new_total_quantity r = 6" using r by (auto simp: sample_replace_def)
  ultimately show ?thesis using replace_accepted [OF sample_reached L' n] by metis
qed


subsection \<open>Fill economics\<close>

definition total_span :: "(int \<times> int) list \<Rightarrow> int" where
  "total_span ivs = sum_list (map (\<lambda>(start, stop). stop - start) ivs)"

lemma total_span_simps [simp]: "total_span [] = 0" "total_span ((a, b) # ivs) = b - a + total_span ivs"
    "total_span (xs @ ys) = total_span xs + total_span ys"
  by (simp_all add: total_span_def)

lemma no_overlap_chain:
  assumes "sorted ivs" and "\<not> any_overlap ivs" and "\<forall>(a, b) \<in> set ivs. a < b"
  shows "sorted_wrt (\<lambda>x y. snd x \<le> fst y) ivs"
  using assms
proof (induction ivs rule: any_overlap.induct)
  case (2 a b rest)
  have "b \<le> c" if "(c, d) \<in> set rest" for c d
  proof -
    have "a \<le> c" using 2(2) that by (force simp: less_eq_prod_def)
    moreover have "\<not> (a < d \<and> c < b)" using 2(3) that by (auto simp: list_ex_iff)
    moreover have "c < d" using 2(4) that by auto
    ultimately show ?thesis by linarith
  qed
  with 2 show ?case by auto
qed simp

lemma merge_loop_span:
  assumes "sorted_wrt (\<lambda>x y. snd x \<le> fst y) rest" and "\<forall>(a, b) \<in> set rest. a < b"
    and "merged \<noteq> [] \<Longrightarrow> \<forall>x \<in> set rest. snd (last merged) \<le> fst x"
  shows "total_span (merge_loop merged rest) = total_span merged + total_span rest"
  using assms
proof (induction merged rest rule: merge_loop.induct)
  case (2 merged a b rest)
  show ?case
  proof (cases "merged = [] \<or> a > snd (last merged)")
    case True
    then show ?thesis using 2(1) 2(3,4) by auto
  next
    case False
    then have touch: "a = snd (last merged)" and ne: "merged \<noteq> []" using 2(5) by auto
    have "a < b" using 2(4) by simp
    then have m: "max (snd (last merged)) b = b" using touch by simp
    obtain pre s where p: "merged = pre @ [(s, a)]"
      using ne touch by (metis append_butlast_last_id prod.collapse)
    have "total_span (merge_loop (pre @ [(s, b)]) rest) = total_span (pre @ [(s, b)]) + total_span rest"
    proof -
      have "\<forall>x \<in> set rest. b \<le> fst x" "\<forall>(c, d) \<in> set rest. c < d"
          "sorted_wrt (\<lambda>x y. snd x \<le> fst y) rest" using 2(3,4) by auto
      moreover from this \<open>a < b\<close> have "\<forall>x \<in> set rest. a \<le> fst x" by force
      ultimately show ?thesis using 2(2) [OF False] m by (simp add: p)
    qed
    then show ?thesis using False m by (simp add: p)
  qed
qed simp

lemma fill_interval_ok:
  assumes "\<forall>r \<in> set rs. exec_record_ok r" and "x \<in> set (fill_records rs)"
  shows "1 \<le> xf_fill_quantity x \<and> 1 \<le> xf_cumulative_quantity x \<and> xf_fill_quantity x \<le> xf_cumulative_quantity x"
  using assms by (auto simp: fill_records_def map_filter_set fill_record_ok_def elim!: the_fill.elims)

lemma span_perm: "mset xs = mset ys \<Longrightarrow> total_span xs = total_span ys"
  unfolding total_span_def by (metis mset_map sum_mset_sum_list)

lemma span_fill_intervals: "total_span (map fill_interval fs) = sum_list (map xf_fill_quantity fs)"
  by (induction fs) (simp_all add: fill_interval_def)

text \<open>Without overlap the merged intervals keep the whole executed quantity.\<close>

lemma merged_span:
  assumes ok: "\<forall>r \<in> set rs. exec_record_ok r" and no: "\<not> snd (derive_fill_intervals rs)"
  shows "total_span (fst (derive_fill_intervals rs)) = sum_list (map xf_fill_quantity (fill_records rs))"
proof -
  let ?raw = "sort (map fill_interval (fill_records rs))"
  have pos: "\<forall>(a, b) \<in> set ?raw. a < b"
    using fill_interval_ok [OF ok] by (force simp: fill_interval_def)
  have "\<not> any_overlap ?raw" using no by (simp add: derive_fill_intervals_def Let_def)
  then have "sorted_wrt (\<lambda>x y. snd x \<le> fst y) ?raw" using pos by (intro no_overlap_chain) simp_all
  then have "total_span (merge_loop [] ?raw) = total_span ?raw" using merge_loop_span [OF _ pos, of "[]"] by simp
  also have "\<dots> = total_span (map fill_interval (fill_records rs))" by (rule span_perm) simp
  finally show ?thesis by (simp add: derive_fill_intervals_def Let_def span_fill_intervals)
qed

lemma observed_cumulative_ge:
  "x \<in> set (fill_records rs) \<Longrightarrow> xf_cumulative_quantity x \<le> derive_observed_cumulative rs"
proof -
  assume "x \<in> set (fill_records rs)"
  then have "xf_cumulative_quantity x \<in> set (List.map_filter cumulative_of rs)"
    by (force simp: fill_records_def map_filter_set elim!: the_fill.elims)
  then show ?thesis unfolding derive_observed_cumulative_def max_default_Max by auto
qed

lemma no_reasons:
  assumes "derive_reconciliation_reasons canon rs c q f iv ov b bad = {}"
  shows "\<not> ov" and "f > 0 \<Longrightarrow> covers_through iv f" and "f > 0 \<Longrightarrow> c \<noteq> None"
    and "c = Some t \<Longrightarrow> f \<le> t" and "broker_facts rs \<noteq> [] \<Longrightarrow> list_ex is_submit rs"
    and "q = {}" and "\<not> b" and "\<not> bad"
  using assms unfolding derive_reconciliation_reasons_def reason_if_def
  by (auto split: if_splits option.splits)

lemma clean_projection_tiles:
  assumes ok: "\<forall>r \<in> set rs. exec_record_ok r" and clean: "lc_reasons (project_records canon i rs) = {}"
  shows "sum_list (map xf_fill_quantity (fill_records rs)) = derive_observed_cumulative rs"
    and "total_span (fst (derive_fill_intervals rs)) = derive_observed_cumulative rs"
proof -
  note c = no_reasons [OF clean [unfolded lc_reasons_project]]
  let ?q = "derive_observed_cumulative rs"
  have s: "total_span (fst (derive_fill_intervals rs)) = sum_list (map xf_fill_quantity (fill_records rs))"
    by (rule merged_span [OF ok c(1)])
  have "total_span (fst (derive_fill_intervals rs)) = ?q"
  proof (cases "?q > 0")
    case True
    then have "fst (derive_fill_intervals rs) = [(0, ?q)]" using c(2) by (simp add: covers_through_def)
    then show ?thesis by simp
  next
    case False
    then have "fill_records rs = []"
      using observed_cumulative_ge fill_interval_ok [OF ok]
      by (cases "fill_records rs") (simp, metis list.set_intros(1) not_one_le_zero order_trans zero_less_one linorder_not_less order_less_le_trans)
    moreover have "0 \<le> ?q"
      using observed_cumulative_mono [of "[]" rs] ok record_ok_cumulative
      by (simp add: derive_observed_cumulative_def List.map_filter_def)
    ultimately show ?thesis using False by (simp add: derive_fill_intervals_def)
  qed
  with s show "sum_list (map xf_fill_quantity (fill_records rs)) = ?q"
    and "total_span (fst (derive_fill_intervals rs)) = ?q" by simp_all
qed

text \<open>Claim C7. A lifecycle of valid records without reconciliation reasons: the fills it retains
  share no contract, their quantities sum to the filled quantity, which is also the economically
  covered quantity, and if anything was filled the broker confirmed a total at least as large and a
  submit attempt is retained.\<close>

theorem clean_lifecycle_tiles:
  assumes "reached canon i L" and "\<forall>r \<in> set (lc_records L). exec_record_ok r" and "lc_reasons L = {}"
  shows "sum_list (map xf_fill_quantity (fill_records (lc_records L))) = lc_filled_quantity L
    \<and> economically_covered_quantity L = lc_filled_quantity L
    \<and> sorted_wrt (\<lambda>x y. snd x \<le> fst y) (sort (map fill_interval (fill_records (lc_records L))))
    \<and> (0 < lc_filled_quantity L \<longrightarrow>
         (\<exists>t. lc_confirmed_total L = Some t \<and> lc_filled_quantity L \<le> t))
    \<and> (0 < lc_filled_quantity L \<longrightarrow> list_ex is_submit (lc_records L))"
proof -
  define rs where "rs = lc_records L"
  have L: "L = project_records canon i rs"
    using reached_inv [OF assms(1)] by (simp add: lifecycle_inv_def rs_def)
  have ok: "\<forall>r \<in> set rs. exec_record_ok r" using assms(2) by (simp add: rs_def)
  have clean: "lc_reasons (project_records canon i rs) = {}" using assms(3) L by simp
  note c = no_reasons [OF clean [unfolded lc_reasons_project]]
  have "\<forall>(a, b) \<in> set (sort (map fill_interval (fill_records rs))). a < b"
    using fill_interval_ok [OF ok] by (force simp: fill_interval_def)
  then have chain: "sorted_wrt (\<lambda>x y. snd x \<le> fst y) (sort (map fill_interval (fill_records rs)))"
    using c(1) by (intro no_overlap_chain) (simp_all add: derive_fill_intervals_def Let_def)
  have facts: "broker_facts rs \<noteq> []" if "0 < derive_observed_cumulative rs"
  proof
    assume none: "broker_facts rs = []"
    have "cumulative_of x = None" if "\<not> is_broker_fact x" for x using that by (cases x) simp_all
    then have "List.map_filter cumulative_of rs = []"
      using none by (auto simp: broker_facts_def filter_empty_conv List.map_filter_def)
    then show False using that by (simp add: derive_observed_cumulative_def)
  qed
  show ?thesis
    using clean_projection_tiles [OF ok clean] chain c(3,4,5) facts
    by (auto simp: L economically_covered_quantity_def total_span_def)
qed

lemma clean_lifecycle_tiles_witness: "economically_covered_quantity sample_lifecycle = 1"
  using clean_lifecycle_tiles [OF sample_reached _ sample_facts(1)] sample_records_ok
  by (simp only: sample_facts simp_thms)

end
