(* ===== verification/Adjudication.thy ===== *)
theory Adjudication
  imports ExecutionLaws
begin

text \<open>
  What is read off a lifecycle: \<open>execution/reconciliation.py\<close> classifies and explains the reasons
  it retains, \<open>execution/evidence.py\<close> decides whether its records are admissible as proof of an
  execution, deriving intervals, quantities and money again from the fill records. Text is a list
  of UTF-8 bytes, so the dash of the explanations is three characters.
\<close>

subsection \<open>Severity and explanation of a reason\<close>

datatype severity = ECONOMIC | TERMINAL | IDENTITY | PROTOCOL

fun severity_rank :: "severity \<Rightarrow> nat" where
  "severity_rank ECONOMIC = 0"
| "severity_rank TERMINAL = 1"
| "severity_rank IDENTITY = 2"
| "severity_rank PROTOCOL = 3"

fun severity_value :: "severity \<Rightarrow> string" where
  "severity_value ECONOMIC = ''ECONOMIC''"
| "severity_value TERMINAL = ''TERMINAL''"
| "severity_value IDENTITY = ''IDENTITY''"
| "severity_value PROTOCOL = ''PROTOCOL''"

fun reason_severity :: "reason \<Rightarrow> severity" where
  "reason_severity FILL_ECONOMIC_GAP = ECONOMIC"
| "reason_severity FILL_ECONOMIC_OVERLAP = ECONOMIC"
| "reason_severity FILL_CUMULATIVE_REGRESSION = ECONOMIC"
| "reason_severity FILL_KIND_TOTAL_MISMATCH = ECONOMIC"
| "reason_severity FILL_EXCEEDS_CONFIRMED_TOTAL = ECONOMIC"
| "reason_severity READBACK_FILL_CONTRADICTION = ECONOMIC"
| "reason_severity TERMINAL_FACT_CONTRADICTION = TERMINAL"
| "reason_severity READBACK_CUMULATIVE_REGRESSION = TERMINAL"
| "reason_severity REJECT_WITH_OBSERVED_FILL = TERMINAL"
| "reason_severity BROKER_ORDER_ID_CONFLICT = IDENTITY"
| "reason_severity AMBIGUOUS_READBACK = IDENTITY"
| "reason_severity AMBIGUOUS_REPLACE_CONFIRMATION = IDENTITY"
| "reason_severity MISSING_SUBMIT = PROTOCOL"
| "reason_severity TOTAL_UNCONFIRMED = PROTOCOL"
| "reason_severity RETRY_AFTER_LOCAL_KNOWLEDGE = PROTOCOL"
| "reason_severity OVERLAPPING_REPLACE_INTENTS = PROTOCOL"
| "reason_severity INVALID_REPLACE_BASIS = PROTOCOL"
| "reason_severity REPLACE_CONFIRMATION_MISMATCH = PROTOCOL"
| "reason_severity UNEXPECTED_CONFIRMED_TOTAL_CHANGE = PROTOCOL"

definition em_dash :: string where
  "em_dash = [CHR 0xE2, CHR 0x80, CHR 0x94]"

fun reason_explanation :: "reason \<Rightarrow> string" where
  "reason_explanation FILL_ECONOMIC_GAP =
     ''the fill history leaves a quantity gap '' @ em_dash
       @ '' the executed intervals do not cover a contiguous range from zero''"
| "reason_explanation FILL_ECONOMIC_OVERLAP =
     ''two fills claim economics over the same contracts '' @ em_dash
       @ '' the executed quantity is double-booked''"
| "reason_explanation FILL_CUMULATIVE_REGRESSION =
     ''a later fill reports a lower cumulative quantity than an earlier one '' @ em_dash
       @ '' the running total moves backwards''"
| "reason_explanation FILL_KIND_TOTAL_MISMATCH =
     ''a complete fill closes at a cumulative that disagrees with the order'' @ [CHR 0x27]
       @ ''s authoritative quantity''"
| "reason_explanation FILL_EXCEEDS_CONFIRMED_TOTAL =
     ''fills claim more contracts than the broker ever confirmed '' @ em_dash
       @ '' execution beyond the acknowledged order''"
| "reason_explanation READBACK_FILL_CONTRADICTION =
     ''a broker readback denies execution while fills were observed '' @ em_dash
       @ '' the money story and the status story disagree''"
| "reason_explanation TERMINAL_FACT_CONTRADICTION =
     ''two broker facts claim different terminal outcomes for one order '' @ em_dash
       @ '' the outcome itself is contested''"
| "reason_explanation READBACK_CUMULATIVE_REGRESSION =
     ''a later readback reports less cumulative quantity than already observed '' @ em_dash
       @ '' confirmed execution disappears''"
| "reason_explanation REJECT_WITH_OBSERVED_FILL =
     ''the order was rejected after fills were observed '' @ em_dash
       @ '' rejection and execution cannot both be true''"
| "reason_explanation BROKER_ORDER_ID_CONFLICT =
     ''broker facts disagree about which broker order this intent maps to '' @ em_dash
       @ '' the order'' @ [CHR 0x27] @ ''s identity is contested''"
| "reason_explanation AMBIGUOUS_READBACK =
     ''a readback reports the order absent or ambiguous '' @ em_dash
       @ '' the broker cannot or will not state the order'' @ [CHR 0x27] @ ''s standing''"
| "reason_explanation AMBIGUOUS_REPLACE_CONFIRMATION =
     ''a replace confirmation cannot be attributed to one readback '' @ em_dash
       @ '' which confirmation applies is undecidable''"
| "reason_explanation MISSING_SUBMIT =
     ''broker facts exist for an intent with no submit attempt retained '' @ em_dash
       @ '' execution without a recorded request''"
| "reason_explanation TOTAL_UNCONFIRMED =
     ''the order'' @ [CHR 0x27] @ ''s total quantity was never confirmed by any broker fact''"
| "reason_explanation RETRY_AFTER_LOCAL_KNOWLEDGE =
     ''a send retry occurred after the runner already knew the original submit reached the broker''"
| "reason_explanation OVERLAPPING_REPLACE_INTENTS =
     ''two replace intents are outstanding at once '' @ em_dash
       @ '' which replacement governs is ambiguous at replace time''"
| "reason_explanation INVALID_REPLACE_BASIS =
     ''a replace cites a basis readback that was not the current basis when the replacement was created''"
| "reason_explanation REPLACE_CONFIRMATION_MISMATCH =
     ''the readback confirming a replace reports a different total than the replacement requested''"
| "reason_explanation UNEXPECTED_CONFIRMED_TOTAL_CHANGE =
     ''the broker-confirmed total changed without a replace to explain it''"

fun reason_value :: "reason \<Rightarrow> string" where
  "reason_value MISSING_SUBMIT = ''MISSING_SUBMIT''"
| "reason_value BROKER_ORDER_ID_CONFLICT = ''BROKER_ORDER_ID_CONFLICT''"
| "reason_value TOTAL_UNCONFIRMED = ''TOTAL_UNCONFIRMED''"
| "reason_value FILL_EXCEEDS_CONFIRMED_TOTAL = ''FILL_EXCEEDS_CONFIRMED_TOTAL''"
| "reason_value FILL_KIND_TOTAL_MISMATCH = ''FILL_KIND_TOTAL_MISMATCH''"
| "reason_value FILL_ECONOMIC_GAP = ''FILL_ECONOMIC_GAP''"
| "reason_value FILL_ECONOMIC_OVERLAP = ''FILL_ECONOMIC_OVERLAP''"
| "reason_value FILL_CUMULATIVE_REGRESSION = ''FILL_CUMULATIVE_REGRESSION''"
| "reason_value RETRY_AFTER_LOCAL_KNOWLEDGE = ''RETRY_AFTER_LOCAL_KNOWLEDGE''"
| "reason_value OVERLAPPING_REPLACE_INTENTS = ''OVERLAPPING_REPLACE_INTENTS''"
| "reason_value INVALID_REPLACE_BASIS = ''INVALID_REPLACE_BASIS''"
| "reason_value REJECT_WITH_OBSERVED_FILL = ''REJECT_WITH_OBSERVED_FILL''"
| "reason_value READBACK_FILL_CONTRADICTION = ''READBACK_FILL_CONTRADICTION''"
| "reason_value READBACK_CUMULATIVE_REGRESSION = ''READBACK_CUMULATIVE_REGRESSION''"
| "reason_value TERMINAL_FACT_CONTRADICTION = ''TERMINAL_FACT_CONTRADICTION''"
| "reason_value AMBIGUOUS_READBACK = ''AMBIGUOUS_READBACK''"
| "reason_value AMBIGUOUS_REPLACE_CONFIRMATION = ''AMBIGUOUS_REPLACE_CONFIRMATION''"
| "reason_value REPLACE_CONFIRMATION_MISMATCH = ''REPLACE_CONFIRMATION_MISMATCH''"
| "reason_value UNEXPECTED_CONFIRMED_TOTAL_CHANGE = ''UNEXPECTED_CONFIRMED_TOTAL_CHANGE''"

fun state_value :: "exec_state \<Rightarrow> string" where
  "state_value CREATED = ''CREATED''"
| "state_value SUBMITTING = ''SUBMITTING''"
| "state_value ACKNOWLEDGED = ''ACKNOWLEDGED''"
| "state_value PARTIALLY_FILLED = ''PARTIALLY_FILLED''"
| "state_value FILLED = ''FILLED''"
| "state_value CANCEL_PENDING = ''CANCEL_PENDING''"
| "state_value CANCELED = ''CANCELED''"
| "state_value REJECTED = ''REJECTED''"
| "state_value UNKNOWN = ''UNKNOWN''"
| "state_value RECONCILIATION_REQUIRED = ''RECONCILIATION_REQUIRED''"

definition all_reasons :: "reason list" where
  "all_reasons =
     [MISSING_SUBMIT, BROKER_ORDER_ID_CONFLICT, TOTAL_UNCONFIRMED,
      FILL_EXCEEDS_CONFIRMED_TOTAL, FILL_KIND_TOTAL_MISMATCH, FILL_ECONOMIC_GAP,
      FILL_ECONOMIC_OVERLAP, FILL_CUMULATIVE_REGRESSION, RETRY_AFTER_LOCAL_KNOWLEDGE,
      OVERLAPPING_REPLACE_INTENTS, INVALID_REPLACE_BASIS, REJECT_WITH_OBSERVED_FILL,
      READBACK_FILL_CONTRADICTION, READBACK_CUMULATIVE_REGRESSION, TERMINAL_FACT_CONTRADICTION,
      AMBIGUOUS_READBACK, AMBIGUOUS_REPLACE_CONFIRMATION, REPLACE_CONFIRMATION_MISMATCH,
      UNEXPECTED_CONFIRMED_TOTAL_CHANGE]"

subsection \<open>The report\<close>

record finding =
  fd_reason :: reason
  fd_severity :: severity
  fd_explanation :: string

record reconciliation_report =
  rr_intent_id :: ident
  rr_state :: exec_state
  rr_broker_state :: exec_state
  rr_findings :: "finding list"

definition finding_of :: "reason \<Rightarrow> finding" where
  "finding_of x = \<lparr>fd_reason = x, fd_severity = reason_severity x, fd_explanation = reason_explanation x\<rparr>"

definition finding_key :: "finding \<Rightarrow> nat \<times> string" where
  "finding_key f = (severity_rank (fd_severity f), reason_value (fd_reason f))"

text \<open>The generator runs over a frozenset, whose order is unspecified; the model lists the enum in
  its order of definition (the lemma \<open>findings_any_order\<close> says the choice does not matter).\<close>

definition reconcile :: "lifecycle \<Rightarrow> reconciliation_report" where
  "reconcile L = \<lparr>rr_intent_id = oi_intent_id (lc_intent L), rr_state = lc_state L,
     rr_broker_state = lc_broker_state L,
     rr_findings = sort_key finding_key (map finding_of (filter (\<lambda>x. x \<in> lc_reasons L) all_reasons))\<rparr>"

definition is_clean :: "reconciliation_report \<Rightarrow> bool" where
  "is_clean p \<longleftrightarrow> rr_findings p = []"

definition severities :: "reconciliation_report \<Rightarrow> severity set" where
  "severities p = set (map fd_severity (rr_findings p))"

definition economic_findings :: "reconciliation_report \<Rightarrow> finding list" where
  "economic_findings p = filter (\<lambda>f. fd_severity f = ECONOMIC) (rr_findings p)"

fun joined :: "string \<Rightarrow> string list \<Rightarrow> string" where
  "joined sep [] = []"
| "joined sep [x] = x"
| "joined sep (x # y # ys) = x @ sep @ joined sep (y # ys)"

text \<open>\<open>min(severities, key=rank)\<close>: the first severity of the ranking that occurs.\<close>

definition worst_severity :: "reconciliation_report \<Rightarrow> severity option" where
  "worst_severity p = find (\<lambda>s. s \<in> severities p) [ECONOMIC, TERMINAL, IDENTITY, PROTOCOL]"

definition report_summary :: "reconciliation_report \<Rightarrow> string" where
  "report_summary p =
     (if is_clean p then rr_intent_id p @ '': clean ('' @ state_value (rr_state p) @ '')''
      else case worst_severity p of
          None \<Rightarrow> []
        | Some worst \<Rightarrow> rr_intent_id p @ '': '' @ string_of_nat (length (rr_findings p))
            @ '' reasons, worst '' @ severity_value worst @ '' (''
            @ joined '','' (sort (map (\<lambda>f. reason_value (fd_reason f)) (rr_findings p))) @ '')'')"

subsection \<open>Evidence\<close>

datatype verdict = ADMISSIBLE | REFUSED

datatype blocker_kind =
  NON_TERMINAL_STATE | DERIVATION_MISMATCH | INCOMPLETE_FILL_ECONOMICS | RECONCILIATION_RETAINED

record blocker =
  bl_kind :: blocker_kind
  bl_detail :: string

record economics =
  ec_filled_quantity :: int
  ec_gross_amount :: decimal
  ec_total_fees :: decimal
  ec_net_cash_flow :: decimal

record evidence_receipt =
  er_intent_id :: ident
  er_contract_id :: ident
  er_side :: intent_side
  er_verdict :: verdict
  er_state :: exec_state
  er_covered_quantity :: int
  er_economics :: "economics option"
  er_blockers :: "blocker list"
  er_basis :: string

text \<open>The loop of \<open>_merge_intervals\<close>, written with the test the other way round.\<close>

fun evidence_merge_loop :: "(int \<times> int) list \<Rightarrow> (int \<times> int) list \<Rightarrow> (int \<times> int) list" where
  "evidence_merge_loop merged [] = merged"
| "evidence_merge_loop merged ((start, stop) # rest) =
     (if merged \<noteq> [] \<and> start \<le> snd (last merged)
      then evidence_merge_loop
             (butlast merged @ [(fst (last merged), max (snd (last merged)) stop)]) rest
      else evidence_merge_loop (merged @ [(start, stop)]) rest)"

definition evidence_merge :: "(int \<times> int) list \<Rightarrow> (int \<times> int) list" where
  "evidence_merge intervals = evidence_merge_loop [] (sort intervals)"

text \<open>The sums run under a precision wide enough to be exact.\<close>

definition recompute_economics :: "lifecycle \<Rightarrow> (int \<times> int) list \<times> int \<times> int \<times> economics" where
  "recompute_economics L =
     (let fills = fill_records (lc_records L);
          intervals = evidence_merge (map fill_interval fills);
          covered = sum_list (map (\<lambda>(start, stop). stop - start) intervals);
          observed = (case max_default (List.map_filter cumulative_of (lc_records L)) of
                        None \<Rightarrow> 0 | Some q \<Rightarrow> q);
          gross = sum_list (map (\<lambda>f. of_int (xf_fill_quantity f) * decimal_value (xf_unit_price f)) fills);
          fees = sum_list (map (\<lambda>f. decimal_value (xf_fees f)) fills);
          net = (if oi_side (lc_intent L) = BUY then - (gross + fees) else gross - fees)
      in (intervals, covered, observed,
          \<lparr>ec_filled_quantity = covered, ec_gross_amount = gross, ec_total_fees = fees,
           ec_net_cash_flow = net\<rparr>))"

definition expected_terminal_total :: "lifecycle \<Rightarrow> int" where
  "expected_terminal_total L =
     (case lc_confirmed_total L of Some t \<Rightarrow> t | None \<Rightarrow> oi_quantity (lc_intent L))"

definition string_of_int :: "int \<Rightarrow> string" where
  "string_of_int n = (if n < 0 then ''-'' @ string_of_nat (nat (- n)) else string_of_nat (nat n))"

definition pair_text :: "int \<times> int \<Rightarrow> string" where
  "pair_text p = ''('' @ string_of_int (fst p) @ '', '' @ string_of_int (snd p) @ '')''"

text \<open>Python's text of a tuple of pairs: a singleton has a trailing comma.\<close>

definition intervals_text :: "(int \<times> int) list \<Rightarrow> string" where
  "intervals_text ivs = (case ivs of
      [p] \<Rightarrow> ''('' @ pair_text p @ '',)''
    | _ \<Rightarrow> ''('' @ joined '', '' (map pair_text ivs) @ '')'')"

definition economics_blockers :: "lifecycle \<Rightarrow> (int \<times> int) list \<Rightarrow> blocker list" where
  "economics_blockers L intervals =
     (if lc_state L = FILLED
      then let expected = [(0, expected_terminal_total L)]
           in if intervals \<noteq> expected
              then [\<lparr>bl_kind = INCOMPLETE_FILL_ECONOMICS,
                     bl_detail = ''FILLED requires exactly '' @ intervals_text expected
                       @ ''; intervals are '' @ intervals_text intervals\<rparr>]
              else []
      else if intervals \<noteq> [] \<and> (length intervals \<noteq> 1 \<or> fst (hd intervals) \<noteq> 0)
      then [\<lparr>bl_kind = INCOMPLETE_FILL_ECONOMICS,
             bl_detail = state_value (lc_state L)
               @ '' economics must be one interval from 0; intervals are '' @ intervals_text intervals\<rparr>]
      else [])"

definition blocker_if :: "bool \<Rightarrow> blocker_kind \<Rightarrow> string \<Rightarrow> blocker list" where
  "blocker_if c k d = (if c then [\<lparr>bl_kind = k, bl_detail = d\<rparr>] else [])"

definition evidence_blockers :: "lifecycle \<Rightarrow> blocker list" where
  "evidence_blockers L =
     (let (intervals, covered, observed, _) = recompute_economics L
      in blocker_if (\<not> terminal_state (lc_state L)) NON_TERMINAL_STATE
           (''state '' @ state_value (lc_state L) @ '' is not terminal'')
         @ blocker_if (lc_fill_intervals L \<noteq> intervals) DERIVATION_MISMATCH
             (''lifecycle claims intervals '' @ intervals_text (lc_fill_intervals L)
              @ ''; records re-derive '' @ intervals_text intervals)
         @ blocker_if (lc_filled_quantity L \<noteq> observed) DERIVATION_MISMATCH
             (''lifecycle claims observed quantity '' @ string_of_int (lc_filled_quantity L)
              @ ''; records re-derive '' @ string_of_int observed)
         @ blocker_if (economically_covered_quantity L \<noteq> covered) DERIVATION_MISMATCH
             (''lifecycle claims covered quantity '' @ string_of_int (economically_covered_quantity L)
              @ ''; records re-derive '' @ string_of_int covered)
         @ (if terminal_state (lc_state L) then economics_blockers L intervals else [])
         @ map (\<lambda>f. \<lparr>bl_kind = RECONCILIATION_RETAINED,
                 bl_detail = severity_value (fd_severity f) @ '': '' @ reason_value (fd_reason f)
                   @ '' '' @ em_dash @ '' '' @ fd_explanation f\<rparr>) (rr_findings (reconcile L)))"

definition assess_evidence :: "lifecycle \<Rightarrow> evidence_receipt" where
  "assess_evidence L =
     (let (intervals, covered, observed, econ) = recompute_economics L;
          blockers = evidence_blockers L
      in \<lparr>er_intent_id = oi_intent_id (lc_intent L), er_contract_id = oi_contract_id (lc_intent L),
          er_side = oi_side (lc_intent L),
          er_verdict = (if blockers \<noteq> [] then REFUSED else ADMISSIBLE), er_state = lc_state L,
          er_covered_quantity = covered,
          er_economics = (if blockers \<noteq> [] then None else Some econ), er_blockers = blockers,
          er_basis = (if blockers \<noteq> [] then joined ''; '' (map bl_detail blockers)
            else ''terminal '' @ state_value (lc_state L) @ '' with exact fill economics ''
                 @ intervals_text intervals @ '' and zero retained reconciliation reasons'')\<rparr>)"


subsection \<open>The report is total and deterministic\<close>

lemma set_all_reasons: "x \<in> set all_reasons"
  by (cases x) (simp_all add: all_reasons_def)

lemma distinct_all_reasons: "distinct all_reasons"
  by (simp add: all_reasons_def)

lemma reason_value_inj: "reason_value x = reason_value y \<Longrightarrow> x = y"
  by (cases x; cases y; simp)

lemma finding_key_inj: "inj_on finding_key (finding_of ` A)"
  by (rule inj_onI) (auto simp: finding_key_def finding_of_def dest: reason_value_inj)

lemma finding_of_eq [simp]: "finding_of x = finding_of y \<longleftrightarrow> x = y"
  by (auto simp: finding_of_def)

lemma findings_any_order:
  assumes "distinct xs" and "set xs = lc_reasons L"
  shows "rr_findings (reconcile L) = sort_key finding_key (map finding_of xs)"
proof -
  let ?ys = "filter (\<lambda>x. x \<in> lc_reasons L) all_reasons"
  have s: "set ?ys = set xs" using assms(2) set_all_reasons by auto
  then have "mset ?ys = mset xs"
    using assms(1) distinct_all_reasons set_eq_iff_mset_eq_distinct [of ?ys xs] by simp
  then have "mset (map finding_of ?ys) = mset (map finding_of xs)" by (simp only: mset_map)
  moreover have "inj_on finding_key (set (map finding_of ?ys))" unfolding set_map by (rule finding_key_inj)
  ultimately have "sort_key finding_key (map finding_of ?ys) = sort_key finding_key (map finding_of xs)"
    by (rule sort_key_mset_cong)
  then show ?thesis by (simp add: reconcile_def)
qed

lemma findings_set: "set (rr_findings (reconcile L)) = finding_of ` lc_reasons L"
  using set_all_reasons by (auto simp: reconcile_def)

lemma findings_Nil: "rr_findings (reconcile L) = [] \<longleftrightarrow> lc_reasons L = {}"
  using findings_set [of L] by (metis image_is_empty set_empty)

text \<open>The adjudication neither drops nor invents a reason: the report has exactly one
  finding for every retained reason, with its severity and explanation, worst severity first and
  by name within a severity; it is clean exactly when no reason is retained.\<close>

lemma report_exact:
  "set (rr_findings (reconcile L)) = finding_of ` lc_reasons L
   \<and> distinct (rr_findings (reconcile L))
   \<and> sorted (map finding_key (rr_findings (reconcile L)))
   \<and> (is_clean (reconcile L) \<longleftrightarrow> lc_reasons L = {})"
proof -
  have "distinct (map finding_of (filter (\<lambda>x. x \<in> lc_reasons L) all_reasons))"
    using distinct_all_reasons by (simp add: distinct_map inj_on_def)
  then have "distinct (rr_findings (reconcile L))" by (simp add: reconcile_def)
  moreover have "is_clean (reconcile L) \<longleftrightarrow> lc_reasons L = {}" by (simp add: is_clean_def findings_Nil)
  moreover have "sorted (map finding_key (rr_findings (reconcile L)))" by (simp add: reconcile_def)
  ultimately show ?thesis using findings_set by blast
qed

subsection \<open>What the evidence gate admits\<close>

lemma evidence_merge_loop_eq: "evidence_merge_loop merged rest = merge_loop merged rest"
  by (induction merged rest rule: merge_loop.induct) auto

lemma evidence_merge_eq:
  "evidence_merge (map fill_interval (fill_records rs)) = fst (derive_fill_intervals rs)"
  by (simp add: evidence_merge_def evidence_merge_loop_eq derive_fill_intervals_def Let_def)

lemma recompute_parts:
  "fst (recompute_economics L) = fst (derive_fill_intervals (lc_records L))"
  "fst (snd (recompute_economics L)) = total_span (fst (derive_fill_intervals (lc_records L)))"
  "fst (snd (snd (recompute_economics L))) = derive_observed_cumulative (lc_records L)"
  by (simp_all add: recompute_economics_def Let_def evidence_merge_eq total_span_def
      derive_observed_cumulative_def)

lemma blocker_if_Nil [simp]: "blocker_if c k d = [] \<longleftrightarrow> \<not> c"
  by (simp add: blocker_if_def)

text \<open>The contract of the gate, checked against the records and not against the lifecycle's claims.\<close>

definition economics_complete :: "lifecycle \<Rightarrow> (int \<times> int) list \<Rightarrow> bool" where
  "economics_complete L ivs \<longleftrightarrow>
     (if lc_state L = FILLED then ivs = [(0, expected_terminal_total L)]
      else ivs = [] \<or> (\<exists>n. ivs = [(0, n)]))"

lemma economics_blockers_Nil: "economics_blockers L ivs = [] \<longleftrightarrow> economics_complete L ivs"
proof (cases ivs)
  case (Cons p ps)
  then show ?thesis
    by (cases p) (auto simp: economics_blockers_def economics_complete_def Let_def)
qed (simp add: economics_blockers_def economics_complete_def Let_def)

lemma evidence_blockers_Nil:
  "evidence_blockers L = [] \<longleftrightarrow>
     terminal_state (lc_state L) \<and> lc_fill_intervals L = fst (derive_fill_intervals (lc_records L))
     \<and> lc_filled_quantity L = derive_observed_cumulative (lc_records L)
     \<and> economics_complete L (fst (derive_fill_intervals (lc_records L))) \<and> lc_reasons L = {}"
proof -
  obtain iv cv ob ec where r: "recompute_economics L = (iv, cv, ob, ec)" by (metis prod_cases4)
  have cov: "lc_fill_intervals L = iv \<Longrightarrow> economically_covered_quantity L = cv"
    using recompute_parts(1,2) [of L] by (simp add: r economically_covered_quantity_def total_span_def)
  show ?thesis
    using recompute_parts [of L] cov unfolding evidence_blockers_def r
    by (auto simp: economics_blockers_Nil findings_Nil)
qed

lemma assess_parts:
  "er_verdict (assess_evidence L) = (if evidence_blockers L = [] then ADMISSIBLE else REFUSED)"
  "er_economics (assess_evidence L) =
     (if evidence_blockers L = [] then Some (snd (snd (snd (recompute_economics L)))) else None)"
  "er_blockers (assess_evidence L) = evidence_blockers L"
  by (simp_all add: assess_evidence_def Let_def split: prod.split)

text \<open>The gate trusts no claim of a lifecycle: for any lifecycle value whatever, admission
  is exactly a terminal state, interval and quantity claims equal to what the fill records and
  readbacks say, economics complete for the state, and no retained reason; and money is published
  exactly when the record set is admitted.\<close>

lemma evidence_verifies:
  "(er_verdict (assess_evidence L) = ADMISSIBLE \<longleftrightarrow>
     terminal_state (lc_state L) \<and> lc_fill_intervals L = fst (derive_fill_intervals (lc_records L))
     \<and> lc_filled_quantity L = derive_observed_cumulative (lc_records L)
     \<and> economics_complete L (fst (derive_fill_intervals (lc_records L))) \<and> lc_reasons L = {})
   \<and> (er_economics (assess_evidence L) \<noteq> None \<longleftrightarrow> er_verdict (assess_evidence L) = ADMISSIBLE)"
  by (simp add: assess_parts evidence_blockers_Nil)

subsection \<open>The money of admissible evidence\<close>

lemma clean_intervals:
  assumes "\<forall>r \<in> set rs. exec_record_ok r" and "lc_reasons (project_records canon i rs) = {}"
  shows "fst (derive_fill_intervals rs) = [] \<or> fst (derive_fill_intervals rs) = [(0, derive_observed_cumulative rs)]"
proof (cases "derive_observed_cumulative rs > 0")
  case True
  then show ?thesis using no_reasons(2) [OF assms(2) [unfolded lc_reasons_project]]
    by (simp add: covers_through_def)
next
  case False
  have "fill_records rs = []"
  proof (rule ccontr)
    assume "fill_records rs \<noteq> []"
    then obtain f where f: "f \<in> set (fill_records rs)" by (meson list.set_sel(1))
    with observed_cumulative_ge fill_interval_ok [OF assms(1)] False show False by fastforce
  qed
  then show ?thesis by (simp add: derive_fill_intervals_def)
qed

lemma reached_projection:
  "reached canon i L \<Longrightarrow> L = project_records canon i (lc_records L)"
  using reached_inv lifecycle_inv_def by blast

lemma terminal_is_clean:
  assumes "reached canon i L" and "terminal_state (lc_state L)"
  shows "lc_reasons L = {}"
proof -
  have "lc_state L = effective_state (lc_reasons L) (lc_uncertain_since_at L) (derive_broker_state canon (lc_records L))"
    using lc_state_project [of canon i "lc_records L"] reached_projection [OF assms(1)] by simp
  with assms(2) show ?thesis by (auto simp: effective_state_def terminal_state_def split: if_splits)
qed

text \<open>Claim C8. For a lifecycle reached from its intent by valid records, the gate admits it exactly
  when the order was canceled or rejected, or was filled for the whole confirmed (else intended)
  quantity; and then the published money is that of the fills, each counted once: the quantities
  sum to the filled quantity, the gross and the fees are the sums over the fills, and the signed
  cash movement pays both for a buy and nets them for a sale.\<close>

theorem evidence_money:
  assumes "reached canon i L" and "\<forall>r \<in> set (lc_records L). exec_record_ok r"
  shows "(er_verdict (assess_evidence L) = ADMISSIBLE \<longleftrightarrow>
      lc_state L = CANCELED \<or> lc_state L = REJECTED
      \<or> (lc_state L = FILLED \<and> lc_fill_intervals L = [(0, expected_terminal_total L)]))
    \<and> (\<forall>e. er_economics (assess_evidence L) = Some e \<longrightarrow>
        (let fills = fill_records (lc_records L);
             gross = sum_list (map (\<lambda>f. of_int (xf_fill_quantity f) * decimal_value (xf_unit_price f)) fills);
             fees = sum_list (map (\<lambda>f. decimal_value (xf_fees f)) fills)
         in ec_filled_quantity e = sum_list (map xf_fill_quantity fills)
            \<and> ec_filled_quantity e = lc_filled_quantity L
            \<and> ec_gross_amount e = gross \<and> ec_total_fees e = fees
            \<and> ec_net_cash_flow e = (if oi_side i = BUY then - (gross + fees) else gross - fees)))"
proof -
  define rs where "rs = lc_records L"
  have L: "L = project_records canon i rs" using reached_projection [OF assms(1)] by (simp add: rs_def)
  have ok: "\<forall>r \<in> set rs. exec_record_ok r" using assms(2) by (simp add: rs_def)
  have iv: "lc_fill_intervals L = fst (derive_fill_intervals rs)" and q: "lc_filled_quantity L = derive_observed_cumulative rs"
    and re: "lc_records L = rs" and "lc_intent L = i" by (simp_all add: L)
  have complete: "economics_complete L (fst (derive_fill_intervals rs))"
    if "lc_reasons L = {}" "lc_state L \<noteq> FILLED"
    using clean_intervals [OF ok] that by (auto simp: economics_complete_def L)
  have adm: "evidence_blockers L = [] \<longleftrightarrow> lc_state L = CANCELED \<or> lc_state L = REJECTED
      \<or> (lc_state L = FILLED \<and> lc_fill_intervals L = [(0, expected_terminal_total L)])"
    using complete terminal_is_clean [OF assms(1)]
    unfolding evidence_blockers_Nil re iv q by (auto simp: terminal_state_def economics_complete_def)
  have "total_span (fst (derive_fill_intervals rs)) = sum_list (map xf_fill_quantity (fill_records rs))
      \<and> total_span (fst (derive_fill_intervals rs)) = lc_filled_quantity L" if "evidence_blockers L = []"
  proof -
    have "lc_reasons (project_records canon i rs) = {}" using that L by (simp add: evidence_blockers_Nil)
    from clean_projection_tiles [OF ok this] show ?thesis by (simp add: q)
  qed
  then show ?thesis
    using adm \<open>lc_intent L = i\<close> re
    by (auto simp: assess_parts recompute_economics_def Let_def evidence_merge_eq total_span_def split: if_splits)
qed

text \<open>The sample order, filled.\<close>

definition sample_complete :: exec_record where
  "sample_complete = Complete \<lparr>xf_record_id = ''f2'', xf_intent_id = ''i1'', xf_broker_order_id = ''o1'',
     xf_fill_quantity = 3, xf_cumulative_quantity = 4, xf_unit_price = sample_price,
     xf_fees = sample_price, xf_exchange_event_at = 17, xf_locally_received_at = 17,
     xf_source = ''broker'', xf_source_sequence_id = ''4'', xf_broker_sequence_id = ''4''\<rparr>"

definition sample_filled :: lifecycle where
  "sample_filled = (case lifecycle_apply stored_id sample_lifecycle sample_complete of
      Inr L \<Rightarrow> L | Inl _ \<Rightarrow> sample_lifecycle)"

lemma sample_filled_apply: "lifecycle_apply stored_id sample_lifecycle sample_complete = Inr sample_filled"
proof -
  have "\<exists>L. lifecycle_apply stored_id sample_lifecycle sample_complete = Inr L"
    by (rule returnedD) code_simp
  then show ?thesis by (auto simp: sample_filled_def)
qed

lemma evidence_money_witness:
  "\<exists>e. er_economics (assess_evidence sample_filled) = Some e \<and> ec_filled_quantity e = 4"
proof -
  have re: "reached stored_id sample_intent sample_filled"
    by (rule reached_apply [OF sample_reached sample_filled_apply])
  have ok: "\<forall>r \<in> set (lc_records sample_filled). exec_record_ok r" by code_simp
  have st: "lc_state sample_filled = FILLED" and q: "lc_filled_quantity sample_filled = 4"
    and iv: "lc_fill_intervals sample_filled = [(0, expected_terminal_total sample_filled)]" by code_simp+
  note money = evidence_money [OF re ok]
  have "er_verdict (assess_evidence sample_filled) = ADMISSIBLE" using conjunct1 [OF money] st iv by blast
  then obtain e where e: "er_economics (assess_evidence sample_filled) = Some e"
    by (simp add: assess_parts split: if_splits)
  have "ec_filled_quantity e = lc_filled_quantity sample_filled"
    using conjunct2 [OF money, rule_format, OF e] unfolding Let_def by (elim conjE)
  then have "ec_filled_quantity e = 4" using q by (rule trans)
  with e show ?thesis by blast
qed

end
