(* ===== verification/PaperLaws.thy ===== *)
theory PaperLaws
  imports PaperBroker
begin

text \<open>
  The paper broker and the lifecycle together. \<open>fill_chain\<close> is the shape of the fills the broker
  emits; each derivation of the lifecycle is computed on such a history, whatever the canonical
  bytes are.
\<close>

subsection \<open>Clips cover the quantity\<close>

text \<open>The clips that cover a quantity: the fractions in turn, the last one trimmed.\<close>

fun covers_in_clips :: "int list \<Rightarrow> nat \<Rightarrow> int \<Rightarrow> int list \<Rightarrow> bool" where
  "covers_in_clips fr k q [] \<longleftrightarrow> q = 0"
| "covers_in_clips fr k q (c # cs) \<longleftrightarrow>
     0 < q \<and> 0 < c \<and> c = min (fr ! (k mod length fr)) q \<and> covers_in_clips fr (Suc k) (q - c) cs"

lemma clips_loop_covers:
  assumes "fr \<noteq> []" and "\<forall>x \<in> set fr. 1 \<le> x" and "0 \<le> q"
  shows "\<exists>cs. clips_loop fr acc q k = Some (acc @ cs) \<and> covers_in_clips fr k q cs"
  using assms(3)
proof (induction "nat q" arbitrary: acc q k rule: less_induct)
  case less
  show ?case
  proof (cases "q > 0")
    case False
    with less(2) show ?thesis
      by (intro exI [of _ "[]"]) (simp add: clips_loop.simps)
  next
    case True
    let ?c = "min (fr ! (k mod length fr)) q"
    have "fr ! (k mod length fr) \<in> set fr" using assms(1) by simp
    then have c: "0 < ?c" "?c \<le> q" using assms(2) True by force+
    then obtain cs where cs: "clips_loop fr (acc @ [?c]) (q - ?c) (Suc k) = Some ((acc @ [?c]) @ cs)"
        "covers_in_clips fr (Suc k) (q - ?c) cs"
      using less(1) [of "q - ?c" "acc @ [?c]" "Suc k"] by auto
    then show ?thesis using c True
      by (intro exI [of _ "?c # cs"]) (subst clips_loop.simps, simp add: Let_def)
  qed
qed

lemma covers_in_clips_sum: "covers_in_clips fr k q cs \<Longrightarrow> sum_list cs = q \<and> (\<forall>c \<in> set cs. 0 < c)"
  by (induction fr k q cs rule: covers_in_clips.induct) auto

text \<open>A validated fill plan always covers a quantity: the loop ends with clips that are all
  positive and sum to the quantity exactly, each clip but the last being the plan's next fraction in
  cyclic order and the last one trimmed.\<close>

lemma plan_clips_cover:
  assumes "make_fill_plan fractions = Inr fr" and "0 \<le> quantity"
  shows "\<exists>clips. plan_clips fr quantity = Some clips \<and> sum_list clips = quantity
    \<and> (\<forall>c \<in> set clips. 0 < c) \<and> covers_in_clips fr 0 quantity clips"
proof -
  have fr: "fr \<noteq> []" "\<forall>x \<in> set fr. 1 \<le> x"
    using assms(1) by (auto simp: make_fill_plan_def Let_def list_ex_iff split: if_splits)
  obtain cs where "clips_loop fr [] quantity 0 = Some cs" "covers_in_clips fr 0 quantity cs"
    using clips_loop_covers [OF fr assms(2), of "[]" 0] by auto
  then show ?thesis using covers_in_clips_sum by (auto simp: plan_clips_def)
qed

lemma plan_clips_cover_witness: "\<exists>clips. plan_clips [1, 2] 4 = Some clips \<and> sum_list clips = 4"
  using plan_clips_cover [of "[1, 2]" "[1, 2]" 4] by (simp add: make_fill_plan_def) blast

subsection \<open>Chains of fills\<close>

text \<open>Fills from cumulative \<open>c\<close> at instant \<open>t\<close>, \<open>d\<close> apart, the last one the complete fill of \<open>q\<close>.\<close>

fun fill_chain :: "ident \<Rightarrow> int \<Rightarrow> int \<Rightarrow> int \<Rightarrow> instant \<Rightarrow> exec_record list \<Rightarrow> bool" where
  "fill_chain oid q d c t [] \<longleftrightarrow> False"
| "fill_chain oid q d c t [f] \<longleftrightarrow> (\<exists>r. f = Complete r \<and> xf_cumulative_quantity r = q
     \<and> xf_fill_quantity r = q - c \<and> c < q \<and> xf_exchange_event_at r = t \<and> xf_broker_order_id r = oid)"
| "fill_chain oid q d c t (f # g # fs) \<longleftrightarrow> (\<exists>r. f = Partial r
     \<and> xf_cumulative_quantity r = c + xf_fill_quantity r \<and> 0 < xf_fill_quantity r
     \<and> xf_cumulative_quantity r < q \<and> xf_exchange_event_at r = t \<and> xf_broker_order_id r = oid
     \<and> fill_chain oid q d (xf_cumulative_quantity r) (t + d) (g # fs))"

lemma fill_chain_less: "fill_chain oid q d c t fs \<Longrightarrow> c < q"
  by (induction oid q d c t fs rule: fill_chain.induct) auto

lemma fill_chain_fills: "fill_chain oid q d c t fs \<Longrightarrow> f \<in> set fs \<Longrightarrow> is_fill f"
  by (induction oid q d c t fs rule: fill_chain.induct) auto

text \<open>Every derivation that walks the fills, by induction on the chain.\<close>

lemma fill_chain_times:
  "fill_chain oid q d c t fs \<Longrightarrow> 0 < d \<Longrightarrow>
   sorted_wrt (<) (map primary_time fs) \<and> (\<forall>f \<in> set fs. t \<le> primary_time f)
   \<and> (\<forall>f \<in> set fs. primary_time f \<le> primary_time (last fs))"
proof (induction oid q d c t fs rule: fill_chain.induct)
  case (3 oid q d c t f g fs)
  then obtain r where f: "f = Partial r" "xf_exchange_event_at r = t"
      "fill_chain oid q d (xf_cumulative_quantity r) (t + d) (g # fs)" by auto
  from 3(1) [OF this(3) 3(3)] have "sorted_wrt (<) (map primary_time (g # fs))"
      "\<forall>x \<in> set (g # fs). t + d \<le> primary_time x"
      "\<forall>x \<in> set (g # fs). primary_time x \<le> primary_time (last (g # fs))" by blast+
  with f(1,2) 3(3) show ?case by fastforce
qed auto

lemma fill_chain_facts_fold:
  "fill_chain oid q d c t fs \<Longrightarrow> 0 \<le> c \<Longrightarrow> fq_terminal S = None \<Longrightarrow> fq_observed S = c \<Longrightarrow>
   \<exists>S'. fold fact_step fs S = S' \<and> fq_reasons S' = fq_reasons S \<and> fq_observed S' = q
     \<and> fq_terminal S' = Some FILLED"
proof (induction oid q d c t fs arbitrary: S rule: fill_chain.induct)
  case (2 oid q d c t f)
  then show ?case by (auto simp: fact_fill_def note_fact_def fill_after_terminal_def Let_def)
next
  case (3 oid q d c t f g fs)
  then obtain r where f: "f = Partial r" "xf_cumulative_quantity r = c + xf_fill_quantity r"
      "0 < xf_fill_quantity r"
      "fill_chain oid q d (xf_cumulative_quantity r) (t + d) (g # fs)" by auto
  let ?S = "fact_fill r S"
  have "fq_terminal ?S = None" "fq_observed ?S = xf_cumulative_quantity r" "fq_reasons ?S = fq_reasons S"
    using 3(4,5) f by (simp_all add: fact_fill_def note_fact_def fill_after_terminal_def)
  moreover have "0 \<le> xf_cumulative_quantity r" using f 3(3) by simp
  ultimately show ?case using 3(1) [OF f(4), of ?S] f(1) by simp
qed simp

lemma fill_chain_state_fold:
  "fill_chain oid q d c t fs \<Longrightarrow> 0 \<le> c \<Longrightarrow> \<not> terminal_state s \<Longrightarrow> fold state_step fs (s, c) = (FILLED, q)"
proof (induction oid q d c t fs arbitrary: s rule: fill_chain.induct)
  case (3 oid q d c t f g fs)
  then obtain r where f: "f = Partial r" "xf_cumulative_quantity r = c + xf_fill_quantity r"
      "0 < xf_fill_quantity r"
      "fill_chain oid q d (xf_cumulative_quantity r) (t + d) (g # fs)" by auto
  have "fold state_step (g # fs) (PARTIALLY_FILLED, xf_cumulative_quantity r) = (FILLED, q)"
    by (rule 3(1) [OF f(4)]) (use f 3(3) in \<open>simp_all add: terminal_state_def\<close>)
  moreover have "state_step f (s, c) = (PARTIALLY_FILLED, xf_cumulative_quantity r)"
    using f 3(4) by (simp add: state_fill_def)
  ultimately show ?case by simp
qed (auto simp: state_fill_def)

text \<open>The intervals of a chain, in order, tile from \<open>c\<close> to \<open>q\<close>.\<close>

fun tiles :: "int \<Rightarrow> int \<Rightarrow> (int \<times> int) list \<Rightarrow> bool" where
  "tiles c q [] \<longleftrightarrow> c = q"
| "tiles c q ((a, b) # ivs) \<longleftrightarrow> a = c \<and> c < b \<and> tiles b q ivs"

lemma fill_records_simps [simp]:
  "fill_records [] = []" "fill_records (Partial r # rs) = r # fill_records rs"
  "fill_records (Complete r # rs) = r # fill_records rs"
  by (simp_all add: fill_records_def List.map_filter_def)

lemma fill_chain_tiles:
  "fill_chain oid q d c t fs \<Longrightarrow> tiles c q (map fill_interval (fill_records fs))"
proof (induction oid q d c t fs rule: fill_chain.induct)
  case (3 oid q d c t f g fs)
  then obtain r where f: "f = Partial r" "xf_cumulative_quantity r = c + xf_fill_quantity r"
      "0 < xf_fill_quantity r"
      "fill_chain oid q d (xf_cumulative_quantity r) (t + d) (g # fs)" by auto
  from 3(1) [OF f(4)] f(2,3) show ?case by (simp add: f(1) fill_interval_def)
qed (auto simp: fill_interval_def)

lemma tiles_le: "tiles c q ivs \<Longrightarrow> (a, b) \<in> set ivs \<Longrightarrow> c \<le> a \<and> a < b"
  by (induction ivs arbitrary: c) fastforce+

lemma tiles_sorted: "tiles c q ivs \<Longrightarrow> sorted ivs \<and> \<not> any_overlap ivs"
proof (induction c q ivs rule: tiles.induct)
  case (2 c q a b ivs)
  then have ab: "a < b" and t: "tiles b q ivs" by auto
  have ge: "b \<le> fst p" if "p \<in> set ivs" for p using tiles_le [OF t, of "fst p" "snd p"] that by simp
  have "\<forall>p \<in> set ivs. (a, b) \<le> p" using ge ab by (force simp: less_eq_prod_def)
  moreover have "\<not> list_ex (\<lambda>(x, y). a < y \<and> x < b) ivs" using ge by (force simp: list_ex_iff)
  ultimately show ?case using 2(1) [OF t] by simp
qed simp

lemma tiles_merge: "tiles c q ivs \<Longrightarrow> s \<le> c \<Longrightarrow> merge_loop (pre @ [(s, c)]) ivs = pre @ [(s, q)]"
  by (induction c q ivs rule: tiles.induct) (auto simp: max_def)

lemma fill_chain_intervals:
  assumes "fill_chain oid q d 0 t fs"
  shows "derive_fill_intervals fs = ([(0, q)], False)"
proof -
  let ?ivs = "map fill_interval (fill_records fs)"
  have t: "tiles 0 q ?ivs" by (rule fill_chain_tiles [OF assms])
  have s: "sort ?ivs = ?ivs" using tiles_sorted [OF t] by (simp add: sorted_sort_id)
  have "?ivs \<noteq> []" using t fill_chain_less [OF assms] by (cases ?ivs) auto
  then obtain a b ivs where iv: "?ivs = (a, b) # ivs" by (cases ?ivs) auto
  with t have "merge_loop [] ?ivs = merge_loop ([] @ [(0, b)]) ivs" by simp
  also have "\<dots> = [] @ [(0, q)]" by (rule tiles_merge) (use t iv in auto)
  finally show ?thesis using tiles_sorted [OF t] unfolding derive_fill_intervals_def s by simp
qed

text \<open>Order ids and cumulative quantities.\<close>

lemma fill_chain_members:
  "fill_chain oid q d c t fs \<Longrightarrow> f \<in> set fs \<Longrightarrow> 0 < d \<Longrightarrow>
   broker_order_of f = Some oid \<and> \<not> kind_mismatch q f
   \<and> (\<exists>x. cumulative_of f = Some x \<and> c < x \<and> x \<le> q)"
proof (induction oid q d c t fs rule: fill_chain.induct)
  case (3 oid q d c t f' g fs)
  then show ?case by (force)
qed auto

lemma fill_chain_last:
  "fill_chain oid q d c t fs \<Longrightarrow> \<exists>x. last fs = Complete x \<and> xf_cumulative_quantity x = q"
proof (induction oid q d c t fs rule: fill_chain.induct)
  case (3 oid q d c t f g fs)
  then show ?case by (metis fill_chain.simps(3) last.simps list.distinct(1))
qed auto

text \<open>A later fill never reports less.\<close>

lemma fill_chain_monotone:
  "fill_chain oid q d c t fs \<Longrightarrow> 0 < d \<Longrightarrow> e \<in> set fs \<Longrightarrow> l \<in> set (fill_records fs) \<Longrightarrow>
   primary_time e < xf_exchange_event_at l \<Longrightarrow> cumulative_of e = Some x \<Longrightarrow> x \<le> xf_cumulative_quantity l"
proof (induction oid q d c t fs rule: fill_chain.induct)
  case (2 oid q d c t f)
  then show ?case by auto
next
  case (3 oid q d c t f g fs)
  then obtain r where f: "f = Partial r" "xf_exchange_event_at r = t"
      "fill_chain oid q d (xf_cumulative_quantity r) (t + d) (g # fs)" by auto
  have fr: "fill_records (f # g # fs) = r # fill_records (g # fs)"
    by (simp add: f(1))
  note times = fill_chain_times [OF f(3) 3(3)] and members = fill_chain_members [OF f(3) _ 3(3)]
  have rest: "l \<in> set (fill_records (g # fs)) \<Longrightarrow> xf_cumulative_quantity r < xf_cumulative_quantity l"
  proof -
    assume "l \<in> set (fill_records (g # fs))"
    then obtain x where x: "x \<in> set (g # fs)" "the_fill x = Some l"
      unfolding fill_records_def map_filter_set by blast
    from x(2) have "cumulative_of x = Some (xf_cumulative_quantity l)" by (cases x) simp_all
    with members [OF x(1)] show "xf_cumulative_quantity r < xf_cumulative_quantity l" by simp
  qed
  consider "e = f" "l = r" | "e = f" "l \<in> set (fill_records (g # fs))" | "e \<in> set (g # fs)" "l = r"
    | "e \<in> set (g # fs)" "l \<in> set (fill_records (g # fs))" using 3(4,5) fr by auto
  then show ?case
  proof cases
    case 1
    then show ?thesis using 3(7) f by simp
  next
    case 2
    then show ?thesis using 3(7) f rest by simp
  next
    case 3
    then have "t + d \<le> primary_time e" using times by auto
    then show ?thesis using \<open>l = r\<close> f(2) "3.prems"(2,5) by simp
  next
    case 4
    then show ?thesis using "3.IH" [OF f(3)] "3.prems" by blast
  qed
qed simp


subsection \<open>The projection of a paper history\<close>

text \<open>A submit attempt at \<open>t\<^sub>0\<close>, its acknowledgement, a chain of fills starting when it was
  acknowledged, and a readback after the last fill.\<close>

definition paper_history ::
  "int \<Rightarrow> submit_attempt \<Rightarrow> broker_acknowledgement \<Rightarrow> exec_record list \<Rightarrow> broker_readback \<Rightarrow> bool" where
  "paper_history q a k fs rb \<longleftrightarrow>
     sa_send_attempt_at a \<le> ba_broker_acknowledged_at k
     \<and> (\<exists>d > 0. fill_chain (ba_broker_order_id k) q d 0 (ba_broker_acknowledged_at k) fs)
     \<and> primary_time (last fs) < rb_broker_snapshot_at rb
     \<and> rb_status rb = RB_FILLED \<and> rb_broker_order_id rb = Some (ba_broker_order_id k)
     \<and> rb_total_quantity rb = Some q \<and> rb_cumulative_quantity rb = q"

definition history_records ::
  "submit_attempt \<Rightarrow> broker_acknowledgement \<Rightarrow> exec_record list \<Rightarrow> broker_readback \<Rightarrow> exec_record list" where
  "history_records a k fs rb = Submit a # Ack k # fs @ [Readback rb]"

lemma history_facts:
  assumes "paper_history q a k fs rb"
  shows "broker_facts (history_records a k fs rb) = Ack k # fs @ [Readback rb]"
    and "fill_records (history_records a k fs rb) = fill_records fs"
    and "filter is_submit (history_records a k fs rb) = [Submit a]"
    and "filter is_uncertainty (history_records a k fs rb) = []"
    and "filter is_replace (history_records a k fs rb) = []"
    and "List.map_filter the_replace (history_records a k fs rb) = []"
    and "filter has_authority (history_records a k fs rb) = [Submit a, Ack k, Readback rb]"
proof -
  have fill: "is_fill f" if "f \<in> set fs" for f
    using assms fill_chain_fills that unfolding paper_history_def by blast
  have fs: "is_broker_fact f \<and> \<not> is_submit f \<and> \<not> is_uncertainty f \<and> \<not> is_replace f
      \<and> the_replace f = None \<and> \<not> has_authority f" if "f \<in> set fs" for f
    using fill [OF that] by (cases f) simp_all
  then have [simp]: "filter is_broker_fact fs = fs" "filter is_submit fs = []" "filter is_uncertainty fs = []"
      "filter is_replace fs = []" "filter has_authority fs = []" "List.map_filter the_replace fs = []"
    by (auto simp: filter_empty_conv filter_id_conv List.map_filter_def)
  have app: "List.map_filter f (xs @ ys) = List.map_filter f xs @ List.map_filter f ys" for f :: "exec_record \<Rightarrow> 'z option" and xs ys
    by (simp add: List.map_filter_def)
  show "broker_facts (history_records a k fs rb) = Ack k # fs @ [Readback rb]"
    by (simp add: broker_facts_def history_records_def)
  show "fill_records (history_records a k fs rb) = fill_records fs"
    by (simp add: fill_records_def history_records_def List.map_filter_def)
  show "filter is_submit (history_records a k fs rb) = [Submit a]"
    "filter is_uncertainty (history_records a k fs rb) = []"
    "filter is_replace (history_records a k fs rb) = []"
    "filter has_authority (history_records a k fs rb) = [Submit a, Ack k, Readback rb]"
    by (simp_all add: history_records_def)
  have "filter (\<lambda>x. the_replace x \<noteq> None) fs = []" using fs by (auto simp: filter_empty_conv)
  then show "List.map_filter the_replace (history_records a k fs rb) = []"
    by (simp add: history_records_def List.map_filter_def)
qed

lemma sort_key_strict:
  assumes "sorted_wrt (<) (map (k :: 'a \<Rightarrow> 'k::linorder) ys)" and "mset xs = mset ys"
  shows "sort_key k xs = ys"
proof -
  have "inj_on k (set ys)" using sorted_wrt_less_distinct [OF assms(1)] by (simp add: distinct_map)
  moreover have "set xs = set ys" by (rule mset_eq_setD [OF assms(2)])
  ultimately have "sort_key k xs = sort_key k ys" using assms(2) by (intro sort_key_mset_cong) simp_all
  also have "\<dots> = ys" by (rule sort_key_id_if_sorted) (rule strict_sorted_imp_sorted [OF assms(1)])
  finally show ?thesis .
qed

text \<open>Only the acknowledgement and the first fill can share an instant; their canonical bytes
  decide which comes first, and it does not matter.\<close>

lemma history_order:
  assumes "paper_history q a k fs rb"
  obtains f rest where "fs = f # rest"
    and "sort_key (event_sort_key canon) (Ack k # fs @ [Readback rb]) \<in>
      {Ack k # f # rest @ [Readback rb], f # Ack k # rest @ [Readback rb]}"
proof -
  obtain d where d: "0 < d" and ch: "fill_chain (ba_broker_order_id k) q d 0 (ba_broker_acknowledged_at k) fs"
    using assms unfolding paper_history_def by blast
  obtain f rest where fs: "fs = f # rest" using ch by (cases fs) auto
  let ?k = "event_sort_key canon"
  note times = fill_chain_times [OF ch d]
  have rb: "primary_time x < primary_time (Readback rb)" if "x \<in> set fs" for x
    using times assms that unfolding paper_history_def by fastforce
  have lt: "primary_time x < primary_time y \<Longrightarrow> ?k x < ?k y" for x y
    by (simp add: event_sort_key_def less_prod_def)
  have tail: "sorted_wrt (<) (map ?k (fs @ [Readback rb]))"
  proof -
    have "sorted_wrt (\<lambda>x y. primary_time x < primary_time y) fs" using times by (simp add: sorted_wrt_map)
    then have "sorted_wrt (\<lambda>x y. ?k x < ?k y) fs" by (rule sorted_wrt_mono_rel [rotated]) (rule lt)
    then show ?thesis using rb lt by (simp add: sorted_wrt_append sorted_wrt_map)
  qed
  have le: "primary_time (Ack k) \<le> primary_time x" if "x \<in> set fs" for x using times that by simp
  have ge: "?k (Ack k) < ?k x" if x: "x \<in> set (rest @ [Readback rb])" for x
  proof (rule lt)
    have f: "primary_time (Ack k) \<le> primary_time f" by (rule le) (simp add: fs)
    have "primary_time f < primary_time x"
    proof (cases "x \<in> set rest")
      case True
      then show ?thesis using times by (simp add: fs)
    next
      case False
      then show ?thesis using rb [of f] x by (simp add: fs)
    qed
    with f show "primary_time (Ack k) < primary_time x" by (rule le_less_trans)
  qed
  show ?thesis
  proof (cases "?k (Ack k) \<le> ?k f")
    case True
    have "sorted (map ?k (fs @ [Readback rb]))" by (rule strict_sorted_imp_sorted [OF tail])
    then have "sorted (map ?k (Ack k # fs @ [Readback rb]))"
      using True ge unfolding fs by (auto simp: less_imp_le)
    then have "sort_key ?k (Ack k # fs @ [Readback rb]) = Ack k # fs @ [Readback rb]"
      by (rule sort_key_id_if_sorted)
    with fs show ?thesis by (intro that [OF fs]) simp
  next
    case False
    then have "sorted_wrt (<) (map ?k (f # Ack k # rest @ [Readback rb]))"
      using tail ge unfolding fs by (auto simp: not_le)
    then have "sort_key ?k (Ack k # fs @ [Readback rb]) = f # Ack k # rest @ [Readback rb]"
      by (rule sort_key_strict) (simp add: fs)
    with fs show ?thesis by (intro that [OF fs]) simp
  qed
qed


lemma history_fact_fold:
  assumes h: "paper_history q a k fs rb"
  shows "derive_fact_reasons canon (history_records a k fs rb) = {}"
    and "derive_broker_state canon (history_records a k fs rb) = FILLED"
proof -
  obtain d where d: "0 < d" and ch: "fill_chain (ba_broker_order_id k) q d 0 (ba_broker_acknowledged_at k) fs"
    using h unfolding paper_history_def by blast
  have rb: "rb_status rb = RB_FILLED" "rb_total_quantity rb = Some q" "rb_cumulative_quantity rb = q"
    using h by (simp_all add: paper_history_def)
  obtain f rest where fs: "fs = f # rest" and order: "facts_in_order canon (history_records a k fs rb) \<in>
      {Ack k # f # rest @ [Readback rb], f # Ack k # rest @ [Readback rb]}"
    using history_order [OF h, of canon] unfolding facts_in_order_def history_facts(1) [OF h] by metis
  let ?S = "fold fact_step fs fact_init"
  have S: "fq_reasons ?S = {}" "fq_observed ?S = q" "fq_terminal ?S = Some FILLED"
    using fill_chain_facts_fold [OF ch, of fact_init] by (simp_all add: fact_init_def)
  have ack: "fact_step (Ack k) S = S" if "fq_terminal S \<in> {None, Some FILLED}" for S
    using that by (auto simp: note_fact_def)
  have f1: "fq_terminal (fact_step f fact_init) \<in> {None, Some FILLED}"
  proof (cases rest)
    case Nil
    then show ?thesis using S(3) by (simp add: fs)
  next
    case (Cons g gs)
    with ch fs show ?thesis by (auto simp: fact_init_def fact_fill_def note_fact_def fill_after_terminal_def)
  qed
  have "fq_terminal fact_init \<in> {None, Some FILLED}" by (simp add: fact_init_def)
  then have skip: "fact_step (Ack k) fact_init = fact_init"
      "fact_step (Ack k) (fact_step f fact_init) = fact_step f fact_init" using ack f1 by blast+
  have "fold fact_step (facts_in_order canon (history_records a k fs rb)) fact_init
      = fact_step (Readback rb) ?S"
    using order unfolding fs
    by (elim insertE emptyE) (simp_all only: fold_Cons fold_append fold_Nil comp_apply id_apply skip)
  then show "derive_fact_reasons canon (history_records a k fs rb) = {}"
    using S rb by (simp add: derive_fact_reasons_def fact_readback_def readback_terminal_state_def note_fact_def Let_def)
  have acked: "fold state_step fs (ACKNOWLEDGED, 0) = (FILLED, q)"
    by (rule fill_chain_state_fold [OF ch]) (simp_all add: terminal_state_def)
  have "fold state_step rest (state_step (Ack k) (state_step f (SUBMITTING, 0))) = (FILLED, q)"
  proof (cases rest)
    case Nil
    then show ?thesis using fill_chain_state_fold [OF ch, of SUBMITTING] by (simp add: fs terminal_state_def)
  next
    case (Cons g gs)
    with ch fs obtain r where r: "f = Partial r" "xf_cumulative_quantity r = xf_fill_quantity r"
        "0 < xf_fill_quantity r"
        "fill_chain (ba_broker_order_id k) q d (xf_cumulative_quantity r) (ba_broker_acknowledged_at k + d) rest"
      by auto
    have "state_step (Ack k) (state_step f (SUBMITTING, 0)) = (PARTIALLY_FILLED, xf_cumulative_quantity r)"
      using r by (simp add: state_fill_def terminal_state_def)
    then show ?thesis using fill_chain_state_fold [OF r(4), of PARTIALLY_FILLED] r by (simp add: terminal_state_def)
  qed
  moreover have "state_step (Ack k) (SUBMITTING, 0) = (ACKNOWLEDGED, 0)" by (simp add: terminal_state_def)
  ultimately have "fold state_step (facts_in_order canon (history_records a k fs rb)) (SUBMITTING, 0)
      = state_step (Readback rb) (FILLED, q)"
    using order acked unfolding fs by auto
  then show "derive_broker_state canon (history_records a k fs rb) = FILLED"
    using rb by (simp add: derive_broker_state_def history_records_def state_for_status_def)
qed

lemma history_authority:
  assumes h: "paper_history q a k fs rb" and "oi_quantity i = q"
  shows "derive_quantity_authority canon i (history_records a k fs rb)
    = (Some q, None, Some (ba_broker_acknowledged_at k), {})"
proof -
  obtain d where d: "0 < d" and ch: "fill_chain (ba_broker_order_id k) q d 0 (ba_broker_acknowledged_at k) fs"
    using h unfolding paper_history_def by blast
  have "fs \<noteq> []" using ch by auto
  moreover have "\<forall>f \<in> set fs. ba_broker_acknowledged_at k \<le> primary_time f"
    using fill_chain_times [OF ch d] by blast
  ultimately have "ba_broker_acknowledged_at k < rb_broker_snapshot_at rb"
    using h unfolding paper_history_def by (metis last_in_set order_le_less_trans)
  then have "sort_key (event_sort_key canon) [Submit a, Ack k, Readback rb] = [Submit a, Ack k, Readback rb]"
    using h by (intro sort_key_strict) (auto simp: event_sort_key_def less_prod_def paper_history_def)
  then show ?thesis
    using h assms(2) unfolding derive_quantity_authority_def history_facts(7) [OF h]
    by (simp add: authority_init_def confirm_def authority_readback_def paper_history_def)
qed

lemma history_observed:
  assumes h: "paper_history q a k fs rb"
  shows "derive_observed_cumulative (history_records a k fs rb) = q"
proof -
  obtain d where d: "0 < d" and ch: "fill_chain (ba_broker_order_id k) q d 0 (ba_broker_acknowledged_at k) fs"
    using h unfolding paper_history_def by blast
  have "max_default (List.map_filter cumulative_of (history_records a k fs rb)) = Some q"
    unfolding max_default_Some_iff map_filter_set
  proof (intro conjI ballI)
    show "q \<in> {y. \<exists>x\<in>set (history_records a k fs rb). cumulative_of x = Some y}"
      using h by (auto simp: history_records_def paper_history_def)
    show "x \<le> q" if "x \<in> {y. \<exists>x\<in>set (history_records a k fs rb). cumulative_of x = Some y}" for x
      using that fill_chain_members [OF ch _ d] h by (fastforce simp: history_records_def paper_history_def)
  qed
  then show ?thesis by (simp add: derive_observed_cumulative_def)
qed

lemma no_conflict:
  "\<forall>x \<in> set xs. f x = c \<Longrightarrow>
   \<not> snd (case xs of [] \<Rightarrow> (None, False) | r # later \<Rightarrow> (f r, \<not> list_all (\<lambda>r'. f r' = f r) later))"
  by (cases xs) (auto simp: list_all_iff)

lemma history_broker_order:
  assumes h: "paper_history q a k fs rb"
  shows "\<not> snd (derive_broker_order_id canon (history_records a k fs rb))"
proof -
  obtain d where d: "0 < d" and ch: "fill_chain (ba_broker_order_id k) q d 0 (ba_broker_acknowledged_at k) fs"
    using h unfolding paper_history_def by blast
  let ?xs = "filter (\<lambda>r. broker_order_of r \<noteq> None) (broker_facts (history_records a k fs rb))"
  have "broker_order_of x = Some (ba_broker_order_id k)" if "x \<in> set ?xs" for x
    using that fill_chain_members [OF ch _ d] h by (auto simp: history_facts(1) [OF h] paper_history_def)
  then have same: "\<forall>x \<in> set (sort_key (event_sort_key canon) ?xs). broker_order_of x = Some (ba_broker_order_id k)"
    by (simp only: set_sort) blast
  show ?thesis unfolding derive_broker_order_id_def by (rule no_conflict [OF same])
qed

lemma history_regression:
  assumes h: "paper_history q a k fs rb"
  shows "\<not> has_fill_cumulative_regression (history_records a k fs rb)"
proof
  assume "has_fill_cumulative_regression (history_records a k fs rb)"
  then obtain e x l where e: "e \<in> set (history_records a k fs rb)" "cumulative_of e = Some x"
      "l \<in> set (fill_records fs)" "primary_time e < xf_exchange_event_at l" "xf_cumulative_quantity l < x"
    by (auto simp: has_fill_cumulative_regression_def list_ex_iff history_facts(2) [OF h] split: option.splits)
  obtain d where d: "0 < d" and ch: "fill_chain (ba_broker_order_id k) q d 0 (ba_broker_acknowledged_at k) fs"
    using h unfolding paper_history_def by blast
  obtain f where f: "f \<in> set fs" "primary_time f = xf_exchange_event_at l"
  proof -
    obtain f where f: "f \<in> set fs" "the_fill f = Some l"
      using e(3) unfolding fill_records_def map_filter_set by blast
    from f(2) have "primary_time f = xf_exchange_event_at l" by (cases f) simp_all
    with f(1) show thesis by (rule that)
  qed
  have "primary_time f < rb_broker_snapshot_at rb"
    using fill_chain_times [OF ch d] f(1) h unfolding paper_history_def by fastforce
  then have "e \<in> set fs" using e(1,2,4) f(2) by (auto simp: history_records_def)
  from fill_chain_monotone [OF ch d this e(3,4,2)] e(5) show False by simp
qed

lemma history_projection:
  fixes canon :: "stored_record \<Rightarrow> string"
  assumes h: "paper_history q a k fs rb" and q: "oi_quantity i = q"
  defines "L \<equiv> project_records canon i (history_records a k fs rb)"
  shows "lc_reasons L = {} \<and> lc_state L = FILLED \<and> lc_filled_quantity L = q
    \<and> lc_fill_intervals L = [(0, q)] \<and> lc_confirmed_total L = Some q"
proof -
  let ?rs = "history_records a k fs rb"
  obtain d where d: "0 < d" and ch: "fill_chain (ba_broker_order_id k) q d 0 (ba_broker_acknowledged_at k) fs"
    using h unfolding paper_history_def by blast
  note auth = history_authority [OF h q, of canon] and fold = history_fact_fold [OF h, of canon]
  have iv: "derive_fill_intervals ?rs = ([(0, q)], False)"
    using fill_chain_intervals [OF ch] unfolding derive_fill_intervals_def history_facts(2) [OF h] .
  have retry: "\<not> has_retry_after_local_knowledge canon ?rs"
    by (simp add: has_retry_after_local_knowledge_def submits_in_order_def history_facts(3) [OF h] Let_def)
  have over: "\<not> has_overlapping_replace_intents canon ?rs"
    by (simp add: has_overlapping_replace_intents_def replaces_in_order_def history_facts(5) [OF h] List.map_filter_def)
  have basis: "\<not> has_invalid_replace_basis canon i ?rs"
    by (simp add: has_invalid_replace_basis_def history_facts(6) [OF h])
  have kinds: "\<not> list_ex (kind_mismatch q) ?rs"
    using fill_chain_members [OF ch _ d] by (auto simp: list_ex_iff history_records_def)
  have sub: "list_ex is_submit ?rs" by (simp add: history_records_def)
  have reasons: "lc_reasons L = {}"
    unfolding L_def lc_reasons_project derive_reconciliation_reasons_def
    using retry over basis kinds sub history_broker_order [OF h, of canon] history_regression [OF h]
    by (simp add: auth iv fold history_observed [OF h] reason_if_def covers_through_def)
  then have "lc_state L = FILLED"
    unfolding L_def lc_state_project by (simp add: fold effective_state_def effective_uncertain_def terminal_state_def)
  then show ?thesis using reasons by (simp add: L_def auth iv history_observed [OF h])
qed


subsection \<open>The records the broker emits\<close>

lemma paper_fill_id_inj: "paper_fill_id i m = paper_fill_id i n \<Longrightarrow> m = n"
  unfolding paper_fill_id_def by (metis append_same_eq digits_value_zero_padded same_append_eq)

text \<open>Every record of the broker takes its source sequence and broker sequence from its id.\<close>

definition paper_made :: "order_intent \<Rightarrow> exec_record \<Rightarrow> bool" where
  "paper_made i x \<longleftrightarrow> is_broker_fact x \<and> exec_intent_id x = oi_intent_id i
     \<and> exec_source_key x = (adapter, exec_record_id x) \<and> broker_sequence (Exec x) = Some (exec_record_id x)
     \<and> take 6 (exec_record_id x) = ''paper-''"

lemma paper_fills_loop_made:
  "paper_fills_loop b slot c t clips = Inr fs \<Longrightarrow>
   (\<forall>f \<in> set fs. paper_made (pb_intent b) f)
   \<and> map exec_record_id fs = map (paper_fill_id (pb_intent b)) [slot ..< slot + length clips]"
proof (induction b slot c t clips arbitrary: fs rule: paper_fills_loop.induct)
  case (2 b slot c t clip clips)
  let ?r = "paper_fill b slot clip (c + clip) t"
  have r: "paper_made (pb_intent b) (Complete ?r)" "paper_made (pb_intent b) (Partial ?r)"
      "xf_record_id ?r = paper_fill_id (pb_intent b) slot"
    by (simp_all add: paper_made_def paper_fill_def paper_fill_id_def Let_def)
  from 2(2) obtain fs' where fs: "paper_fills_loop b (Suc slot) (c + clip)
        (shift_instant t (pl_fill_spacing_seconds (pb_lag b))) clips = Inr fs'"
      "fill_record_ok ?r" "fs = (if c + clip = oi_quantity (pb_intent b) then Complete ?r else Partial ?r) # fs'"
    by (auto simp: Let_def split: if_splits sum.splits)
  have "[slot ..< slot + length (clip # clips)] = slot # [Suc slot ..< Suc slot + length clips]"
    by (simp add: upt_rec)
  with 2(1) [OF refl refl refl _ fs(1)] fs(2,3) r show ?case by auto
qed simp

lemma paper_fills_loop_chain:
  "paper_fills_loop b slot c t clips = Inr fs \<Longrightarrow> sum_list clips = oi_quantity (pb_intent b) - c \<Longrightarrow>
   \<forall>x \<in> set clips. 0 < x \<Longrightarrow> clips \<noteq> [] \<Longrightarrow>
   fill_chain (paper_order_id (pb_intent b)) (oi_quantity (pb_intent b))
     (pl_fill_spacing_seconds (pb_lag b) * second) c t fs"
proof (induction b slot c t clips arbitrary: fs rule: paper_fills_loop.induct)
  case (2 b slot c t clip clips)
  let ?r = "paper_fill b slot clip (c + clip) t" and ?q = "oi_quantity (pb_intent b)"
  from 2(2) obtain fs' where fs: "paper_fills_loop b (Suc slot) (c + clip)
        (shift_instant t (pl_fill_spacing_seconds (pb_lag b))) clips = Inr fs'"
      "fill_record_ok ?r" "fs = (if c + clip = ?q then Complete ?r else Partial ?r) # fs'"
    by (auto simp: Let_def split: if_splits sum.splits)
  show ?case
  proof (cases clips)
    case Nil
    with fs 2(3,4) show ?thesis by (auto simp: paper_fill_def Let_def)
  next
    case (Cons x xs)
    have sum: "sum_list clips = ?q - (c + clip)" and pos: "\<forall>x \<in> set clips. 0 < x" "0 < clip"
      using 2(3,4) by simp_all
    have IH: "fill_chain (paper_order_id (pb_intent b)) ?q (pl_fill_spacing_seconds (pb_lag b) * second)
        (c + clip) (t + pl_fill_spacing_seconds (pb_lag b) * second) fs'"
      using 2(1) [OF refl refl refl _ fs(1) sum pos(1)] fs(2) Cons by (simp add: shift_instant_def)
    then have lt: "c + clip < ?q" by (rule fill_chain_less)
    obtain g gs where "fs' = g # gs" using IH by (cases fs') auto
    with IH fs(3) lt pos(2) show ?thesis by (simp add: paper_fill_def Let_def)
  qed
qed simp

subsection \<open>Accepting a delivery\<close>

lemma apply_broker_fact:
  assumes "is_broker_fact x" and "exec_intent_id x = oi_intent_id (lc_intent L)"
    and "\<forall>s \<in> set (stored_records L). \<not> same_identity s (Exec x)"
    and "oi_intent_created_at (lc_intent L) \<le> primary_time x"
    and "filter is_submit (lc_records L) = [Submit a]" and "sa_send_attempt_at a \<le> primary_time x"
  shows "lifecycle_apply canon L x = Inr (with_record canon L x)"
proof -
  have "lc_dispatch canon L x = Inr (with_record canon L x)"
    using assms(1,5,6)
    by (cases x) (simp_all add: lc_apply_fact_def require_after_first_submit_def first_submit_at_def)
  moreover have "check_identity canon x (stored_records L) = Inr False"
    using assms(3) by (simp add: check_identity_fresh_iff)
  ultimately show ?thesis using assms(2,4) by (simp add: lifecycle_apply_def)
qed

lemma run_broker_facts:
  assumes "\<forall>x \<in> set xs. is_broker_fact x \<and> exec_intent_id x = oi_intent_id i
      \<and> oi_intent_created_at i \<le> primary_time x \<and> sa_send_attempt_at a \<le> primary_time x"
    and "identities_apart (Intent i # map Exec (rs @ xs))" and "filter is_submit rs = [Submit a]"
  shows "lifecycle_run canon (project_records canon i rs) xs = Inr (project_records canon i (rs @ xs))"
  using assms
proof (induction xs arbitrary: rs)
  case (Cons x xs)
  have fresh: "\<forall>s \<in> set (Intent i # map Exec rs). \<not> same_identity s (Exec x)"
    using Cons.prems(2) by (auto simp: identities_apart_def sorted_wrt_append)
  have "lifecycle_apply canon (project_records canon i rs) x = Inr (with_record canon (project_records canon i rs) x)"
    by (rule apply_broker_fact [where a = a])
      (use Cons.prems fresh in \<open>simp_all add: stored_records_def\<close>)
  then have step: "lifecycle_apply canon (project_records canon i rs) x = Inr (project_records canon i (rs @ [x]))"
    by (simp add: with_record_def)
  have "\<not> is_submit x" using Cons.prems(1) by (cases x) auto
  then have "lifecycle_run canon (project_records canon i (rs @ [x])) xs = Inr (project_records canon i ((rs @ [x]) @ xs))"
    using Cons.prems by (intro Cons.IH) simp_all
  with step show ?case by simp
qed simp

lemma run_submit_first:
  assumes "sa_intent_id a = oi_intent_id i" and "oi_intent_created_at i \<le> sa_send_attempt_at a"
    and "\<not> same_identity (Intent i) (Exec (Submit a))"
  shows "lifecycle_apply canon (lifecycle_start i) (Submit a) = Inr (project_records canon i [Submit a])"
proof -
  have "check_identity canon (Submit a) [Intent i] = Inr False"
    using assms(3) by (simp add: check_identity_fresh_iff del: check_identity.simps)
  then show ?thesis using assms(1,2)
    by (simp add: lifecycle_apply_def stored_records_def lifecycle_start_def lc_apply_submit_def broker_facts_def
        Let_def del: check_identity.simps)
qed


lemma paper_made_apart:
  assumes "\<forall>x \<in> set xs. paper_made i x" and "distinct (map exec_record_id xs)"
  shows "identities_apart (map Exec xs)"
proof -
  have "distinct xs" using assms(2) by (simp add: distinct_map)
  have "\<not> same_identity (Exec x) (Exec y)" if "x \<in> set xs" "y \<in> set xs" "x \<noteq> y" for x y
  proof -
    have "exec_record_id x \<noteq> exec_record_id y" using assms(2) that by (auto simp: distinct_map dest: inj_onD)
    then show ?thesis using assms(1) that(1,2) by (auto simp: same_identity_def paper_made_def)
  qed
  then show ?thesis using \<open>distinct xs\<close> unfolding identities_apart_def sorted_wrt_map
    by (induction xs) auto
qed

lemma foreign_apart:
  assumes "paper_made i x" and "take 6 (stored_id s) \<noteq> ''paper-''" and "fst (stored_source_key s) \<noteq> adapter"
  shows "\<not> same_identity s (Exec x)"
  using assms by (auto simp: same_identity_def paper_made_def)

lemma paper_facts_parts:
  assumes "paper_broker_facts \<lparr>pb_intent = i, pb_quote = quote, pb_plan = plan, pb_lag = lag, pb_anchor = None\<rparr> a
      = Some (Inr (b', facts))"
    and plan: "make_fill_plan fractions = Inr plan" and lag: "make_lag off rec spacing = Inr lag"
    and "1 \<le> oi_quantity i"
  obtains k fs rb where "facts = Ack k # fs @ [Readback rb]" and "paper_history (oi_quantity i) a k fs rb"
    and "\<forall>x \<in> set facts. paper_made i x" and "distinct (map exec_record_id facts)"
proof -
  let ?b = "\<lparr>pb_intent = i, pb_quote = quote, pb_plan = plan, pb_lag = lag, pb_anchor = Some a\<rparr>"
  let ?k = "paper_acknowledgement ?b a" and ?t = "shift_instant (sa_send_attempt_at a) off"
  have lag': "lag = \<lparr>pl_broker_offset_seconds = off, pl_receipt_offset_seconds = rec, pl_fill_spacing_seconds = spacing\<rparr>"
      "0 \<le> off" "1 \<le> spacing"
    using lag by (auto simp: make_lag_def split: if_splits)
  have "plan \<noteq> []" "\<forall>x \<in> set plan. 1 \<le> x"
    using plan by (auto simp: make_fill_plan_def Let_def list_ex_iff split: if_splits)
  then obtain clips where clips: "plan_clips plan (oi_quantity i) = Some clips"
      and cov: "covers_in_clips plan 0 (oi_quantity i) clips"
    using clips_loop_covers [of plan "oi_quantity i" "[]" 0] assms(4) by (auto simp: plan_clips_def)
  have pos: "sum_list clips = oi_quantity i" "\<forall>c \<in> set clips. 0 < c" "clips \<noteq> []"
    using covers_in_clips_sum [OF cov] cov assms(4) by auto
  obtain fs rb where f: "facts = Ack ?k # fs @ [Readback rb]" "paper_fills_loop ?b 1 0 ?t clips = Inr fs"
      "rb = paper_readback ?b (shift_instant (primary_time (last fs)) spacing)"
    using assms(1) clips
    by (auto simp: paper_broker_facts_def acknowledge_def paper_fills_def paper_readbacks_def Let_def lag'(1)
        split: if_splits option.splits sum.splits)
  have ch: "fill_chain (paper_order_id i) (oi_quantity i) (spacing * second) 0 ?t fs"
    using paper_fills_loop_chain [OF f(2)] pos by (simp add: lag'(1))
  have "paper_history (oi_quantity i) a ?k fs rb"
    unfolding paper_history_def
    using ch lag'(2,3) f(3)
    by (auto simp: paper_acknowledgement_def paper_readback_def shift_instant_def second_def lag'(1) Let_def
        intro!: exI [of _ "spacing * second"])
  moreover note made = paper_fills_loop_made [OF f(2)]
  moreover have "paper_made i (Ack ?k)" "paper_made i (Readback rb)"
    by (simp_all add: paper_made_def paper_acknowledgement_def paper_ack_id_def f(3) paper_readback_def
        paper_readback_id_def Let_def)
  moreover have "distinct (map exec_record_id facts)"
  proof -
    have "distinct (map (paper_fill_id i) [1 ..< 1 + length clips])"
      using paper_fill_id_inj by (auto simp: distinct_map inj_on_def)
    then have "distinct (map exec_record_id fs)" using made by simp
    moreover have "set (map exec_record_id fs) \<subseteq> range (paper_fill_id i)" using made by auto
    ultimately show ?thesis
      by (auto simp: f(1) f(3) paper_acknowledgement_def paper_readback_def paper_ack_id_def paper_fill_id_def
          paper_readback_id_def Let_def)
  qed
  ultimately show thesis using f(1) by (intro that [of ?k fs rb]) auto
qed

text \<open>Claim C3. The paper broker and the lifecycle agree: whatever the quote, plan and clock offsets,
  and whatever the canonical bytes are, the facts the broker emits for a submit attempt are all
  accepted after it and bring the lifecycle to \<open>FILLED\<close> for exactly the intended quantity without a
  single reconciliation reason, and the evidence gate admits the result. The runner's own records
  must not pose as the adapter's.\<close>

theorem paper_run_fills:
  assumes "make_fill_plan fractions = Inr plan" and "make_lag off rec spacing = Inr lag"
    and "paper_broker_facts \<lparr>pb_intent = i, pb_quote = quote, pb_plan = plan, pb_lag = lag, pb_anchor = None\<rparr> a
      = Some (Inr (b', facts))"
    and "intent_ok i" and "sa_intent_id a = oi_intent_id i"
    and "oi_intent_created_at i \<le> sa_send_attempt_at a"
    and "\<not> same_identity (Intent i) (Exec (Submit a))"
    and "oi_source i \<noteq> adapter" and "sa_source a \<noteq> adapter"
    and "take 6 (oi_intent_id i) \<noteq> ''paper-''" and "take 6 (sa_record_id a) \<noteq> ''paper-''"
  shows "\<exists>L. lifecycle_run canon (lifecycle_start i) (Submit a # facts) = Inr L
    \<and> lc_state L = FILLED \<and> lc_reasons L = {} \<and> lc_filled_quantity L = oi_quantity i
    \<and> er_verdict (assess_evidence L) = ADMISSIBLE"
proof -
  have q: "1 \<le> oi_quantity i" using assms(4) by (simp add: intent_ok_def)
  obtain k fs rb where f: "facts = Ack k # fs @ [Readback rb]" and h: "paper_history (oi_quantity i) a k fs rb"
      and made: "\<forall>x \<in> set facts. paper_made i x" and dist: "distinct (map exec_record_id facts)"
    by (rule paper_facts_parts [OF assms(3,1,2) q])
  have rs: "Submit a # facts = history_records a k fs rb" by (simp add: history_records_def f)
  have foreign: "\<not> same_identity (Intent i) (Exec x) \<and> \<not> same_identity (Exec (Submit a)) (Exec x)"
    if "x \<in> set facts" for x
    using foreign_apart [of i x "Intent i"] foreign_apart [of i x "Exec (Submit a)"] made that assms(8-11) by simp
  have apart: "identities_apart (Intent i # map Exec ([Submit a] @ facts))"
    using paper_made_apart [OF made dist] foreign assms(7) by (auto simp: identities_apart_def)
  obtain d where "0 < d" and ch: "fill_chain (ba_broker_order_id k) (oi_quantity i) d 0 (ba_broker_acknowledged_at k) fs"
    using h unfolding paper_history_def by blast
  note times = fill_chain_times [OF ch this(1)]
  have "fs \<noteq> []" using ch by auto
  then have rbt: "ba_broker_acknowledged_at k < rb_broker_snapshot_at rb"
    using times h unfolding paper_history_def by (metis last_in_set order_le_less_trans)
  have late: "sa_send_attempt_at a \<le> primary_time x" if "x \<in> set facts" for x
    using that h times rbt unfolding f paper_history_def by fastforce
  have "lifecycle_run canon (project_records canon i [Submit a]) facts = Inr (project_records canon i ([Submit a] @ facts))"
    by (rule run_broker_facts [where a = a])
      (use made late assms(6) apart in \<open>auto simp: paper_made_def intro: order_trans\<close>)
  then have run: "lifecycle_run canon (lifecycle_start i) (Submit a # facts)
      = Inr (project_records canon i (history_records a k fs rb))"
    using run_submit_first [OF assms(5-7), of canon] by (simp add: rs [symmetric])
  let ?L = "project_records canon i (history_records a k fs rb)"
  note L = history_projection [OF h refl, of canon]
  have "evidence_blockers ?L = []"
    unfolding evidence_blockers_Nil using L
    by (simp add: terminal_state_def economics_complete_def expected_terminal_total_def)
  then show ?thesis using run L by (simp add: assess_parts)
qed

definition sample_quote :: paper_quote where
  "sample_quote = \<lparr>pq_bid = 2 / 10 ^ 8, pq_ask = 4 / 10 ^ 8, pq_fee_per_contract =
     \<lparr>ed_negative = False, ed_coefficient = 65, ed_exponent = -2\<rparr>\<rparr>"

definition sample_attempt :: submit_attempt where
  "sample_attempt = \<lparr>sa_record_id = ''s1'', sa_intent_id = ''i1'', sa_send_attempt_at = 10,
     sa_source = ''runner'', sa_source_sequence_id = ''1''\<rparr>"

definition sample_broker :: paper_broker where
  "sample_broker = \<lparr>pb_intent = sample_intent, pb_quote = sample_quote, pb_plan = [1, 2],
     pb_lag = \<lparr>pl_broker_offset_seconds = 0, pl_receipt_offset_seconds = 1, pl_fill_spacing_seconds = 1\<rparr>,
     pb_anchor = None\<rparr>"

lemma paper_run_fills_witness:
  "\<exists>L. reached stored_id sample_intent L \<and> lc_state L = FILLED \<and> lc_filled_quantity L = 4"
proof -
  have "case paper_broker_facts sample_broker sample_attempt of Some (Inr _) \<Rightarrow> True | _ \<Rightarrow> False" by code_simp
  then obtain b' facts where facts: "paper_broker_facts sample_broker sample_attempt = Some (Inr (b', facts))"
    by (auto split: option.splits sum.splits)
  have plan: "make_fill_plan [1, 2] = Inr [1, 2]" and lag: "make_lag 0 1 1 =
      Inr \<lparr>pl_broker_offset_seconds = 0, pl_receipt_offset_seconds = 1, pl_fill_spacing_seconds = 1\<rparr>"
    and ok: "intent_ok sample_intent" by code_simp+
  note run = paper_run_fills [OF plan lag facts [unfolded sample_broker_def] ok, where canon = stored_id]
  have "\<exists>L. lifecycle_run stored_id (lifecycle_start sample_intent) (Submit sample_attempt # facts) = Inr L
      \<and> lc_state L = FILLED \<and> lc_reasons L = {} \<and> lc_filled_quantity L = oi_quantity sample_intent
      \<and> er_verdict (assess_evidence L) = ADMISSIBLE"
    by (rule run) (simp_all add: sample_intent_def sample_attempt_def adapter_def same_identity_def)
  then obtain L where "lifecycle_run stored_id (lifecycle_start sample_intent) (Submit sample_attempt # facts) = Inr L"
      "lc_state L = FILLED" "lc_filled_quantity L = oi_quantity sample_intent" by blast
  then have "reached stored_id sample_intent L" "lc_state L = FILLED" "lc_filled_quantity L = 4"
    using reached_run [OF reached_start] by (blast, blast, simp add: sample_intent_def)
  then show ?thesis by blast
qed

subsection \<open>The executable price\<close>

text \<open>On the eight-place grid the midpoint stays inside the quote.\<close>

lemma half_up_value:
  "0 \<le> x \<Longrightarrow> decimal_value (round_half_up_eight x) = of_int \<lfloor>x * 10 ^ 8 + 1 / 2\<rfloor> / 10 ^ 8"
proof -
  assume "0 \<le> x"
  then have "0 \<le> \<lfloor>x * 10 ^ 8 + 1 / 2\<rfloor>" by (simp add: le_floor_iff)
  then show ?thesis by (simp add: decimal_value_def round_half_up_eight_def of_nat_nat)
qed

lemma price_in_bracket:
  assumes "make_paper_quote bid ask fee = Inr quote" and "eight_places bid" and "eight_places ask"
  shows "bid \<le> decimal_value (paper_executable_price quote) \<and> decimal_value (paper_executable_price quote) \<le> ask"
proof -
  have q: "pq_bid quote = bid" "pq_ask quote = ask" "0 < bid" "bid \<le> ask"
    using assms(1) by (auto simp: make_paper_quote_def split: if_splits)
  let ?x = "(bid + ask) / 2 * 10 ^ 8 + 1 / 2"
  have b: "of_int \<lfloor>bid * 10 ^ 8\<rfloor> = bid * 10 ^ 8" and a: "of_int \<lfloor>ask * 10 ^ 8\<rfloor> = ask * 10 ^ 8"
    using assms(2,3) by (auto simp: eight_places_def)
  have "bid * 10 ^ 8 \<le> ask * 10 ^ 8" using q(4) by simp
  moreover have "?x = (bid * 10 ^ 8 + ask * 10 ^ 8) / 2 + 1 / 2" by (simp add: field_simps)
  moreover have "u \<le> v \<Longrightarrow> u \<le> (u + v) / 2 + 1 / 2 \<and> (u + v) / 2 + 1 / 2 < v + 1" for u v :: rat
    by (simp add: field_simps)
  ultimately have lo: "bid * 10 ^ 8 \<le> ?x" and hi: "?x < ask * 10 ^ 8 + 1" by (metis, metis)
  have "\<lfloor>bid * 10 ^ 8\<rfloor> \<le> \<lfloor>?x\<rfloor>" by (rule floor_mono [OF lo])
  moreover have "\<lfloor>?x\<rfloor> \<le> \<lfloor>ask * 10 ^ 8\<rfloor>" unfolding floor_le_iff a by (rule hi)
  ultimately have "bid * 10 ^ 8 \<le> of_int \<lfloor>?x\<rfloor>" "of_int \<lfloor>?x\<rfloor> \<le> ask * 10 ^ 8"
    using a b by (metis of_int_le_iff)+
  moreover have "decimal_value (paper_executable_price quote) = of_int \<lfloor>?x\<rfloor> / 10 ^ 8"
    using half_up_value [of "(bid + ask) / 2"] q by (simp add: paper_executable_price_def)
  ultimately show ?thesis by (simp add: le_divide_eq divide_le_eq)
qed

text \<open>Off the grid the documented bracket fails: a quote of 1.000000001 on both sides executes
  below its bid.\<close>

lemma price_below_bid:
  "decimal_value (paper_executable_price \<lparr>pq_bid = 1 + 1 / 10 ^ 9, pq_ask = 1 + 1 / 10 ^ 9,
     pq_fee_per_contract = sample_price\<rparr>) < 1 + 1 / 10 ^ 9"
proof -
  have "\<lfloor>(1 + 1 / 10 ^ 9 :: rat) * 10 ^ 8 + 1 / 2\<rfloor> = 10 ^ 8" by (simp add: floor_eq_iff)
  then show ?thesis
    using half_up_value [of "1 + 1 / 10 ^ 9"] by (simp add: paper_executable_price_def)
qed

end
