(* ===== verification/Candidates.thy ===== *)
theory Candidates
  imports Options Calendar
begin

text \<open>
  The tri-state candidate filter of \<open>candidates/filters.py\<close> with the two protocol factories and the
  version gate of \<open>protocol/schema.py\<close>. A candidate's time-varying inputs are \<open>as_of\<close> values; a
  timestamp is \<open>Aware\<close> or \<open>Naive\<close>. The texts of the audit rows are the constructors of \<open>detail\<close>,
  which carry the values the text shows; the rows, their order and their statuses are the code's.
\<close>

subsection \<open>Inputs\<close>

datatype stamp = Aware instant | Naive instant

fun tz_aware :: "stamp \<Rightarrow> bool" where
  "tz_aware (Aware _) = True"
| "tz_aware (Naive _) = False"

record 'a as_of =
  ao_value :: 'a
  ao_available_at :: stamp
  ao_provenance :: string

text \<open>Python compares two aware instants; the filter never compares a naive one.\<close>

fun available_by :: "stamp \<Rightarrow> stamp \<Rightarrow> bool" where
  "available_by (Aware t) (Aware d) \<longleftrightarrow> t \<le> d"
| "available_by (Naive t) (Naive d) \<longleftrightarrow> t \<le> d"
| "available_by _ _ \<longleftrightarrow> False"

record candidate_snapshot =
  cs_contract :: option_contract
  cs_underlying_security_id :: ident
  cs_decision_session :: date
  cs_decision_at :: stamp
  cs_expiration :: date
  cs_abs_delta :: "decimal as_of option"
  cs_open_interest :: "int as_of option"
  cs_same_day_volume :: "int as_of option"
  cs_same_day_volume_applicable :: bool
  cs_bid :: "decimal as_of option"
  cs_ask :: "decimal as_of option"
  cs_dollar_volume :: "decimal as_of option"
  cs_spans_earnings :: "bool as_of option"

datatype rule_status = PASS | FAIL | NOT_EVALUABLE | NOT_APPLICABLE

datatype rule_name =
  Decision_coherence | Contract_coherence | Dte | Delta | Deliverable | Open_interest
  | Session_volume_flow | Same_day_volume | Spread | Underlying_liquidity | Earnings_span

datatype detail =
  NaiveDecision | SessionNotInCalendar date | NotSessionClose stamp instant | DisagreesWithContract ident
  | DecisionIncoherent | DteIs int | DteOutside int int int | Missing | NaiveTimestamp
  | ProvenanceRefused string "string list" | FutureAvailable | OutOfBand decimal | InBand string
  | FilterDisabled | StandardDeliverable | NonstandardDeliverable ident | RegimeIncoherent
  | DroppedWithDisclosure | BelowMin | AboveMin | BelowFlowMin int | AtFlowMin int | NotYetPublished
  | Crossed decimal decimal | BadMidpoint decimal | SpreadIs decimal | SpreadExceeds decimal
  | DisclosedAbsence | EarningsSpan | NoEarnings

record rule_result =
  ru_rule :: rule_name
  ru_status :: rule_status
  ru_detail :: detail

record candidate_decision =
  cd_contract_id :: ident
  cd_accepted :: bool
  cd_results :: "rule_result list"

definition result :: "rule_name \<Rightarrow> rule_status \<Rightarrow> detail \<Rightarrow> rule_result" where
  "result r s d = \<lparr>ru_rule = r, ru_status = s, ru_detail = d\<rparr>"

definition blocks :: "rule_result \<Rightarrow> bool" where
  "blocks r \<longleftrightarrow> ru_status r = FAIL \<or> ru_status r = NOT_EVALUABLE"

definition failed_rules :: "candidate_decision \<Rightarrow> rule_result list" where
  "failed_rules d = filter blocks (cd_results d)"

subsection \<open>The filter and its construction\<close>

record candidate_filter =
  cf_calendar :: calendar
  cf_dte_min :: int
  cf_dte_max :: int
  cf_abs_delta_min :: decimal
  cf_abs_delta_max :: decimal
  cf_standard_deliverable_only :: bool
  cf_min_open_interest :: int
  cf_min_same_day_volume :: int
  cf_volume_only_if_already_available :: bool
  cf_max_spread_fraction :: decimal
  cf_min_dollar_volume :: decimal
  cf_exclude_earnings :: bool
  cf_liquidity_regime :: string
  cf_flow_min_session_volume :: "int option"
  cf_underlying_liquidity_term :: string
  cf_accepted_delta_provenance :: "string list"
  cf_earnings_disclosed_absence :: bool

datatype filter_error = UnknownRegime | FlowThresholdMissing | UnknownLiquidityTerm | NotRatified

definition make_candidate_filter :: "candidate_filter \<Rightarrow> filter_error + candidate_filter" where
  "make_candidate_filter f =
     (if cf_liquidity_regime f \<notin> {''two_sided'', ''volume_flow''} then Inl UnknownRegime
      else if cf_liquidity_regime f = ''volume_flow''
         \<and> (case cf_flow_min_session_volume f of None \<Rightarrow> True | Some n \<Rightarrow> n < 1)
      then Inl FlowThresholdMissing
      else if cf_underlying_liquidity_term f \<notin> {''evaluated'', ''dropped_no_equity_aggregates''}
      then Inl UnknownLiquidityTerm
      else Inr f)"

text \<open>The part of the protocol the factories read.\<close>

record liquidity_flow =
  lf_flow_min_session_volume :: "int option"
  lf_underlying_liquidity_term :: string
  lf_abs_delta_provenance_accepted :: "string list"

record candidate_defaults =
  dd_dte_min :: int
  dd_dte_max :: int
  dd_abs_delta_min :: decimal
  dd_abs_delta_max :: decimal
  dd_standard_deliverable_only :: bool
  dd_min_open_interest :: int
  dd_min_same_day_volume :: int
  dd_volume_only_if_already_available :: bool
  dd_max_spread_fraction :: decimal
  dd_min_dollar_volume :: decimal
  dd_exclude_earnings :: bool
  dd_earnings_evaluation :: string
  dd_liquidity_volume_flow :: "liquidity_flow option"

text \<open>A component of a version: the schema pins decimal digits, so \<open>int(p)\<close> reads a numeral.\<close>

definition version_part :: "string \<Rightarrow> nat option" where
  "version_part s =
     (if s \<noteq> [] \<and> list_all (\<lambda>c. 48 \<le> (of_char c :: nat) \<and> (of_char c :: nat) \<le> 57) s
      then Some (digits_value s) else None)"

fun split_dots :: "string \<Rightarrow> string \<Rightarrow> string list" where
  "split_dots part [] = [part]"
| "split_dots part (c # cs) =
     (if c = CHR ''.'' then part # split_dots [] cs else split_dots (part @ [c]) cs)"

definition protocol_version_at_least :: "string \<Rightarrow> nat \<Rightarrow> nat \<Rightarrow> nat \<Rightarrow> bool" where
  "protocol_version_at_least version major minor patch =
     (case map version_part (split_dots [] version) of
        [Some a, Some b, Some c] \<Rightarrow> (major, minor, patch) \<le> (a, b, c)
      | _ \<Rightarrow> False)"

definition disclosed_absence_declared :: "string \<Rightarrow> candidate_defaults \<Rightarrow> bool" where
  "disclosed_absence_declared version d \<longleftrightarrow>
     dd_earnings_evaluation d = ''disclosed_absence'' \<and> protocol_version_at_least version 0 2 2"

definition filter_of_defaults :: "calendar \<Rightarrow> string \<Rightarrow> candidate_defaults \<Rightarrow> candidate_filter" where
  "filter_of_defaults cal version d =
     \<lparr>cf_calendar = cal, cf_dte_min = dd_dte_min d, cf_dte_max = dd_dte_max d,
      cf_abs_delta_min = dd_abs_delta_min d, cf_abs_delta_max = dd_abs_delta_max d,
      cf_standard_deliverable_only = dd_standard_deliverable_only d,
      cf_min_open_interest = dd_min_open_interest d,
      cf_min_same_day_volume = dd_min_same_day_volume d,
      cf_volume_only_if_already_available = dd_volume_only_if_already_available d,
      cf_max_spread_fraction = dd_max_spread_fraction d,
      cf_min_dollar_volume = dd_min_dollar_volume d, cf_exclude_earnings = dd_exclude_earnings d,
      cf_liquidity_regime = ''two_sided'', cf_flow_min_session_volume = None,
      cf_underlying_liquidity_term = ''evaluated'', cf_accepted_delta_provenance = [''vendor''],
      cf_earnings_disclosed_absence = disclosed_absence_declared version d\<rparr>"

definition filter_from_protocol ::
  "calendar \<Rightarrow> string \<Rightarrow> candidate_defaults \<Rightarrow> filter_error + candidate_filter" where
  "filter_from_protocol cal version d = make_candidate_filter (filter_of_defaults cal version d)"

definition filter_from_protocol_volume_flow ::
  "calendar \<Rightarrow> string \<Rightarrow> candidate_defaults \<Rightarrow> int option \<Rightarrow> filter_error + candidate_filter" where
  "filter_from_protocol_volume_flow cal version d override =
     (case dd_liquidity_volume_flow d of
        None \<Rightarrow> Inl NotRatified
      | Some lf \<Rightarrow>
          (case filter_from_protocol cal version d of
             Inl e \<Rightarrow> Inl e
           | Inr base \<Rightarrow> make_candidate_filter
               (base\<lparr>cf_liquidity_regime := ''volume_flow'',
                     cf_flow_min_session_volume :=
                       (case override of None \<Rightarrow> lf_flow_min_session_volume lf | Some n \<Rightarrow> Some n),
                     cf_underlying_liquidity_term := lf_underlying_liquidity_term lf,
                     cf_accepted_delta_provenance := lf_abs_delta_provenance_accepted lf\<rparr>)))"

subsection \<open>The rules, one by one\<close>

definition flow_regime :: "candidate_filter \<Rightarrow> bool" where
  "flow_regime f \<longleftrightarrow> cf_liquidity_regime f = ''volume_flow''"

definition decision_coherence :: "candidate_filter \<Rightarrow> candidate_snapshot \<Rightarrow> rule_result list" where
  "decision_coherence f s =
     (if \<not> tz_aware (cs_decision_at s) then [result Decision_coherence NOT_EVALUABLE NaiveDecision]
      else case session_close (cf_calendar f) (cs_decision_session s) of
          Inl _ \<Rightarrow> [result Decision_coherence NOT_EVALUABLE (SessionNotInCalendar (cs_decision_session s))]
        | Inr expected_close \<Rightarrow>
            if cs_decision_at s \<noteq> Aware expected_close
            then [result Decision_coherence NOT_EVALUABLE (NotSessionClose (cs_decision_at s) expected_close)]
            else [])"

definition contract_coherence :: "candidate_snapshot \<Rightarrow> rule_result list" where
  "contract_coherence s =
     (if cs_expiration s \<noteq> oc_expiration (cs_contract s)
         \<or> cs_underlying_security_id s \<noteq> oc_underlying_security_id (cs_contract s)
      then [result Contract_coherence NOT_EVALUABLE (DisagreesWithContract (oc_contract_id (cs_contract s)))]
      else [])"

definition dte_rule :: "candidate_filter \<Rightarrow> candidate_snapshot \<Rightarrow> rule_result" where
  "dte_rule f s =
     (let dte = oc_expiration (cs_contract s) - cs_decision_session s
      in if cf_dte_min f \<le> dte \<and> dte \<le> cf_dte_max f then result Dte PASS (DteIs dte)
         else result Dte FAIL (DteOutside dte (cf_dte_min f) (cf_dte_max f)))"

definition delta_rule :: "candidate_filter \<Rightarrow> candidate_snapshot \<Rightarrow> rule_result" where
  "delta_rule f s = (case cs_abs_delta s of
      None \<Rightarrow> result Delta NOT_EVALUABLE Missing
    | Some a \<Rightarrow>
        if \<not> tz_aware (ao_available_at a) then result Delta NOT_EVALUABLE NaiveTimestamp
        else if ao_provenance a \<notin> set (cf_accepted_delta_provenance f)
        then result Delta NOT_EVALUABLE (ProvenanceRefused (ao_provenance a) (cf_accepted_delta_provenance f))
        else if \<not> available_by (ao_available_at a) (cs_decision_at s)
        then result Delta NOT_EVALUABLE FutureAvailable
        else if \<not> (cf_abs_delta_min f \<le> ao_value a \<and> ao_value a \<le> cf_abs_delta_max f)
        then result Delta FAIL (OutOfBand (ao_value a))
        else result Delta PASS (InBand (ao_provenance a)))"

definition deliverable_rule :: "candidate_filter \<Rightarrow> candidate_snapshot \<Rightarrow> rule_result" where
  "deliverable_rule f s =
     (let c = cs_contract s
      in if \<not> cf_standard_deliverable_only f then result Deliverable NOT_APPLICABLE FilterDisabled
         else if oc_standard_contract_flag c \<and> oc_corporate_action_id c = None
            \<and> ds_shares_per_contract (oc_deliverable c) = 100
         then result Deliverable PASS StandardDeliverable
         else result Deliverable FAIL (NonstandardDeliverable (oc_contract_id c)))"

text \<open>The ladder the open-interest and dollar-volume rules share: missing, naive, future, below the
  minimum, above it.\<close>

definition minimum_ladder ::
  "rule_name \<Rightarrow> stamp \<Rightarrow> 'a::linorder \<Rightarrow> 'a as_of option \<Rightarrow> rule_result" where
  "minimum_ladder r decision_at least x = (case x of
      None \<Rightarrow> result r NOT_EVALUABLE Missing
    | Some a \<Rightarrow>
        if \<not> tz_aware (ao_available_at a) then result r NOT_EVALUABLE NaiveTimestamp
        else if \<not> available_by (ao_available_at a) decision_at then result r NOT_EVALUABLE FutureAvailable
        else if ao_value a < least then result r FAIL BelowMin else result r PASS AboveMin)"

definition open_interest_rule :: "candidate_filter \<Rightarrow> candidate_snapshot \<Rightarrow> rule_result" where
  "open_interest_rule f s =
     (if flow_regime f \<and> cs_open_interest s \<noteq> None
      then result Open_interest NOT_EVALUABLE RegimeIncoherent
      else if flow_regime f then result Open_interest NOT_APPLICABLE DroppedWithDisclosure
      else minimum_ladder Open_interest (cs_decision_at s) (cf_min_open_interest f) (cs_open_interest s))"

definition volume_minimum :: "candidate_filter \<Rightarrow> int option" where
  "volume_minimum f =
     (if flow_regime f then cf_flow_min_session_volume f else Some (cf_min_same_day_volume f))"

text \<open>\<open>None\<close> is the \<open>TypeError\<close> of comparing a volume with a missing threshold, which a constructed
  filter does not raise.\<close>

definition volume_rule :: "candidate_filter \<Rightarrow> candidate_snapshot \<Rightarrow> rule_result option" where
  "volume_rule f s =
     (let r = (if flow_regime f then Session_volume_flow else Same_day_volume)
      in case cs_same_day_volume s of
          Some a \<Rightarrow>
            if \<not> tz_aware (ao_available_at a) then Some (result r NOT_EVALUABLE NaiveTimestamp)
            else if \<not> available_by (ao_available_at a) (cs_decision_at s)
            then Some (result r NOT_EVALUABLE FutureAvailable)
            else (case volume_minimum f of
                None \<Rightarrow> None
              | Some volume_min \<Rightarrow> Some
                  (if ao_value a < volume_min
                   then result r FAIL (if flow_regime f then BelowFlowMin volume_min else BelowMin)
                   else result r PASS (if flow_regime f then AtFlowMin volume_min else AboveMin)))
        | None \<Rightarrow> Some
            (if flow_regime f then result r NOT_EVALUABLE Missing
             else if cf_volume_only_if_already_available f \<and> \<not> cs_same_day_volume_applicable s
             then result r NOT_APPLICABLE NotYetPublished
             else result r NOT_EVALUABLE Missing))"

definition spread_rule :: "candidate_filter \<Rightarrow> candidate_snapshot \<Rightarrow> rule_result" where
  "spread_rule f s =
     (if flow_regime f \<and> (cs_bid s \<noteq> None \<or> cs_ask s \<noteq> None)
      then result Spread NOT_EVALUABLE RegimeIncoherent
      else if flow_regime f then result Spread NOT_APPLICABLE DroppedWithDisclosure
      else case (cs_bid s, cs_ask s) of
          (Some b, Some a) \<Rightarrow>
            if \<not> tz_aware (ao_available_at b) \<or> \<not> tz_aware (ao_available_at a)
            then result Spread NOT_EVALUABLE NaiveTimestamp
            else if \<not> available_by (ao_available_at b) (cs_decision_at s)
               \<or> \<not> available_by (ao_available_at a) (cs_decision_at s)
            then result Spread NOT_EVALUABLE FutureAvailable
            else if ao_value b > ao_value a
            then result Spread NOT_EVALUABLE (Crossed (ao_value b) (ao_value a))
            else let mid = (ao_value b + ao_value a) / 2
                 in if mid \<le> 0 then result Spread NOT_EVALUABLE (BadMidpoint mid)
                    else let fraction = (ao_value a - ao_value b) / mid
                         in if fraction > cf_max_spread_fraction f
                            then result Spread FAIL (SpreadExceeds fraction)
                            else result Spread PASS (SpreadIs fraction)
        | _ \<Rightarrow> result Spread NOT_EVALUABLE Missing)"

definition liquidity_dropped :: "candidate_filter \<Rightarrow> bool" where
  "liquidity_dropped f \<longleftrightarrow>
     flow_regime f \<and> cf_underlying_liquidity_term f = ''dropped_no_equity_aggregates''"

definition liquidity_rule :: "candidate_filter \<Rightarrow> candidate_snapshot \<Rightarrow> rule_result" where
  "liquidity_rule f s =
     (if liquidity_dropped f \<and> cs_dollar_volume s \<noteq> None
      then result Underlying_liquidity NOT_EVALUABLE RegimeIncoherent
      else if liquidity_dropped f then result Underlying_liquidity NOT_APPLICABLE DroppedWithDisclosure
      else minimum_ladder Underlying_liquidity (cs_decision_at s) (cf_min_dollar_volume f)
             (cs_dollar_volume s))"

definition earnings_rule :: "candidate_filter \<Rightarrow> candidate_snapshot \<Rightarrow> rule_result" where
  "earnings_rule f s =
     (if \<not> cf_exclude_earnings f then result Earnings_span NOT_APPLICABLE FilterDisabled
      else case cs_spans_earnings s of
          None \<Rightarrow>
            if cf_earnings_disclosed_absence f
            then result Earnings_span NOT_APPLICABLE DisclosedAbsence
            else result Earnings_span NOT_EVALUABLE Missing
        | Some a \<Rightarrow>
            if \<not> tz_aware (ao_available_at a) then result Earnings_span NOT_EVALUABLE NaiveTimestamp
            else if \<not> available_by (ao_available_at a) (cs_decision_at s)
            then result Earnings_span NOT_EVALUABLE FutureAvailable
            else if ao_value a then result Earnings_span FAIL EarningsSpan
            else result Earnings_span PASS NoEarnings)"

subsection \<open>Evaluation\<close>

definition incoherent_rules :: "candidate_filter \<Rightarrow> rule_name list" where
  "incoherent_rules f =
     [Dte, Delta, Deliverable, Open_interest,
      if flow_regime f then Session_volume_flow else Same_day_volume,
      Spread, Underlying_liquidity, Earnings_span]"

definition evaluate :: "candidate_filter \<Rightarrow> candidate_snapshot \<Rightarrow> candidate_decision option" where
  "evaluate f s =
     (let coherence = decision_coherence f s @ contract_coherence s;
          decide = (\<lambda>accepted results. \<lparr>cd_contract_id = oc_contract_id (cs_contract s),
                     cd_accepted = accepted, cd_results = results\<rparr>)
      in if coherence \<noteq> []
         then Some (decide False (coherence
                @ map (\<lambda>r. result r NOT_EVALUABLE DecisionIncoherent) (incoherent_rules f)))
         else case volume_rule f s of
             None \<Rightarrow> None
           | Some volume_result \<Rightarrow>
               let results = [dte_rule f s, delta_rule f s, deliverable_rule f s, open_interest_rule f s,
                              volume_result, spread_rule f s, liquidity_rule f s, earnings_rule f s]
               in Some (decide (\<not> list_ex blocks results) results))"

subsection \<open>No future value leaks into the audit\<close>

text \<open>A snapshot whose inputs published after its decision are overwritten.\<close>

definition hide :: "stamp \<Rightarrow> 'a \<Rightarrow> 'a as_of option \<Rightarrow> 'a as_of option" where
  "hide d junk x = map_option
     (\<lambda>a. if available_by (ao_available_at a) d then a else a\<lparr>ao_value := junk\<rparr>) x"

definition hide_future :: "decimal \<Rightarrow> int \<Rightarrow> bool \<Rightarrow> candidate_snapshot \<Rightarrow> candidate_snapshot" where
  "hide_future x n b s = s
     \<lparr>cs_abs_delta := hide (cs_decision_at s) x (cs_abs_delta s),
      cs_open_interest := hide (cs_decision_at s) n (cs_open_interest s),
      cs_same_day_volume := hide (cs_decision_at s) n (cs_same_day_volume s),
      cs_bid := hide (cs_decision_at s) x (cs_bid s), cs_ask := hide (cs_decision_at s) x (cs_ask s),
      cs_dollar_volume := hide (cs_decision_at s) x (cs_dollar_volume s),
      cs_spans_earnings := hide (cs_decision_at s) b (cs_spans_earnings s)\<rparr>"

lemma hide_None [simp]: "hide d j x = None \<longleftrightarrow> x = None"
  by (simp add: hide_def)

lemma hide_Nothing [simp]: "hide d j None = None"
  by (simp add: hide_def)

lemma hide_Some: "hide d j (Some a) = Some (if available_by (ao_available_at a) d then a else a\<lparr>ao_value := j\<rparr>)"
  by (simp add: hide_def)

lemma minimum_ladder_hide [simp]: "minimum_ladder r d m (hide d j x) = minimum_ladder r d m x"
  by (cases x) (auto simp: minimum_ladder_def hide_def)

lemma hide_future_rules:
  "delta_rule f (hide_future x n b s) = delta_rule f s"
  "open_interest_rule f (hide_future x n b s) = open_interest_rule f s"
  "volume_rule f (hide_future x n b s) = volume_rule f s"
  "liquidity_rule f (hide_future x n b s) = liquidity_rule f s"
  "earnings_rule f (hide_future x n b s) = earnings_rule f s"
proof -
  show "delta_rule f (hide_future x n b s) = delta_rule f s"
    by (cases "cs_abs_delta s") (simp_all add: delta_rule_def hide_future_def hide_Some)
  show "open_interest_rule f (hide_future x n b s) = open_interest_rule f s"
    by (simp add: open_interest_rule_def hide_future_def)
  show "volume_rule f (hide_future x n b s) = volume_rule f s"
    by (cases "cs_same_day_volume s") (simp_all add: volume_rule_def hide_future_def hide_Some)
  show "liquidity_rule f (hide_future x n b s) = liquidity_rule f s"
    by (simp add: liquidity_rule_def hide_future_def)
  show "earnings_rule f (hide_future x n b s) = earnings_rule f s"
    by (cases "cs_spans_earnings s") (simp_all add: earnings_rule_def hide_future_def hide_Some)
qed

lemma hide_future_spread: "spread_rule f (hide_future x n b s) = spread_rule f s"
  by (cases "cs_bid s"; cases "cs_ask s")
     (auto simp: spread_rule_def hide_future_def hide_Some Let_def)

lemma hide_future_fields [simp]:
  "cs_contract (hide_future x n b s) = cs_contract s"
  "cs_decision_at (hide_future x n b s) = cs_decision_at s"
  "cs_decision_session (hide_future x n b s) = cs_decision_session s"
  "cs_expiration (hide_future x n b s) = cs_expiration s"
  "cs_underlying_security_id (hide_future x n b s) = cs_underlying_security_id s"
  by (simp_all add: hide_future_def)

lemma hide_future_plain:
  "dte_rule f (hide_future x n b s) = dte_rule f s"
  "deliverable_rule f (hide_future x n b s) = deliverable_rule f s"
  "decision_coherence f (hide_future x n b s) = decision_coherence f s"
  "contract_coherence (hide_future x n b s) = contract_coherence s"
  by (simp_all add: dte_rule_def deliverable_rule_def decision_coherence_def contract_coherence_def
      split: sum.split)

text \<open>Claim C20. Point in time at the candidate layer: overwriting every input that became available
  after the decision instant, whatever it is overwritten with, changes neither the decision nor any
  row of its audit, in either liquidity regime.\<close>

theorem candidate_no_lookahead: "evaluate f (hide_future x n b s) = evaluate f s"
  unfolding evaluate_def Let_def by (simp only: hide_future_rules hide_future_spread hide_future_plain hide_future_fields)

subsection \<open>Exactly which candidates are accepted\<close>

text \<open>An input that is there, aware, and published by the decision.\<close>

definition known_value :: "stamp \<Rightarrow> 'a as_of option \<Rightarrow> ('a \<Rightarrow> bool) \<Rightarrow> bool" where
  "known_value d x P \<longleftrightarrow> (case x of None \<Rightarrow> False
     | Some a \<Rightarrow> tz_aware (ao_available_at a) \<and> available_by (ao_available_at a) d \<and> P (ao_value a))"

definition at_close :: "candidate_filter \<Rightarrow> candidate_snapshot \<Rightarrow> bool" where
  "at_close f s \<longleftrightarrow>
     (case session_close (cf_calendar f) (cs_decision_session s) of
        Inl _ \<Rightarrow> False | Inr t \<Rightarrow> cs_decision_at s = Aware t)"

definition spread_ok :: "candidate_filter \<Rightarrow> candidate_snapshot \<Rightarrow> bool" where
  "spread_ok f s \<longleftrightarrow> known_value (cs_decision_at s) (cs_bid s) (\<lambda>b.
     known_value (cs_decision_at s) (cs_ask s) (\<lambda>a.
       b \<le> a \<and> 0 < b + a \<and> (a - b) / ((b + a) / 2) \<le> cf_max_spread_fraction f))"

definition admissible :: "candidate_filter \<Rightarrow> candidate_snapshot \<Rightarrow> bool" where
  "admissible f s \<longleftrightarrow>
     (let c = cs_contract s; d = cs_decision_at s; dte = oc_expiration c - cs_decision_session s in
      at_close f s \<and> cs_expiration s = oc_expiration c
      \<and> cs_underlying_security_id s = oc_underlying_security_id c
      \<and> cf_dte_min f \<le> dte \<and> dte \<le> cf_dte_max f
      \<and> known_value d (cs_abs_delta s) (\<lambda>v. cf_abs_delta_min f \<le> v \<and> v \<le> cf_abs_delta_max f)
      \<and> (\<forall>a. cs_abs_delta s = Some a \<longrightarrow> ao_provenance a \<in> set (cf_accepted_delta_provenance f))
      \<and> (cf_standard_deliverable_only f \<longrightarrow> oc_standard_contract_flag c
           \<and> oc_corporate_action_id c = None \<and> ds_shares_per_contract (oc_deliverable c) = 100)
      \<and> (if flow_regime f
         then cs_open_interest s = None \<and> cs_bid s = None \<and> cs_ask s = None
              \<and> (\<exists>m. cf_flow_min_session_volume f = Some m \<and> 1 \<le> m
                     \<and> known_value d (cs_same_day_volume s) (\<lambda>v. m \<le> v))
         else known_value d (cs_open_interest s) (\<lambda>v. cf_min_open_interest f \<le> v)
              \<and> (known_value d (cs_same_day_volume s) (\<lambda>v. cf_min_same_day_volume f \<le> v)
                 \<or> (cs_same_day_volume s = None \<and> cf_volume_only_if_already_available f
                    \<and> \<not> cs_same_day_volume_applicable s))
              \<and> spread_ok f s)
      \<and> (if liquidity_dropped f then cs_dollar_volume s = None
         else known_value d (cs_dollar_volume s) (\<lambda>v. cf_min_dollar_volume f \<le> v))
      \<and> (cf_exclude_earnings f \<longrightarrow> known_value d (cs_spans_earnings s) (\<lambda>v. \<not> v)
           \<or> (cs_spans_earnings s = None \<and> cf_earnings_disclosed_absence f)))"

lemma blocks_result [simp]: "blocks (result r st dt) \<longleftrightarrow> st = FAIL \<or> st = NOT_EVALUABLE"
  by (simp add: blocks_def result_def)

lemma tz_aware_iff: "tz_aware x \<longleftrightarrow> (\<exists>t. x = Aware t)"
  by (cases x) auto

lemma coherence_iff:
  "decision_coherence f s = [] \<longleftrightarrow> at_close f s"
  "contract_coherence s = [] \<longleftrightarrow> cs_expiration s = oc_expiration (cs_contract s)
     \<and> cs_underlying_security_id s = oc_underlying_security_id (cs_contract s)"
  by (auto simp: decision_coherence_def at_close_def contract_coherence_def tz_aware_iff split: sum.splits)

lemma dte_blocks: "\<not> blocks (dte_rule f s) \<longleftrightarrow>
   cf_dte_min f \<le> oc_expiration (cs_contract s) - cs_decision_session s
   \<and> oc_expiration (cs_contract s) - cs_decision_session s \<le> cf_dte_max f"
  by (simp add: dte_rule_def Let_def)

lemma delta_blocks: "\<not> blocks (delta_rule f s) \<longleftrightarrow>
   known_value (cs_decision_at s) (cs_abs_delta s) (\<lambda>v. cf_abs_delta_min f \<le> v \<and> v \<le> cf_abs_delta_max f)
   \<and> (\<forall>a. cs_abs_delta s = Some a \<longrightarrow> ao_provenance a \<in> set (cf_accepted_delta_provenance f))"
  by (cases "cs_abs_delta s") (auto simp: delta_rule_def known_value_def)

lemma deliverable_blocks: "\<not> blocks (deliverable_rule f s) \<longleftrightarrow>
   (cf_standard_deliverable_only f \<longrightarrow> oc_standard_contract_flag (cs_contract s)
      \<and> oc_corporate_action_id (cs_contract s) = None
      \<and> ds_shares_per_contract (oc_deliverable (cs_contract s)) = 100)"
  by (auto simp: deliverable_rule_def Let_def)

lemma ladder_blocks: "\<not> blocks (minimum_ladder r d m x) \<longleftrightarrow> known_value d x (\<lambda>v. m \<le> v)"
  by (cases x) (auto simp: minimum_ladder_def known_value_def not_less)

lemma open_interest_blocks: "\<not> blocks (open_interest_rule f s) \<longleftrightarrow>
   (if flow_regime f then cs_open_interest s = None
    else known_value (cs_decision_at s) (cs_open_interest s) (\<lambda>v. cf_min_open_interest f \<le> v))"
  by (simp add: open_interest_rule_def ladder_blocks)

lemma liquidity_blocks: "\<not> blocks (liquidity_rule f s) \<longleftrightarrow>
   (if liquidity_dropped f then cs_dollar_volume s = None
    else known_value (cs_decision_at s) (cs_dollar_volume s) (\<lambda>v. cf_min_dollar_volume f \<le> v))"
  by (simp add: liquidity_rule_def ladder_blocks)

lemma earnings_blocks: "\<not> blocks (earnings_rule f s) \<longleftrightarrow>
   (cf_exclude_earnings f \<longrightarrow> known_value (cs_decision_at s) (cs_spans_earnings s) (\<lambda>v. \<not> v)
      \<or> (cs_spans_earnings s = None \<and> cf_earnings_disclosed_absence f))"
  by (cases "cs_spans_earnings s") (auto simp: earnings_rule_def known_value_def)

lemma spread_blocks: "\<not> blocks (spread_rule f s) \<longleftrightarrow>
   (if flow_regime f then cs_bid s = None \<and> cs_ask s = None else spread_ok f s)"
  by (cases "cs_bid s"; cases "cs_ask s")
     (auto simp: spread_rule_def spread_ok_def known_value_def Let_def not_le not_less)

lemma volume_blocks:
  assumes "volume_minimum f = Some m"
  shows "\<exists>v. volume_rule f s = Some v \<and> (\<not> blocks v \<longleftrightarrow>
    known_value (cs_decision_at s) (cs_same_day_volume s) (\<lambda>x. m \<le> x)
    \<or> (\<not> flow_regime f \<and> cs_same_day_volume s = None \<and> cf_volume_only_if_already_available f
       \<and> \<not> cs_same_day_volume_applicable s))"
  using assms by (cases "cs_same_day_volume s") (auto simp: volume_rule_def known_value_def Let_def not_less)

lemma constructed_minimum:
  "make_candidate_filter g = Inr f \<Longrightarrow> \<exists>m. volume_minimum f = Some m
     \<and> (if flow_regime f then cf_flow_min_session_volume f = Some m \<and> 1 \<le> m
        else m = cf_min_same_day_volume f)"
  by (cases "flow_regime f")
     (auto simp: make_candidate_filter_def volume_minimum_def flow_regime_def not_less split: if_splits option.splits)

text \<open>Claim C21. A constructed filter evaluates every snapshot and accepts it exactly when it is
  admissible: the decision is stamped at its session's close, the snapshot describes its contract,
  and every rule holds on an input that is present, aware and published by the decision; in the
  flow regime the two-sided inputs must be absent and the session volume must reach a threshold of
  at least one; only a declared absence excuses a missing input.\<close>

theorem candidate_accepted_iff:
  assumes "make_candidate_filter g = Inr f"
  shows "\<exists>d. evaluate f s = Some d \<and> (cd_accepted d \<longleftrightarrow> admissible f s)"
proof -
  obtain m where m: "volume_minimum f = Some m"
      "if flow_regime f then cf_flow_min_session_volume f = Some m \<and> 1 \<le> m else m = cf_min_same_day_volume f"
    using constructed_minimum [OF assms] by blast
  obtain v where v: "volume_rule f s = Some v" "\<not> blocks v \<longleftrightarrow>
    known_value (cs_decision_at s) (cs_same_day_volume s) (\<lambda>x. m \<le> x)
    \<or> (\<not> flow_regime f \<and> cs_same_day_volume s = None \<and> cf_volume_only_if_already_available f
       \<and> \<not> cs_same_day_volume_applicable s)" using volume_blocks [OF m(1)] by blast
  note rules = dte_blocks delta_blocks deliverable_blocks open_interest_blocks spread_blocks
    liquidity_blocks earnings_blocks v(2)
  show ?thesis
  proof (cases "at_close f s \<and> contract_coherence s = []")
    case False
    then have "\<not> admissible f s" by (auto simp: admissible_def Let_def coherence_iff)
    then show ?thesis using False by (auto simp: evaluate_def Let_def coherence_iff [symmetric])
  next
    case True
    have "(\<not> list_ex blocks [dte_rule f s, delta_rule f s, deliverable_rule f s, open_interest_rule f s,
        v, spread_rule f s, liquidity_rule f s, earnings_rule f s]) \<longleftrightarrow> admissible f s"
      using True m(2)
      by (cases "flow_regime f") (simp_all add: rules admissible_def coherence_iff Let_def, blast+)
    then show ?thesis using True v(1) by (simp add: evaluate_def Let_def coherence_iff)
  qed
qed


definition sample_flow_filter :: candidate_filter where
  "sample_flow_filter = \<lparr>cf_calendar = sample_calendar, cf_dte_min = 1, cf_dte_max = 60,
     cf_abs_delta_min = 1 / 4, cf_abs_delta_max = 3 / 4, cf_standard_deliverable_only = True,
     cf_min_open_interest = 500, cf_min_same_day_volume = 50, cf_volume_only_if_already_available = True,
     cf_max_spread_fraction = 1 / 10, cf_min_dollar_volume = 1000000, cf_exclude_earnings = True,
     cf_liquidity_regime = ''volume_flow'', cf_flow_min_session_volume = Some 20,
     cf_underlying_liquidity_term = ''dropped_no_equity_aggregates'',
     cf_accepted_delta_provenance = [''model-derived-from-vwap''], cf_earnings_disclosed_absence = True\<rparr>"

definition sample_candidate :: candidate_snapshot where
  "sample_candidate =
     (let close = (case session_close sample_calendar 103 of Inr t \<Rightarrow> t | Inl _ \<Rightarrow> 0)
      in \<lparr>cs_contract = sample_contract, cs_underlying_security_id = oc_underlying_security_id sample_contract,
          cs_decision_session = 103, cs_decision_at = Aware close,
          cs_expiration = oc_expiration sample_contract,
          cs_abs_delta = Some \<lparr>ao_value = 1 / 2, ao_available_at = Aware close,
            ao_provenance = ''model-derived-from-vwap''\<rparr>,
          cs_open_interest = None,
          cs_same_day_volume = Some \<lparr>ao_value = 25, ao_available_at = Aware close, ao_provenance = ''vendor''\<rparr>,
          cs_same_day_volume_applicable = True, cs_bid = None, cs_ask = None, cs_dollar_volume = None,
          cs_spans_earnings = None\<rparr>)"

lemma candidate_accepted_iff_witness:
  "\<exists>d. evaluate sample_flow_filter sample_candidate = Some d \<and> cd_accepted d"
proof -
  have "make_candidate_filter sample_flow_filter = Inr sample_flow_filter"
    by (simp add: make_candidate_filter_def sample_flow_filter_def)
  from candidate_accepted_iff [OF this, of sample_candidate]
  obtain d where d: "evaluate sample_flow_filter sample_candidate = Some d"
      "cd_accepted d \<longleftrightarrow> admissible sample_flow_filter sample_candidate" by blast
  have "case evaluate sample_flow_filter sample_candidate of Some d \<Rightarrow> cd_accepted d | None \<Rightarrow> False"
    by code_simp
  then show ?thesis using d(1) by simp
qed

text \<open>The version gate: a disclosed absence needs both the declaration and a protocol of 0.2.2 or later.\<close>

lemma version_gate_examples:
  "\<not> protocol_version_at_least ''0.2.1'' 0 2 2" "protocol_version_at_least ''0.2.2'' 0 2 2"
  "protocol_version_at_least ''0.10.0'' 0 2 2" "\<not> protocol_version_at_least ''0.2'' 0 2 2"
  by code_simp+

lemma from_protocol_gate:
  assumes "filter_from_protocol cal version d = Inr f"
  shows "cf_earnings_disclosed_absence f \<longleftrightarrow> dd_earnings_evaluation d = ''disclosed_absence''
      \<and> protocol_version_at_least version 0 2 2"
    and "\<not> flow_regime f"
  using assms
  by (auto simp: filter_from_protocol_def make_candidate_filter_def filter_of_defaults_def
      disclosed_absence_declared_def flow_regime_def split: if_splits)

lemma volume_flow_threshold:
  assumes "filter_from_protocol_volume_flow cal version d override = Inr f"
  shows "flow_regime f \<and> (\<exists>n \<ge> 1. cf_flow_min_session_volume f = Some n)"
  using assms
  by (auto simp: filter_from_protocol_volume_flow_def make_candidate_filter_def flow_regime_def not_less
      split: option.splits sum.splits if_splits)

end
