(* ===== verification/Json.thy ===== *)
theory Json
  imports Prelude
begin

text \<open>
  The canonical JSON texts the code digests, \<open>json.dumps(..., sort_keys=True, separators=(",", ":"))\<close>
  of flat objects: strings, integers and \<open>null\<close>, and the fact that such a text determines its fields.
  The interface between the encodings of the fields and the encoding of an object is the locale
  \<open>delimited\<close>: a field that is followed by a comma or a closing brace can be read back from the front
  of the text. \<open>optional\<close> extends it to a field that may be \<open>null\<close>.
\<close>

subsection \<open>Strings\<close>

text \<open>\<open>json.dumps\<close> of a string, whose characters are code points below 256: printable ASCII is kept,
  the quote and the backslash and five control characters have short escapes, and every other
  character is \<open>\u\<close> with four lower-case hexadecimal digits.\<close>

definition hex_digit :: "nat \<Rightarrow> char" where
  "hex_digit n = ''0123456789abcdef'' ! n"

definition json_char :: "char \<Rightarrow> string" where
  "json_char c =
     (let n = (of_char c :: nat)
      in if c = CHR 0x22 then [CHR 0x5C, CHR 0x22]
         else if c = CHR 0x5C then [CHR 0x5C, CHR 0x5C]
         else if 32 \<le> n \<and> n \<le> 126 then [c]
         else if n = 8 then CHR 0x5C # ''b''
         else if n = 9 then CHR 0x5C # ''t''
         else if n = 10 then CHR 0x5C # ''n''
         else if n = 12 then CHR 0x5C # ''f''
         else if n = 13 then CHR 0x5C # ''r''
         else CHR 0x5C # ''u00'' @ [hex_digit (n div 16), hex_digit (n mod 16)])"

definition json_string :: "string \<Rightarrow> string" where
  "json_string s = CHR 0x22 # concat (map json_char s) @ [CHR 0x22]"

definition hex_value :: "char \<Rightarrow> nat" where
  "hex_value c = (let n = of_char c in if n \<le> 57 then n - 48 else n - 87)"

lemma hex_value_digit: "n < 16 \<Longrightarrow> hex_value (hex_digit n) = n"
proof -
  have "\<forall>n \<in> set [0..<16]. hex_value (hex_digit n) = n" by code_simp
  then show "n < 16 \<Longrightarrow> hex_value (hex_digit n) = n" by simp
qed

text \<open>Reading one character back from the front of a text.\<close>

fun read_json_char :: "string \<Rightarrow> (char \<times> string) option" where
  "read_json_char [] = None"
| "read_json_char (c # rest) =
     (if c \<noteq> CHR 0x5C then Some (c, rest)
      else case rest of
          [] \<Rightarrow> None
        | e # more_text \<Rightarrow>
            if e = CHR 0x22 \<or> e = CHR 0x5C then Some (e, more_text)
            else if e = CHR ''b'' then Some (char_of (8::nat), more_text)
            else if e = CHR ''t'' then Some (char_of (9::nat), more_text)
            else if e = CHR ''n'' then Some (char_of (10::nat), more_text)
            else if e = CHR ''f'' then Some (char_of (12::nat), more_text)
            else if e = CHR ''r'' then Some (char_of (13::nat), more_text)
            else Some (char_of (16 * hex_value (more_text ! 2) + hex_value (more_text ! 3)), drop 4 more_text))"

lemma read_json_char: "read_json_char (json_char c @ x) = Some (c, x)"
proof -
  define n :: nat where "n = of_char c"
  have c: "c = char_of n" by (simp add: n_def)
  have "n < 256" by (simp add: n_def)
  then have hex: "hex_value (hex_digit (n div 16)) = n div 16" "hex_value (hex_digit (n mod 16)) = n mod 16"
    by (simp_all add: hex_value_digit)
  have split: "char_of (16 * (n div 16) + n mod 16) = c" by (simp add: c)
  show ?thesis
    unfolding json_char_def Let_def n_def [symmetric]
    using split by (auto simp: hex numeral_2_eq_2 numeral_3_eq_3 c)
qed

lemma json_char_no_quote: "json_char c @ x \<noteq> CHR 0x22 # y"
  by (auto simp: json_char_def Let_def)

lemma json_body_unique:
  "concat (map json_char s) @ CHR 0x22 # x = concat (map json_char t) @ CHR 0x22 # y \<Longrightarrow> s = t \<and> x = y"
proof (induction s arbitrary: t)
  case Nil
  then show ?case using json_char_no_quote by (cases t) (auto, metis append.assoc)
next
  case (Cons c s)
  show ?case
  proof (cases t)
    case Nil
    then show ?thesis using Cons.prems json_char_no_quote by (auto simp: append_assoc)
  next
    case (Cons d t')
    then have same: "json_char c @ concat (map json_char s) @ CHR 0x22 # x
        = json_char d @ concat (map json_char t') @ CHR 0x22 # y" using Cons.prems by simp
    then have "Some (c, concat (map json_char s) @ CHR 0x22 # x)
        = Some (d, concat (map json_char t') @ CHR 0x22 # y)" by (metis read_json_char)
    then show ?thesis using Cons.IH \<open>t = d # t'\<close> by simp
  qed
qed

lemma json_string_unique: "json_string s @ x = json_string t @ y \<longleftrightarrow> s = t \<and> x = y"
  by (auto simp: json_string_def dest: json_body_unique)

lemma json_string_inj: "json_string s = json_string t \<longleftrightarrow> s = t"
  using json_string_unique [of s "[]" t "[]"] by simp

subsection \<open>Integers\<close>

text \<open>\<open>str\<close> of an integer.\<close>

definition json_int :: "int \<Rightarrow> string" where
  "json_int n = (if n < 0 then CHR ''-'' # string_of_nat (nat (- n)) else string_of_nat (nat n))"

text \<open>The two characters that may follow a field of a flat object.\<close>

definition field_end :: "char \<Rightarrow> bool" where
  "field_end c \<longleftrightarrow> c = CHR '','' \<or> c = CHR ''}''"

definition json_null :: "('a \<Rightarrow> string) \<Rightarrow> 'a option \<Rightarrow> string" where
  "json_null enc x = (case x of None \<Rightarrow> ''null'' | Some y \<Rightarrow> enc y)"

lemma split_at_first:
  assumes "xs @ c # s = ys @ d # t" "\<forall>x \<in> set xs. \<not> P x" "\<forall>y \<in> set ys. \<not> P y" "P c" "P d"
  shows "xs = ys \<and> c # s = d # t"
proof -
  have "takeWhile (Not \<circ> P) (xs @ c # s) = xs" "takeWhile (Not \<circ> P) (ys @ d # t) = ys"
    using assms(2-) by (simp_all add: takeWhile_append2)
  with assms(1) show ?thesis by simp
qed

lemma json_int_no_end: "x \<in> set (json_int n) \<Longrightarrow> \<not> field_end x"
proof -
  have "\<not> field_end x" if digit: "x \<in> set (string_of_nat m)" for m
  proof -
    obtain d where "d < 10" "x = char_of (48 + d :: nat)" using string_of_nat_digit [OF digit] by blast
    moreover have "\<forall>d \<in> set [0..<10]. \<not> field_end (char_of (48 + d :: nat))" by code_simp
    ultimately show ?thesis by simp
  qed
  moreover have "\<not> field_end (CHR ''-'')" by (simp add: field_end_def)
  ultimately show "x \<in> set (json_int n) \<Longrightarrow> \<not> field_end x" by (auto simp: json_int_def split: if_splits)
qed

lemma json_int_inj: "json_int m = json_int n \<longleftrightarrow> m = n"
proof
  have neg: "CHR ''-'' \<notin> set (string_of_nat k)" for k
  proof
    assume "CHR ''-'' \<in> set (string_of_nat k)"
    then obtain d where "d < 10" "CHR ''-'' = char_of (48 + d :: nat)" using string_of_nat_digit by blast
    moreover have "\<forall>d \<in> set [0..<10]. CHR ''-'' \<noteq> char_of (48 + d :: nat)" by code_simp
    ultimately show False by simp
  qed
  assume "json_int m = json_int n"
  then show "m = n"
    using neg by (auto simp: json_int_def dest!: string_of_nat_inj split: if_splits)
      (metis list.set_intros(1))+
qed simp

subsection \<open>Fields that can be read back\<close>

locale delimited =
  fixes enc :: "'a \<Rightarrow> string"
  assumes read_back: "field_end c \<Longrightarrow> field_end d \<Longrightarrow> enc x @ c # s = enc y @ d # t \<Longrightarrow> x = y \<and> c # s = d # t"
begin

lemma field_unique:
  assumes "field_end c"
  shows "enc x @ c # s = enc y @ c # t \<longleftrightarrow> x = y \<and> s = t"
  using read_back [OF assms assms, of x s y t] by auto

lemma enc_inj: "enc x = enc y \<longleftrightarrow> x = y"
  using field_unique [of "CHR '',''" x "[]" y "[]"] by (simp add: field_end_def)

lemma comma_unique: "enc x @ CHR '','' # s = enc y @ CHR '','' # t \<longleftrightarrow> x = y \<and> s = t"
  by (rule field_unique) (simp add: field_end_def)

lemma brace_unique: "enc x @ CHR ''}'' # s = enc y @ CHR ''}'' # t \<longleftrightarrow> x = y \<and> s = t"
  by (rule field_unique) (simp add: field_end_def)

end

locale optional = delimited +
  assumes not_null: "enc x = CHR ''n'' # s \<Longrightarrow> False" and shown: "enc x \<noteq> []"

sublocale optional \<subseteq> null: delimited "json_null enc"
proof unfold_locales
  fix c d :: char and s t :: string and x y :: "'a option"
  assume ends: "field_end c" "field_end d" and eq: "json_null enc x @ c # s = json_null enc y @ d # t"
  have differ: "''null'' @ e # u \<noteq> enc z @ f # v" for e f u v z
    using not_null [of z] shown [of z] by (cases "enc z") auto
  show "x = y \<and> c # s = d # t"
  proof (cases x; cases y)
    fix a b assume "x = Some a" "y = Some b"
    then show ?thesis using eq read_back [OF ends, of a s b t] by (simp add: json_null_def)
  qed (use eq differ differ [symmetric] in \<open>auto simp: json_null_def\<close>)
qed

interpretation str: optional json_string
proof unfold_locales
  show "x = y \<and> c # s = d # t" if "json_string x @ c # s = json_string y @ d # t" for c d s x t y
    using that by (simp add: json_string_unique)
qed (simp_all add: json_string_def)

interpretation num: delimited json_int
proof unfold_locales
  fix c d :: char and s t :: string and x y :: int
  assume "field_end c" "field_end d" "json_int x @ c # s = json_int y @ d # t"
  then show "x = y \<and> c # s = d # t"
    using split_at_first [of "json_int x" c s "json_int y" d t field_end] json_int_no_end
    by (simp add: json_int_inj)
qed

text \<open>An enumeration is encoded by the string of its name.\<close>

locale named =
  fixes name :: "'a \<Rightarrow> string"
  assumes name_inj: "name x = name y \<Longrightarrow> x = y"

sublocale named \<subseteq> enum: optional "json_string \<circ> name"
proof unfold_locales
  show "x = y \<and> c # s = d # t" if "(json_string \<circ> name) x @ c # s = (json_string \<circ> name) y @ d # t" for c d s x t y
    using that name_inj by (auto simp: json_string_unique)
qed (simp_all add: json_string_def)

end
