(* ===== verification/Registry.thy ===== *)
theory Registry
  imports Json
begin

text \<open>
  The trial registry: \<open>registry/scope.py\<close>, \<open>registry/budget.py\<close>, \<open>registry/sqlite.py\<close>,
  \<open>registry/errors.py\<close> and the record of \<open>schemas/trial.py\<close>. The four SQLite tables are the fields of
  \<open>registry_db\<close>: \<open>trials\<close>, \<open>outcomes\<close> and \<open>events\<close> as lists in insertion order,
  \<open>scope_commitments\<close> as a map. A transaction (\<open>BEGIN IMMEDIATE\<close> to \<open>COMMIT\<close>) is one function; its
  rollback is the left summand of the result, which carries no new database. \<open>mark_running\<close> runs
  outside a transaction, so its four statements are four operations, which other connections may
  interleave. SHA-256 and SQLite's \<open>json_valid\<close> are parameters. The integrity constraints are those
  of the schema; a statement that waits too long for the lock raises before it changes anything and
  has no counterpart.
\<close>

subsection \<open>Canonical scopes\<close>

record trial_scope =
  sc_protocol_id :: string
  sc_protocol_hash :: string
  sc_outer_fold_id :: string
  sc_target_horizon :: string
  sc_feature_set_id :: string
  sc_model_family :: string

text \<open>\<open>json.dumps(asdict(self), sort_keys=True, separators=(",", ":"))\<close>: the six fields by name.\<close>

definition canonical_json :: "trial_scope \<Rightarrow> string" where
  "canonical_json s =
     ''{'' @ json_string ''feature_set_id'' @ '':'' @ json_string (sc_feature_set_id s)
     @ '','' @ json_string ''model_family'' @ '':'' @ json_string (sc_model_family s)
     @ '','' @ json_string ''outer_fold_id'' @ '':'' @ json_string (sc_outer_fold_id s)
     @ '','' @ json_string ''protocol_hash'' @ '':'' @ json_string (sc_protocol_hash s)
     @ '','' @ json_string ''protocol_id'' @ '':'' @ json_string (sc_protocol_id s)
     @ '','' @ json_string ''target_horizon'' @ '':'' @ json_string (sc_target_horizon s) @ ''}''"

definition scope_prefix :: string where "scope_prefix = ''scope-v1:''"

definition scope_key :: "(string \<Rightarrow> string) \<Rightarrow> trial_scope \<Rightarrow> string" where
  "scope_key sha256 s = scope_prefix @ sha256 (canonical_json s)"

definition is_canonical :: "string \<Rightarrow> bool" where
  "is_canonical key =
     (if take (length scope_prefix) key \<noteq> scope_prefix then False
      else let body = drop (length scope_prefix) key
           in length body = 64 \<and> list_all (\<lambda>c. c \<in> set ''0123456789abcdef'') body)"

subsection \<open>The budget\<close>

text \<open>The stored cap is a Python value that a data write may have replaced: \<open>CapInt\<close> is an \<open>int\<close> that
  is no \<open>bool\<close>, anything else is \<open>CapOther\<close>.\<close>

datatype cap_value = CapInt int | CapOther

datatype registry_error =
    CapNotInteger | CapBelowOne int | CapAboveMaximum int
  | BudgetTamperedError cap_value
  | ScopeBudgetExceededError string int
  | BudgetCommitmentChangedError string int int
  | NonCanonicalScopeError string
  | DuplicateTrialError string
  | UnregisteredOutcomeError string
  | InvalidTransitionError string
  | RegistrySchemaTooOld "string list"
  | IntegrityCheckFailed

definition max_scope_cap :: int where "max_scope_cap = 32"

definition trial_budget :: "cap_value \<Rightarrow> registry_error + cap_value" where
  "trial_budget cap = (case cap of
      CapOther \<Rightarrow> Inl CapNotInteger
    | CapInt n \<Rightarrow>
        if n < 1 then Inl (CapBelowOne n)
        else if n > max_scope_cap then Inl (CapAboveMaximum n)
        else Inr (CapInt n))"

definition validated_cap :: "cap_value \<Rightarrow> registry_error + int" where
  "validated_cap stored = (case stored of
      CapInt n \<Rightarrow> if 1 \<le> n \<and> n \<le> max_scope_cap then Inr n else Inl (BudgetTamperedError stored)
    | CapOther \<Rightarrow> Inl (BudgetTamperedError stored))"

subsection \<open>The tables\<close>

datatype trial_status = Registered | Running | Completed | Failed

record trial_record =
  tr_trial_id :: ident
  tr_parent_trial_id :: "ident option"
  tr_created_at :: instant
  tr_hypothesis :: string
  tr_git_sha :: ident
  tr_config_hash :: ident
  tr_dataset_manifest_hash :: ident
  tr_train_window :: "(date \<times> date) option"
  tr_validation_window :: "(date \<times> date) option"
  tr_test_window :: "(date \<times> date) option"
  tr_hyperparameters :: string
  tr_scope_key :: ident
  tr_status :: trial_status
  tr_metrics_uri :: "string option"
  tr_record_failure_reason :: "string option"

text \<open>The validated \<open>TrialRecord\<close>; the hyperparameters are their JSON text.\<close>

definition window_ok :: "(date \<times> date) option \<Rightarrow> bool" where
  "window_ok w \<longleftrightarrow> (case w of None \<Rightarrow> True | Some (a, b) \<Rightarrow> \<not> a > b)"

definition trial_record_ok :: "trial_record \<Rightarrow> bool" where
  "trial_record_ok r \<longleftrightarrow>
     list_all id_str [tr_trial_id r, tr_git_sha r, tr_config_hash r, tr_dataset_manifest_hash r,
       tr_scope_key r]
     \<and> (case tr_parent_trial_id r of None \<Rightarrow> True | Some i \<Rightarrow> id_str i)
     \<and> 8 \<le> length (tr_hypothesis r)
     \<and> list_all window_ok [tr_train_window r, tr_validation_window r, tr_test_window r]
     \<and> \<not> (tr_status r \<noteq> Registered \<and> tr_metrics_uri r = None)"

record trial_row =
  tw_trial_id :: ident
  tw_scope_key :: ident
  tw_scope_json :: string
  tw_hypothesis :: string
  tw_hyperparameters :: string
  tw_provenance :: "ident \<times> ident \<times> ident"
  tw_registered_at :: instant
  tw_status :: trial_status
  tw_outcome_at :: "instant option"
  tw_metrics_uri :: "string option"
  tw_failure_reason :: "string option"

datatype payload = ScopePayload string | DetailPayload string | MetricsPayload string | ReasonPayload string

record outcome_row =
  ow_trial_id :: ident
  ow_kind :: trial_status
  ow_detail :: payload
  ow_ts :: instant

record event_row =
  ev_trial_id :: ident
  ev_kind :: trial_status
  ev_payload :: payload
  ev_ts :: instant

record registry_db =
  db_trials :: "trial_row list"
  db_outcomes :: "outcome_row list"
  db_events :: "event_row list"
  db_commitments :: "string \<Rightarrow> (int \<times> instant option) option"

definition empty_db :: registry_db where
  "empty_db = \<lparr>db_trials = [], db_outcomes = [], db_events = [], db_commitments = Map.empty\<rparr>"

text \<open>\<open>_TRANSITIONS\<close>: the statuses a status may be entered from; nothing enters \<open>REGISTERED\<close>.\<close>

fun transition_sources :: "trial_status \<Rightarrow> trial_status list" where
  "transition_sources Running = [Registered]"
| "transition_sources Completed = [Running]"
| "transition_sources Failed = [Running]"
| "transition_sources Registered = []"

subsection \<open>Reads\<close>

definition find_trial :: "registry_db \<Rightarrow> ident \<Rightarrow> trial_row option" where
  "find_trial db i = find (\<lambda>t. tw_trial_id t = i) (db_trials db)"

definition count_scope :: "registry_db \<Rightarrow> string \<Rightarrow> int" where
  "count_scope db k = int (length (filter (\<lambda>t. tw_scope_key t = k) (db_trials db)))"

definition is_registered :: "registry_db \<Rightarrow> ident \<Rightarrow> bool" where
  "is_registered db i \<longleftrightarrow> find_trial db i \<noteq> None"

definition trial_status_of :: "registry_db \<Rightarrow> ident \<Rightarrow> registry_error + trial_status" where
  "trial_status_of db i = (case find_trial db i of
      None \<Rightarrow> Inl (UnregisteredOutcomeError i) | Some t \<Rightarrow> Inr (tw_status t))"

definition has_outcome :: "registry_db \<Rightarrow> ident \<Rightarrow> registry_error + bool" where
  "has_outcome db i = (case trial_status_of db i of
      Inl e \<Rightarrow> Inl e | Inr s \<Rightarrow> Inr (s \<in> {Completed, Failed}))"

definition metrics_uri_of :: "registry_db \<Rightarrow> ident \<Rightarrow> registry_error + string option" where
  "metrics_uri_of db i = (case find_trial db i of
      None \<Rightarrow> Inl (UnregisteredOutcomeError i) | Some t \<Rightarrow> Inr (tw_metrics_uri t))"

definition scope_json_of :: "registry_db \<Rightarrow> ident \<Rightarrow> registry_error + string" where
  "scope_json_of db i = (case find_trial db i of
      None \<Rightarrow> Inl (UnregisteredOutcomeError i) | Some t \<Rightarrow> Inr (tw_scope_json t))"

definition trial_events :: "registry_db \<Rightarrow> ident \<Rightarrow> (trial_status \<times> payload) list" where
  "trial_events db i =
     map (\<lambda>e. (ev_kind e, ev_payload e)) (filter (\<lambda>e. ev_trial_id e = i) (db_events db))"

subsection \<open>Opening\<close>

definition required_trial_columns :: "string list" where
  "required_trial_columns =
     [''trial_id'', ''scope_key'', ''scope_json'', ''hypothesis'', ''hyperparameters_json'', ''git_sha'',
      ''config_hash'', ''dataset_manifest_hash'', ''registered_at'', ''status'']"

text \<open>\<open>INSERT OR IGNORE\<close> of a commitment.\<close>

definition commit_scope :: "string \<Rightarrow> int \<times> instant option \<Rightarrow> registry_db \<Rightarrow> registry_db" where
  "commit_scope k c db = (case db_commitments db k of
      None \<Rightarrow> db\<lparr>db_commitments := (db_commitments db)(k \<mapsto> c)\<rparr> | Some _ \<Rightarrow> db)"

text \<open>\<open>TrialRegistry.__init__\<close> on a database whose \<open>trials\<close> table has the given columns: a missing
  column is refused, and every scope with trials but no commitment is committed to the live cap; the
  time of such a commitment is the sentinel \<open>None\<close>.\<close>

definition open_registry :: "cap_value \<Rightarrow> string list \<Rightarrow> registry_db \<Rightarrow> registry_error + registry_db" where
  "open_registry budget columns db =
     (let missing = filter (\<lambda>c. c \<notin> set columns) required_trial_columns
      in if missing \<noteq> [] then Inl (RegistrySchemaTooOld (sort missing))
         else case validated_cap budget of
             Inl e \<Rightarrow> Inl e
           | Inr cap \<Rightarrow>
               Inr (fold (\<lambda>k. commit_scope k (cap, None)) (remdups (map tw_scope_key (db_trials db))) db))"

subsection \<open>Registration\<close>

definition budget_check :: "cap_value \<Rightarrow> registry_db \<Rightarrow> string \<Rightarrow> registry_error + int" where
  "budget_check budget db k = (case validated_cap budget of
      Inl e \<Rightarrow> Inl e
    | Inr stored \<Rightarrow>
        if count_scope db k \<ge> stored then Inl (ScopeBudgetExceededError k stored) else Inr stored)"

definition add_event :: "ident \<Rightarrow> trial_status \<Rightarrow> payload \<Rightarrow> instant \<Rightarrow> registry_db \<Rightarrow> registry_db" where
  "add_event i kind p ts db =
     db\<lparr>db_events := db_events db @ [\<lparr>ev_trial_id = i, ev_kind = kind, ev_payload = p, ev_ts = ts\<rparr>]\<rparr>"

text \<open>SQLite's \<open>length\<close> of a text counts the characters before the first NUL.\<close>

definition sql_length :: "string \<Rightarrow> nat" where
  "sql_length s = length (takeWhile (\<lambda>c. c \<noteq> CHR 0x00) s)"

definition new_row :: "trial_record \<Rightarrow> trial_scope \<Rightarrow> trial_row" where
  "new_row r s =
     \<lparr>tw_trial_id = tr_trial_id r, tw_scope_key = tr_scope_key r, tw_scope_json = canonical_json s,
      tw_hypothesis = tr_hypothesis r, tw_hyperparameters = tr_hyperparameters r,
      tw_provenance = (tr_git_sha r, tr_config_hash r, tr_dataset_manifest_hash r),
      tw_registered_at = tr_created_at r, tw_status = Registered,
      tw_outcome_at = None, tw_metrics_uri = None, tw_failure_reason = None\<rparr>"

text \<open>\<open>INSERT INTO trials\<close>: the \<open>CHECK\<close> constraints come before the primary key.\<close>

definition insert_trial :: "(string \<Rightarrow> bool) \<Rightarrow> trial_row \<Rightarrow> registry_db \<Rightarrow> registry_error + registry_db" where
  "insert_trial json_valid t db =
     (if sql_length (tw_hypothesis t) < 8 \<or> \<not> json_valid (tw_hyperparameters t)
      then Inl IntegrityCheckFailed
      else if is_registered db (tw_trial_id t) then Inl (DuplicateTrialError (tw_trial_id t))
      else Inr (db\<lparr>db_trials := db_trials db @ [t]\<rparr>))"

definition register_trial ::
  "(string \<Rightarrow> string) \<Rightarrow> (string \<Rightarrow> bool) \<Rightarrow> cap_value \<Rightarrow> trial_record \<Rightarrow> trial_scope option
     \<Rightarrow> registry_db \<Rightarrow> registry_error + registry_db" where
  "register_trial sha256 json_valid budget r presented db = (case presented of
      None \<Rightarrow> Inl (NonCanonicalScopeError (tr_scope_key r))
    | Some s \<Rightarrow>
        if scope_key sha256 s \<noteq> tr_scope_key r then Inl (NonCanonicalScopeError (tr_scope_key r))
        else case budget_check budget db (tr_scope_key r) of
            Inl e \<Rightarrow> Inl e
          | Inr cap \<Rightarrow>
              if (case db_commitments db (tr_scope_key r) of
                    None \<Rightarrow> False | Some committed \<Rightarrow> fst committed \<noteq> cap)
              then Inl (BudgetCommitmentChangedError (tr_scope_key r)
                          (fst (the (db_commitments db (tr_scope_key r)))) cap)
              else (case insert_trial json_valid (new_row r s) db of
                  Inl e \<Rightarrow> Inl e
                | Inr db1 \<Rightarrow>
                    Inr (add_event (tr_trial_id r) Registered (ScopePayload (tr_scope_key r))
                           (tr_created_at r)
                           (commit_scope (tr_scope_key r) (cap, Some (tr_created_at r)) db1))))"

subsection \<open>Starting a trial\<close>

text \<open>An \<open>UPDATE trials SET status\<close> that requires the current status to be one of the sources.\<close>

definition set_status :: "ident \<Rightarrow> trial_status \<Rightarrow> registry_db \<Rightarrow> registry_db" where
  "set_status i kind db =
     db\<lparr>db_trials := map (\<lambda>t. if tw_trial_id t = i \<and> tw_status t \<in> set (transition_sources kind)
                              then t\<lparr>tw_status := kind\<rparr> else t) (db_trials db)\<rparr>"

text \<open>\<open>mark_running\<close>, statement by statement: the provenance query, the status query of
  \<open>_transition\<close>, its update (whose row count nobody reads) and its event.\<close>

definition check_provenance :: "ident \<Rightarrow> ident \<times> ident \<times> ident \<Rightarrow> registry_db \<Rightarrow> registry_error + unit" where
  "check_provenance i hashes db = (case find_trial db i of
      None \<Rightarrow> Inl (UnregisteredOutcomeError i)
    | Some t \<Rightarrow> if hashes \<noteq> tw_provenance t then Inl (InvalidTransitionError i) else Inr ())"

definition check_source :: "ident \<Rightarrow> trial_status \<Rightarrow> registry_db \<Rightarrow> registry_error + unit" where
  "check_source i kind db = (case trial_status_of db i of
      Inl e \<Rightarrow> Inl e
    | Inr current \<Rightarrow>
        if current \<notin> set (transition_sources kind) then Inl (InvalidTransitionError i) else Inr ())"

definition running_event :: "ident \<Rightarrow> instant \<Rightarrow> registry_db \<Rightarrow> registry_db" where
  "running_event i ts = add_event i Running (DetailPayload ''provenance confirmed'') ts"

definition mark_running ::
  "ident \<Rightarrow> ident \<times> ident \<times> ident \<Rightarrow> instant \<Rightarrow> registry_db \<Rightarrow> registry_error + registry_db" where
  "mark_running i hashes ts db = (case check_provenance i hashes db of
      Inl e \<Rightarrow> Inl e
    | Inr _ \<Rightarrow> (case check_source i Running db of
          Inl e \<Rightarrow> Inl e
        | Inr _ \<Rightarrow> Inr (running_event i ts (set_status i Running db))))"

subsection \<open>Recording an outcome\<close>

text \<open>The claim on the primary key of \<open>outcomes\<close>, the guarded update whose row count must be one (no
  other row has the trial's id), the outcome's columns, the event; in one transaction.\<close>

definition record_outcome ::
  "ident \<Rightarrow> trial_status \<Rightarrow> payload \<Rightarrow> (trial_row \<Rightarrow> trial_row) \<Rightarrow> instant
     \<Rightarrow> registry_db \<Rightarrow> registry_error + registry_db" where
  "record_outcome i kind p extra ts db =
     (if i \<in> set (map ow_trial_id (db_outcomes db)) then Inl (InvalidTransitionError i)
      else case check_source i kind db of
          Inl e \<Rightarrow> Inl e
        | Inr _ \<Rightarrow>
            let claimed = db\<lparr>db_outcomes := db_outcomes db
                  @ [\<lparr>ow_trial_id = i, ow_kind = kind, ow_detail = p, ow_ts = ts\<rparr>]\<rparr>;
                updated = set_status i kind claimed;
                filled = updated\<lparr>db_trials :=
                  map (\<lambda>t. if tw_trial_id t = i then extra t else t) (db_trials updated)\<rparr>
            in Inr (add_event i kind p ts filled))"

definition complete_trial :: "ident \<Rightarrow> string \<Rightarrow> instant \<Rightarrow> registry_db \<Rightarrow> registry_error + registry_db" where
  "complete_trial i uri ts =
     record_outcome i Completed (MetricsPayload uri)
       (\<lambda>t. t\<lparr>tw_outcome_at := Some ts, tw_metrics_uri := Some uri\<rparr>) ts"

definition fail_trial :: "ident \<Rightarrow> string \<Rightarrow> instant \<Rightarrow> registry_db \<Rightarrow> registry_error + registry_db" where
  "fail_trial i why ts =
     record_outcome i Failed (ReasonPayload why)
       (\<lambda>t. t\<lparr>tw_outcome_at := Some ts, tw_failure_reason := Some why\<rparr>) ts"

end
