(* ===== verification/RegistryLaws.thy ===== *)
theory RegistryLaws
  imports Registry
begin

text \<open>
  What the trial registry guarantees. A canonical scope text determines its scope. Then the registry as
  a state machine whose states are the database and where each connection is inside \<open>mark_running\<close>: the
  steps are the transactions, the single statements of \<open>mark_running\<close>, opening, and a connection that
  gives up (a refusal or a crash), in any interleaving. The invariant of the reachable states is
  proved by rule induction; the sequential runs are the special case in which every call finishes.
\<close>

subsection \<open>Canonical texts determine their scopes\<close>

text \<open>The canonical text of a scope determines the scope, whatever quotes, backslashes or
  control characters its fields contain, so two different scopes share a scope key only where the
  digest collides.\<close>

lemma canonical_scope: "canonical_json s = canonical_json s' \<longleftrightarrow> s = s'"
  by (cases s; cases s') (simp add: canonical_json_def json_string_unique json_string_inj conj_ac)

subsection \<open>Connections and interleaving\<close>

text \<open>Where a connection is inside \<open>mark_running\<close>.\<close>

datatype phase = Idle | Matched ident instant | Checked ident instant | Updated ident instant

fun phase_trial :: "phase \<Rightarrow> ident option" where
  "phase_trial Idle = None"
| "phase_trial (Matched i _) = Some i"
| "phase_trial (Checked i _) = Some i"
| "phase_trial (Updated i _) = Some i"

inductive registry_step ::
  "(string \<Rightarrow> string) \<Rightarrow> (string \<Rightarrow> bool) \<Rightarrow> registry_db \<times> (nat \<Rightarrow> phase) \<Rightarrow> registry_db \<times> (nat \<Rightarrow> phase) \<Rightarrow> bool"
  for sha256 json_valid where
  open_db: "open_registry budget columns db = Inr db' \<Longrightarrow> registry_step sha256 json_valid (db, ph) (db', ph)"
| register: "ph c = Idle \<Longrightarrow> register_trial sha256 json_valid budget r s db = Inr db'
    \<Longrightarrow> registry_step sha256 json_valid (db, ph) (db', ph)"
| match: "ph c = Idle \<Longrightarrow> check_provenance i hashes db = Inr u
    \<Longrightarrow> registry_step sha256 json_valid (db, ph) (db, ph(c := Matched i ts))"
| check: "ph c = Matched i ts \<Longrightarrow> check_source i Running db = Inr u
    \<Longrightarrow> registry_step sha256 json_valid (db, ph) (db, ph(c := Checked i ts))"
| update: "ph c = Checked i ts
    \<Longrightarrow> registry_step sha256 json_valid (db, ph) (set_status i Running db, ph(c := Updated i ts))"
| event: "ph c = Updated i ts
    \<Longrightarrow> registry_step sha256 json_valid (db, ph) (running_event i ts db, ph(c := Idle))"
| complete: "ph c = Idle \<Longrightarrow> complete_trial i uri ts db = Inr db'
    \<Longrightarrow> registry_step sha256 json_valid (db, ph) (db', ph)"
| fail: "ph c = Idle \<Longrightarrow> fail_trial i why ts db = Inr db'
    \<Longrightarrow> registry_step sha256 json_valid (db, ph) (db', ph)"
| give_up: "registry_step sha256 json_valid (db, ph) (db, ph(c := Idle))"

inductive registry_reached ::
  "(string \<Rightarrow> string) \<Rightarrow> (string \<Rightarrow> bool) \<Rightarrow> registry_db \<times> (nat \<Rightarrow> phase) \<Rightarrow> bool"
  for sha256 json_valid where
  fresh: "registry_reached sha256 json_valid (empty_db, \<lambda>_. Idle)"
| next_step: "registry_reached sha256 json_valid x \<Longrightarrow> registry_step sha256 json_valid x y
    \<Longrightarrow> registry_reached sha256 json_valid y"

subsection \<open>One trial's view of the database\<close>

definition event_kinds :: "registry_db \<Rightarrow> ident \<Rightarrow> trial_status list" where
  "event_kinds db i = map ev_kind (filter (\<lambda>e. ev_trial_id e = i) (db_events db))"

definition outcome_kinds :: "registry_db \<Rightarrow> ident \<Rightarrow> trial_status list" where
  "outcome_kinds db i = map ow_kind (filter (\<lambda>o'. ow_trial_id o' = i) (db_outcomes db))"

fun is_outcome :: "trial_status \<Rightarrow> bool" where
  "is_outcome Completed = True"
| "is_outcome Failed = True"
| "is_outcome _ = False"

definition outcome_of_status :: "trial_status \<Rightarrow> trial_status list" where
  "outcome_of_status k = (if is_outcome k then [k] else [])"

text \<open>What holds of a trial's status, its events and its outcomes.\<close>

definition view_ok :: "trial_status option \<Rightarrow> trial_status list \<Rightarrow> trial_status list \<Rightarrow> bool" where
  "view_ok st kinds outs \<longleftrightarrow> (case st of
      None \<Rightarrow> kinds = [] \<and> outs = []
    | Some k \<Rightarrow> (\<exists>rest. kinds = Registered # rest \<and> Registered \<notin> set rest
                   \<and> filter is_outcome rest = outcome_of_status k) \<and> outs = outcome_of_status k)"

definition status_of :: "registry_db \<Rightarrow> ident \<Rightarrow> trial_status option" where
  "status_of db i = map_option tw_status (find_trial db i)"

definition scope_within :: "registry_db \<Rightarrow> string \<Rightarrow> bool" where
  "scope_within db k \<longleftrightarrow> (case db_commitments db k of
      None \<Rightarrow> count_scope db k = 0
    | Some (cap, _) \<Rightarrow> 1 \<le> cap \<and> cap \<le> max_scope_cap \<and> count_scope db k \<le> cap)"

definition registry_inv :: "registry_db \<Rightarrow> bool" where
  "registry_inv db \<longleftrightarrow> distinct (map tw_trial_id (db_trials db)) \<and> (\<forall>k. scope_within db k)
     \<and> (\<forall>i. view_ok (status_of db i) (event_kinds db i) (outcome_kinds db i))"

definition phases_ok :: "registry_db \<Rightarrow> (nat \<Rightarrow> phase) \<Rightarrow> bool" where
  "phases_ok db ph \<longleftrightarrow> (\<forall>c i. phase_trial (ph c) = Some i \<longrightarrow> status_of db i \<noteq> None)"

subsection \<open>Effects of the statements\<close>

named_theorems registry_simps \<open>how each statement changes the views of the database\<close>

lemma find_key_map: "(\<And>t. k (f t) = k t) \<Longrightarrow> find (\<lambda>t. k t = i) (map f ts) = map_option f (find (\<lambda>t. k t = i) ts)"
  by (induction ts) simp_all

lemma find_key_append: "find P (xs @ ys) = (case find P xs of None \<Rightarrow> find P ys | Some x \<Rightarrow> Some x)"
  by (induction xs) simp_all

lemma find_key_SomeD: "find (\<lambda>t. k t = i) ts = Some t \<Longrightarrow> k t = i"
  by (induction ts) (auto split: if_splits)

lemma map_key_map: "(\<And>t. k (f t) = k t) \<Longrightarrow> map k (map f ts) = map k ts"
  by simp

text \<open>Rewriting the rows in place: every statement that does so keeps the id and the scope key.\<close>

lemma rewrite_rows:
  assumes "\<And>t. tw_trial_id (f t) = tw_trial_id t" "\<And>t. tw_scope_key (f t) = tw_scope_key t"
  shows "find_trial (db\<lparr>db_trials := map f (db_trials db)\<rparr>) i = map_option f (find_trial db i)"
    and "count_scope (db\<lparr>db_trials := map f (db_trials db)\<rparr>) k = count_scope db k"
    and "map tw_trial_id (map f (db_trials db)) = map tw_trial_id (db_trials db)"
proof -
  show "find_trial (db\<lparr>db_trials := map f (db_trials db)\<rparr>) i = map_option f (find_trial db i)"
    by (simp add: find_trial_def find_key_map assms(1))
  show "count_scope (db\<lparr>db_trials := map f (db_trials db)\<rparr>) k = count_scope db k"
    using assms(2) by (simp add: count_scope_def filter_map comp_def)
  show "map tw_trial_id (map f (db_trials db)) = map tw_trial_id (db_trials db)"
    using assms(1) by (rule map_key_map)
qed

lemma set_status_frame [registry_simps]:
  "db_outcomes (set_status i k db) = db_outcomes db" "db_events (set_status i k db) = db_events db"
  "db_commitments (set_status i k db) = db_commitments db"
  "map tw_trial_id (db_trials (set_status i k db)) = map tw_trial_id (db_trials db)"
  "count_scope (set_status i k db) key = count_scope db key"
  by (simp_all add: set_status_def rewrite_rows(2) comp_def if_distrib cong: if_cong)

lemma find_trial_set_status [registry_simps]:
  "find_trial (set_status i k db) j = map_option (\<lambda>t. if j = i \<and> tw_status t \<in> set (transition_sources k)
     then t\<lparr>tw_status := k\<rparr> else t) (find_trial db j)"
proof -
  have "find_trial (set_status i k db) j = map_option (\<lambda>t. if tw_trial_id t = i
      \<and> tw_status t \<in> set (transition_sources k) then t\<lparr>tw_status := k\<rparr> else t) (find_trial db j)"
    unfolding set_status_def by (rule rewrite_rows(1)) simp_all
  moreover have "find_trial db j = Some t \<Longrightarrow> tw_trial_id t = j" for t
    unfolding find_trial_def by (rule find_key_SomeD)
  ultimately show ?thesis by (cases "find_trial db j") auto
qed

lemma status_of_set_status [registry_simps]:
  "status_of (set_status i k db) j = map_option (\<lambda>s. if j = i \<and> s \<in> set (transition_sources k) then k else s)
     (status_of db j)"
  by (cases "find_trial db j") (simp_all add: status_of_def registry_simps)

lemma add_event_frame [registry_simps]:
  "db_trials (add_event i k p ts db) = db_trials db" "db_outcomes (add_event i k p ts db) = db_outcomes db"
  "db_commitments (add_event i k p ts db) = db_commitments db"
  "db_events (add_event i k p ts db) = db_events db @ [\<lparr>ev_trial_id = i, ev_kind = k, ev_payload = p, ev_ts = ts\<rparr>]"
  by (simp_all add: add_event_def)

lemma commit_scope_frame [registry_simps]:
  "db_trials (commit_scope k c db) = db_trials db" "db_outcomes (commit_scope k c db) = db_outcomes db"
  "db_events (commit_scope k c db) = db_events db"
  "db_commitments (commit_scope k c db) = (case db_commitments db k of None \<Rightarrow> (db_commitments db)(k \<mapsto> c)
     | Some _ \<Rightarrow> db_commitments db)"
  by (simp_all add: commit_scope_def split: option.split)

text \<open>A view depends only on the tables it reads.\<close>

lemma views_cong:
  "db_trials x = db_trials y \<Longrightarrow> find_trial x i = find_trial y i"
  "db_trials x = db_trials y \<Longrightarrow> status_of x i = status_of y i"
  "db_trials x = db_trials y \<Longrightarrow> count_scope x k = count_scope y k"
  "db_events x = db_events y \<Longrightarrow> event_kinds x i = event_kinds y i"
  "db_outcomes x = db_outcomes y \<Longrightarrow> outcome_kinds x i = outcome_kinds y i"
  by (simp_all add: find_trial_def status_of_def count_scope_def event_kinds_def outcome_kinds_def)

lemma event_kinds_add_event [registry_simps]:
  "event_kinds (add_event i k p ts db) j = event_kinds db j @ (if j = i then [k] else [])"
  by (simp add: event_kinds_def registry_simps)

subsection \<open>What a call that returns has done\<close>

lemma validated_cap_Inr: "validated_cap budget = Inr cap \<Longrightarrow> budget = CapInt cap \<and> 1 \<le> cap \<and> cap \<le> max_scope_cap"
  by (auto simp: validated_cap_def split: cap_value.splits if_splits)

lemma register_trialD:
  assumes "register_trial sha256 json_valid budget r presented db = Inr db'"
  obtains s cap where "presented = Some s" "scope_key sha256 s = tr_scope_key r"
    "1 \<le> cap" "cap \<le> max_scope_cap" "count_scope db (tr_scope_key r) < cap"
    "\<And>c. db_commitments db (tr_scope_key r) = Some c \<Longrightarrow> fst c = cap"
    "find_trial db (tr_trial_id r) = None"
    "db' = add_event (tr_trial_id r) Registered (ScopePayload (tr_scope_key r)) (tr_created_at r)
       (commit_scope (tr_scope_key r) (cap, Some (tr_created_at r)) (db\<lparr>db_trials := db_trials db @ [new_row r s]\<rparr>))"
proof -
  obtain s where s: "presented = Some s" using assms by (cases presented) (auto simp: register_trial_def)
  obtain cap where cap: "validated_cap budget = Inr cap"
    using assms s by (cases "validated_cap budget") (auto simp: register_trial_def budget_check_def split: if_splits)
  note bounds = validated_cap_Inr [OF cap]
  have "scope_key sha256 s = tr_scope_key r" "count_scope db (tr_scope_key r) < cap"
      "\<And>c. db_commitments db (tr_scope_key r) = Some c \<Longrightarrow> fst c = cap"
      "find_trial db (tr_trial_id r) = None"
      "db' = add_event (tr_trial_id r) Registered (ScopePayload (tr_scope_key r)) (tr_created_at r)
         (commit_scope (tr_scope_key r) (cap, Some (tr_created_at r)) (db\<lparr>db_trials := db_trials db @ [new_row r s]\<rparr>))"
    using assms by (auto simp: register_trial_def budget_check_def insert_trial_def is_registered_def new_row_def
        s cap not_le raise_simps split: option.splits if_splits)
  with s bounds show thesis by (intro that) auto
qed

lemma record_outcomeD:
  assumes "record_outcome i kind p extra ts db = Inr db'"
  obtains s where "status_of db i = Some s" "s \<in> set (transition_sources kind)"
    "i \<notin> set (map ow_trial_id (db_outcomes db))"
    "db_trials db' = map (\<lambda>t. if tw_trial_id t = i then extra t else t) (db_trials (set_status i kind db))"
    "db_outcomes db' = db_outcomes db @ [\<lparr>ow_trial_id = i, ow_kind = kind, ow_detail = p, ow_ts = ts\<rparr>]"
    "db_events db' = db_events db @ [\<lparr>ev_trial_id = i, ev_kind = kind, ev_payload = p, ev_ts = ts\<rparr>]"
    "db_commitments db' = db_commitments db"
proof -
  have free: "i \<notin> set (map ow_trial_id (db_outcomes db))" and src: "check_source i kind db = Inr ()"
    and db': "db' = add_event i kind p ts ((set_status i kind (db\<lparr>db_outcomes := db_outcomes db
        @ [\<lparr>ow_trial_id = i, ow_kind = kind, ow_detail = p, ow_ts = ts\<rparr>]\<rparr>))\<lparr>db_trials :=
          map (\<lambda>t. if tw_trial_id t = i then extra t else t)
            (db_trials (set_status i kind (db\<lparr>db_outcomes := db_outcomes db
              @ [\<lparr>ow_trial_id = i, ow_kind = kind, ow_detail = p, ow_ts = ts\<rparr>]\<rparr>)))\<rparr>)"
    using assms by (auto simp: record_outcome_def Let_def split: if_splits sum.splits)
  obtain s where "status_of db i = Some s" "s \<in> set (transition_sources kind)"
    using src by (auto simp: check_source_def trial_status_of_def status_of_def split: option.splits if_splits)
  then show thesis
    by (rule that [OF _ _ free]) (simp_all add: db' registry_simps set_status_def)
qed

subsection \<open>The invariant is kept\<close>

lemma empty_inv: "registry_inv empty_db"
  by (simp add: registry_inv_def empty_db_def scope_within_def count_scope_def view_ok_def status_of_def
      find_trial_def event_kinds_def outcome_kinds_def)

lemma committed_fold_id:
  "(\<And>k. k \<in> set ks \<Longrightarrow> db_commitments db k \<noteq> None) \<Longrightarrow> fold (\<lambda>k. commit_scope k c) ks db = db"
proof (induction ks)
  case (Cons k ks)
  from Cons.prems have "db_commitments db k \<noteq> None" by simp
  then have "commit_scope k c db = db" by (auto simp: commit_scope_def split: option.split)
  then show ?case using Cons by simp
qed simp

text \<open>Every scope with trials is committed, so opening again changes nothing.\<close>

lemma open_inv:
  assumes inv: "registry_inv db" and opened: "open_registry budget columns db = Inr db'"
  shows "db' = db"
proof -
  obtain cap where db': "db' = fold (\<lambda>k. commit_scope k (cap, None)) (remdups (map tw_scope_key (db_trials db))) db"
    using opened by (auto simp: open_registry_def Let_def split: if_splits sum.splits)
  have "db_commitments db k \<noteq> None" if "k \<in> set (remdups (map tw_scope_key (db_trials db)))" for k
  proof
    assume "db_commitments db k = None"
    then have "count_scope db k = 0" using inv by (auto simp: registry_inv_def scope_within_def dest: spec [of _ k])
    with that show False by (auto simp: count_scope_def filter_empty_conv)
  qed
  then show ?thesis unfolding db' by (rule committed_fold_id)
qed

lemma register_inv:
  assumes inv: "registry_inv db" and call: "register_trial sha256 json_valid budget r presented db = Inr db'"
  shows "registry_inv db'"
proof -
  obtain s cap where cap: "1 \<le> cap" "cap \<le> max_scope_cap" "count_scope db (tr_scope_key r) < cap"
      "\<And>c. db_commitments db (tr_scope_key r) = Some c \<Longrightarrow> fst c = cap"
    and new: "find_trial db (tr_trial_id r) = None"
    and db': "db' = add_event (tr_trial_id r) Registered (ScopePayload (tr_scope_key r)) (tr_created_at r)
       (commit_scope (tr_scope_key r) (cap, Some (tr_created_at r)) (db\<lparr>db_trials := db_trials db @ [new_row r s]\<rparr>))"
    using register_trialD [OF call] by metis
  have trials: "db_trials db' = db_trials db @ [new_row r s]" by (simp add: db' registry_simps)
  have fresh_id: "tr_trial_id r \<notin> set (map tw_trial_id (db_trials db))"
    using new by (auto simp: find_trial_def find_None_iff)
  have status: "status_of db' i = (if i = tr_trial_id r then Some Registered else status_of db i)" for i
    using new by (auto simp: status_of_def find_trial_def trials find_key_append new_row_def split: option.splits)
  have kinds: "event_kinds db' i = event_kinds db i @ (if i = tr_trial_id r then [Registered] else [])" for i
    unfolding db' event_kinds_add_event by (simp add: event_kinds_def registry_simps)
  have outs: "outcome_kinds db' i = outcome_kinds db i" for i
    by (simp add: db' outcome_kinds_def registry_simps)
  have count: "count_scope db' k = count_scope db k + (if k = tr_scope_key r then 1 else 0)" for k
    by (simp add: count_scope_def trials new_row_def)
  have commits: "db_commitments db' = (case db_commitments db (tr_scope_key r) of
      None \<Rightarrow> (db_commitments db)(tr_scope_key r \<mapsto> (cap, Some (tr_created_at r)))
    | Some _ \<Rightarrow> db_commitments db)"
    by (simp add: db' registry_simps split: option.split)
  have view: "view_ok (status_of db i) (event_kinds db i) (outcome_kinds db i)" for i
    using inv by (simp add: registry_inv_def)
  have "view_ok (status_of db' i) (event_kinds db' i) (outcome_kinds db' i)" for i
  proof (cases "i = tr_trial_id r")
    case True
    then show ?thesis using view [of i] new unfolding status kinds outs
      by (simp add: view_ok_def status_of_def outcome_of_status_def)
  next
    case False
    then show ?thesis using view [of i] unfolding status kinds outs by simp
  qed
  moreover have "scope_within db' k" for k
  proof -
    have "scope_within db k" using inv by (simp add: registry_inv_def)
    then show ?thesis using cap
      by (auto simp: scope_within_def count commits split: option.splits)
  qed
  moreover have "distinct (map tw_trial_id (db_trials db'))"
    using inv fresh_id by (simp add: trials registry_inv_def new_row_def)
  ultimately show ?thesis by (simp add: registry_inv_def)
qed

lemma scope_within_cong:
  "db_commitments x = db_commitments y \<Longrightarrow> count_scope x k = count_scope y k \<Longrightarrow> scope_within x k = scope_within y k"
  by (auto simp: scope_within_def split: option.split)

lemma set_status_running_inv:
  assumes inv: "registry_inv db"
  shows "registry_inv (set_status i Running db)"
proof -
  have kinds: "event_kinds (set_status i Running db) j = event_kinds db j"
      "outcome_kinds (set_status i Running db) j = outcome_kinds db j" for j
    by (simp_all add: event_kinds_def outcome_kinds_def registry_simps)
  have "view_ok (status_of (set_status i Running db) j) (event_kinds db j) (outcome_kinds db j)" for j
  proof -
    have "view_ok (status_of db j) (event_kinds db j) (outcome_kinds db j)"
      using inv by (simp add: registry_inv_def)
    then show ?thesis
      by (auto simp: view_ok_def registry_simps outcome_of_status_def split: option.splits)
  qed
  then show ?thesis using inv
    by (simp add: registry_inv_def kinds registry_simps
        scope_within_cong [of "set_status i Running db" db])
qed

lemma status_of_running_event [registry_simps]: "status_of (running_event i ts db) j = status_of db j"
  by (simp add: running_event_def registry_simps views_cong(2) [of "add_event _ _ _ _ db" db])

lemma running_event_inv:
  assumes inv: "registry_inv db" and known: "status_of db i \<noteq> None"
  shows "registry_inv (running_event i ts db)"
proof -
  have same: "status_of (running_event i ts db) j = status_of db j"
      "outcome_kinds (running_event i ts db) j = outcome_kinds db j"
      "count_scope (running_event i ts db) k = count_scope db k" for j k
    by (auto simp: running_event_def registry_simps intro!: views_cong)
  have tables: "db_trials (running_event i ts db) = db_trials db"
      "db_commitments (running_event i ts db) = db_commitments db"
    by (simp_all add: running_event_def registry_simps)
  have "view_ok (status_of db j) (event_kinds (running_event i ts db) j) (outcome_kinds db j)" for j
  proof -
    have "view_ok (status_of db j) (event_kinds db j) (outcome_kinds db j)"
      using inv by (simp add: registry_inv_def)
    then show ?thesis using known
      by (cases "j = i") (auto simp: view_ok_def running_event_def registry_simps split: option.splits)
  qed
  then show ?thesis using inv
    by (simp add: registry_inv_def same tables scope_within_cong [of "running_event i ts db" db])
qed

lemma outcome_inv:
  assumes inv: "registry_inv db" and call: "record_outcome i kind p extra ts db = Inr db'"
    and kind: "is_outcome kind"
    and keeps: "\<And>t. tw_trial_id (extra t) = tw_trial_id t" "\<And>t. tw_scope_key (extra t) = tw_scope_key t"
      "\<And>t. tw_status (extra t) = tw_status t"
  shows "registry_inv db'"
    and "status_of db' j = (if j = i then Some kind else status_of db j)"
    and "status_of db i = Some Running"
    and "event_kinds db' j = event_kinds db j @ (if j = i then [kind] else [])"
proof -
  obtain s where src: "status_of db i = Some s" "s \<in> set (transition_sources kind)"
    and rows: "db_trials db' = map (\<lambda>t. if tw_trial_id t = i then extra t else t) (db_trials (set_status i kind db))"
    and tables: "db_outcomes db' = db_outcomes db @ [\<lparr>ow_trial_id = i, ow_kind = kind, ow_detail = p, ow_ts = ts\<rparr>]"
      "db_events db' = db_events db @ [\<lparr>ev_trial_id = i, ev_kind = kind, ev_payload = p, ev_ts = ts\<rparr>]"
      "db_commitments db' = db_commitments db"
    by (rule record_outcomeD [OF call]) (rule that)
  have run: "status_of db i = Some Running" using src kind by (cases kind) auto
  let ?set = "set_status i kind db"
  have find: "find_trial db' j = map_option (\<lambda>t. if tw_trial_id t = i then extra t else t) (find_trial ?set j)" for j
    using rewrite_rows(1) [of "\<lambda>t. if tw_trial_id t = i then extra t else t" ?set j] keeps rows
      views_cong(1) [of db' "?set\<lparr>db_trials := map (\<lambda>t. if tw_trial_id t = i then extra t else t) (db_trials ?set)\<rparr>"]
    by simp
  have count: "count_scope db' k = count_scope db k" for k
    using rewrite_rows(2) [of "\<lambda>t. if tw_trial_id t = i then extra t else t" ?set k] keeps rows
      views_cong(3) [of db' "?set\<lparr>db_trials := map (\<lambda>t. if tw_trial_id t = i then extra t else t) (db_trials ?set)\<rparr>"]
    by (simp add: registry_simps)
  have ids: "map tw_trial_id (db_trials db') = map tw_trial_id (db_trials db)"
    using rewrite_rows(3) [of "\<lambda>t. if tw_trial_id t = i then extra t else t" ?set] keeps rows
    by (simp add: registry_simps)
  have status: "status_of db' j = (if j = i then Some kind else status_of db j)" for j
  proof -
    have "status_of db' j = status_of ?set j" using keeps(3) by (cases "find_trial ?set j") (auto simp: status_of_def find)
    then show ?thesis using run kind by (cases kind) (auto simp: registry_simps option.map_ident)
  qed
  have kinds: "event_kinds db' j = event_kinds db j @ (if j = i then [kind] else [])"
      "outcome_kinds db' j = outcome_kinds db j @ (if j = i then [kind] else [])" for j
    by (simp_all add: event_kinds_def outcome_kinds_def tables)
  have "view_ok (status_of db' j) (event_kinds db' j) (outcome_kinds db' j)" for j
  proof -
    have "view_ok (status_of db j) (event_kinds db j) (outcome_kinds db j)"
      using inv by (simp add: registry_inv_def)
    then show ?thesis unfolding status kinds using run kind
      by (cases "j = i"; cases kind) (auto simp: view_ok_def outcome_of_status_def)
  qed
  then show "registry_inv db'" using inv
    by (simp add: registry_inv_def ids count tables(3) scope_within_cong [of db' db])
  show "status_of db' j = (if j = i then Some kind else status_of db j)" by (rule status)
  show "status_of db i = Some Running" by (rule run)
  show "event_kinds db' j = event_kinds db j @ (if j = i then [kind] else [])" by (rule kinds)
qed

lemmas complete_keeps = outcome_inv [where extra = "\<lambda>t. t\<lparr>tw_outcome_at := Some ts, tw_metrics_uri := Some uri\<rparr>"
    and kind = Completed for ts uri, simplified]
lemmas fail_keeps = outcome_inv [where extra = "\<lambda>t. t\<lparr>tw_outcome_at := Some ts, tw_failure_reason := Some why\<rparr>"
    and kind = Failed for ts why, simplified]

subsection \<open>Reachable states\<close>

lemma phases_grow:
  assumes "phases_ok db ph" "\<And>i. status_of db i \<noteq> None \<Longrightarrow> status_of db' i \<noteq> None"
    "\<And>i. phase_trial q = Some i \<Longrightarrow> status_of db' i \<noteq> None"
  shows "phases_ok db' (ph(c := q))" "phases_ok db' ph"
  using assms by (auto simp: phases_ok_def)

lemma step_inv:
  assumes "registry_step sha256 json_valid (db, ph) (db', ph')" "registry_inv db" "phases_ok db ph"
  shows "registry_inv db' \<and> phases_ok db' ph'"
  using assms(1)
proof cases
  case (open_db budget columns)
  then show ?thesis using open_inv assms by blast
next
  case (register c budget r s)
  have "status_of db' i = status_of db i \<or> status_of db i = None" for i
    by (rule register_trialD [OF register(3)])
       (auto simp: status_of_def find_trial_def registry_simps find_key_append split: option.split)
  then have "status_of db i \<noteq> None \<Longrightarrow> status_of db' i \<noteq> None" for i by metis
  then show ?thesis using register register_inv assms phases_grow(2) [of db ph db' Idle] by auto
next
  case (match c i hashes u ts)
  have "status_of db i \<noteq> None"
    using match by (auto simp: check_provenance_def status_of_def split: option.splits)
  then show ?thesis using match assms phases_grow(1) [of db ph db "Matched i ts" c] by simp
next
  case (check c i ts u)
  have "status_of db i \<noteq> None" using check assms(3) by (auto simp: phases_ok_def dest!: spec [of _ c])
  then show ?thesis using check assms phases_grow(1) [of db ph db "Checked i ts" c] by simp
next
  case (update c i ts)
  have "status_of db i \<noteq> None" using update assms(3) by (auto simp: phases_ok_def dest!: spec [of _ c])
  then show ?thesis
    using update assms set_status_running_inv phases_grow(1) [of db ph db' "Updated i ts" c]
    by (auto simp: registry_simps)
next
  case (event c i ts)
  have known: "status_of db i \<noteq> None" using event assms(3) by (auto simp: phases_ok_def dest!: spec [of _ c])
  have "status_of db' j = status_of db j" for j
    unfolding event by (auto simp: running_event_def registry_simps intro!: views_cong)
  then show ?thesis
    using event known assms running_event_inv phases_grow(1) [of db ph db' Idle c] by auto
next
  case (complete c i uri ts)
  have "status_of db j \<noteq> None \<Longrightarrow> status_of db' j \<noteq> None" for j
    using complete_keeps(2) [OF assms(2) complete(3) [unfolded complete_trial_def]] by simp
  moreover have "registry_inv db'" by (rule complete_keeps(1) [OF assms(2) complete(3) [unfolded complete_trial_def]])
  ultimately show ?thesis using complete assms phases_grow(2) [of db ph db' Idle] by auto
next
  case (fail c i why ts)
  have "status_of db j \<noteq> None \<Longrightarrow> status_of db' j \<noteq> None" for j
    using fail_keeps(2) [OF assms(2) fail(3) [unfolded fail_trial_def]] by simp
  moreover have "registry_inv db'" by (rule fail_keeps(1) [OF assms(2) fail(3) [unfolded fail_trial_def]])
  ultimately show ?thesis using fail assms phases_grow(2) [of db ph db' Idle] by auto
next
  case (give_up c)
  then show ?thesis using assms phases_grow(1) [of db ph db Idle c] by simp
qed

lemma registry_reached_inv:
  "registry_reached sha256 json_valid (db, ph) \<Longrightarrow> registry_inv db \<and> phases_ok db ph"
proof (induction "(db, ph)" arbitrary: db ph rule: registry_reached.induct)
  case fresh
  then show ?case using empty_inv by (simp add: phases_ok_def)
next
  case (next_step x)
  then show ?case using step_inv by (cases x) blast
qed

text \<open>Claim C17. Whatever registries opened on one database do, in any interleaving of their transactions
  and of the statements of \<open>mark_running\<close>, and wherever a connection stops: trial ids are unique, a
  scope never holds more trials than the cap it committed to at its first registration and never more
  than 32, a trial has exactly one recorded outcome when its status is an outcome (that one) and none
  otherwise, the audit trail starts with the registration and carries that outcome once, and nothing
  is recorded about a trial that was not registered.\<close>

theorem registry_safe:
  assumes "registry_reached sha256 json_valid (db, ph)"
  shows "distinct (map tw_trial_id (db_trials db))
    \<and> (\<forall>k. (case db_commitments db k of None \<Rightarrow> count_scope db k = 0
          | Some (cap, _) \<Rightarrow> count_scope db k \<le> cap) \<and> count_scope db k \<le> 32)
    \<and> (\<forall>i. case status_of db i of
           None \<Rightarrow> event_kinds db i = [] \<and> outcome_kinds db i = []
         | Some st \<Rightarrow> outcome_kinds db i = outcome_of_status st
             \<and> (\<exists>rest. event_kinds db i = Registered # rest \<and> Registered \<notin> set rest
                  \<and> filter is_outcome rest = outcome_of_status st))"
proof (intro conjI allI)
  have inv: "registry_inv db" using registry_reached_inv [OF assms] ..
  show "distinct (map tw_trial_id (db_trials db))" using inv by (simp add: registry_inv_def)
  fix k
  have "scope_within db k" using inv by (simp add: registry_inv_def)
  then show "case db_commitments db k of None \<Rightarrow> count_scope db k = 0 | Some (cap, _) \<Rightarrow> count_scope db k \<le> cap"
      and "count_scope db k \<le> 32"
    by (auto simp: scope_within_def max_scope_cap_def split: option.splits)
next
  have inv: "registry_inv db" using registry_reached_inv [OF assms] ..
  fix i
  have "view_ok (status_of db i) (event_kinds db i) (outcome_kinds db i)" using inv by (simp add: registry_inv_def)
  then show "case status_of db i of
           None \<Rightarrow> event_kinds db i = [] \<and> outcome_kinds db i = []
         | Some st \<Rightarrow> outcome_kinds db i = outcome_of_status st
             \<and> (\<exists>rest. event_kinds db i = Registered # rest \<and> Registered \<notin> set rest
                  \<and> filter is_outcome rest = outcome_of_status st)"
    by (auto simp: view_ok_def split: option.splits)
qed

text \<open>A concrete interleaving: two connections both check that the trial is registered, the first one
  starts and completes it, then the second one's update changes no row and its event is still
  written, after the outcome.\<close>

definition race_sha :: "string \<Rightarrow> string" where "race_sha _ = ''abc''"
definition race_valid :: "string \<Rightarrow> bool" where "race_valid _ = True"

definition race_scope :: trial_scope where
  "race_scope = \<lparr>sc_protocol_id = ''m0'', sc_protocol_hash = ''h'', sc_outer_fold_id = ''f0'',
     sc_target_horizon = ''5'', sc_feature_set_id = ''v2'', sc_model_family = ''gbm''\<rparr>"

definition race_record :: trial_record where
  "race_record = \<lparr>tr_trial_id = ''T1'', tr_parent_trial_id = None, tr_created_at = 10, tr_hypothesis = ''momentum'',
     tr_git_sha = ''g'', tr_config_hash = ''c'', tr_dataset_manifest_hash = ''d'',
     tr_train_window = None, tr_validation_window = None, tr_test_window = None,
     tr_hyperparameters = ''{}'', tr_scope_key = scope_key race_sha race_scope,
     tr_status = Registered, tr_metrics_uri = None, tr_record_failure_reason = None\<rparr>"

definition race_hashes :: "ident \<times> ident \<times> ident" where "race_hashes = (''g'', ''c'', ''d'')"

definition race_registered :: registry_db where
  "race_registered = projr (register_trial race_sha race_valid (CapInt 4) race_record (Some race_scope) empty_db)"
definition race_started :: registry_db where
  "race_started = running_event ''T1'' 11 (set_status ''T1'' Running race_registered)"
definition race_completed :: registry_db where
  "race_completed = projr (complete_trial ''T1'' ''file:m'' 13 race_started)"
definition race_db :: registry_db where
  "race_db = running_event ''T1'' 12 (set_status ''T1'' Running race_completed)"

lemma race_calls:
  "register_trial race_sha race_valid (CapInt 4) race_record (Some race_scope) empty_db = Inr race_registered"
  "check_provenance ''T1'' race_hashes race_registered = Inr ()"
  "check_source ''T1'' Running race_registered = Inr ()"
  "complete_trial ''T1'' ''file:m'' 13 race_started = Inr race_completed"
proof -
  have "returned (register_trial race_sha race_valid (CapInt 4) race_record (Some race_scope) empty_db)" by code_simp
  then show "register_trial race_sha race_valid (CapInt 4) race_record (Some race_scope) empty_db = Inr race_registered"
    unfolding race_registered_def by (rule returned_projr)
  show "check_provenance ''T1'' race_hashes race_registered = Inr ()" by code_simp
  show "check_source ''T1'' Running race_registered = Inr ()" by code_simp
  have "returned (complete_trial ''T1'' ''file:m'' 13 race_started)" by code_simp
  then show "complete_trial ''T1'' ''file:m'' 13 race_started = Inr race_completed"
    unfolding race_completed_def by (rule returned_projr)
qed

lemma race_reached: "registry_reached race_sha race_valid (race_db, \<lambda>_. Idle)"
proof -
  let ?s = "registry_step race_sha race_valid" and ?r = "registry_reached race_sha race_valid"
  let ?ph = "\<lambda>p q. (\<lambda>_. Idle)(0 := p, 1 := q)"
  have idle: "?ph Idle Idle = (\<lambda>_. Idle)" by auto
  have s0: "?r (race_registered, ?ph Idle Idle)"
    by (rule next_step [OF fresh], unfold idle) (rule register, simp, rule race_calls(1))
  have s1: "?r (race_registered, ?ph (Matched ''T1'' 11) Idle)"
    using next_step [OF s0 match [of _ 0, OF _ race_calls(2)]] by (simp add: fun_upd_twist)
  have s2: "?r (race_registered, ?ph (Matched ''T1'' 11) (Matched ''T1'' 12))"
    using next_step [OF s1 match [of _ 1, OF _ race_calls(2)]] by simp
  have s3: "?r (race_registered, ?ph (Checked ''T1'' 11) (Matched ''T1'' 12))"
    using next_step [OF s2 check [of _ 0, OF _ race_calls(3)]] by (simp add: fun_upd_twist)
  have s4: "?r (race_registered, ?ph (Checked ''T1'' 11) (Checked ''T1'' 12))"
    using next_step [OF s3 check [of _ 1, OF _ race_calls(3)]] by simp
  have s5: "?r (set_status ''T1'' Running race_registered, ?ph (Updated ''T1'' 11) (Checked ''T1'' 12))"
    using next_step [OF s4 update [of _ 0]] by (simp add: fun_upd_twist)
  have s6: "?r (race_started, ?ph Idle (Checked ''T1'' 12))"
    using next_step [OF s5 event [of _ 0]] by (simp add: fun_upd_twist race_started_def)
  have s7: "?r (race_completed, ?ph Idle (Checked ''T1'' 12))"
    by (rule next_step [OF s6]) (rule complete [of _ 0], simp, rule race_calls(4))
  have s8: "?r (set_status ''T1'' Running race_completed, ?ph Idle (Updated ''T1'' 12))"
    using next_step [OF s7 update [of _ 1]] by simp
  have "?r (race_db, ?ph Idle Idle)"
    using next_step [OF s8 event [of _ 1]] by (simp add: race_db_def)
  then show ?thesis unfolding idle .
qed

text \<open>The trail of that trial: a start after the outcome, which no status ever had.\<close>

lemma late_running_event:
  "event_kinds race_db ''T1'' = [Registered, Running, Completed, Running]"
  "status_of race_db ''T1'' = Some Completed"
  by code_simp+

lemma registry_safe_witness:
  "distinct (map tw_trial_id (db_trials race_db))
   \<and> count_scope race_db (scope_key race_sha race_scope) = 1
   \<and> outcome_kinds race_db ''T1'' = [Completed]"
proof (intro conjI)
  note safe = registry_safe [OF race_reached]
  show "distinct (map tw_trial_id (db_trials race_db))" using safe by simp
  show "count_scope race_db (scope_key race_sha race_scope) = 1" by code_simp
  show "outcome_kinds race_db ''T1'' = [Completed]"
    using safe [THEN conjunct2, THEN conjunct2, rule_format, of "''T1''"] late_running_event(2)
    by (simp add: outcome_of_status_def)
qed

subsection \<open>Calls one after the other\<close>

datatype registry_call =
    OpenDb "string list"
  | Register trial_record "trial_scope option"
  | MarkRunning ident "ident \<times> ident \<times> ident" instant
  | Complete ident string instant
  | Fail ident string instant

fun registry_call_result ::
  "(string \<Rightarrow> string) \<Rightarrow> (string \<Rightarrow> bool) \<Rightarrow> cap_value \<Rightarrow> registry_call \<Rightarrow> registry_db \<Rightarrow> registry_error + registry_db" where
  "registry_call_result sha256 json_valid budget (OpenDb columns) db = open_registry budget columns db"
| "registry_call_result sha256 json_valid budget (Register r s) db = register_trial sha256 json_valid budget r s db"
| "registry_call_result sha256 json_valid budget (MarkRunning i hashes ts) db = mark_running i hashes ts db"
| "registry_call_result sha256 json_valid budget (Complete i uri ts) db = complete_trial i uri ts db"
| "registry_call_result sha256 json_valid budget (Fail i why ts) db = fail_trial i why ts db"

text \<open>A call that raises leaves the database as it was.\<close>

definition registry_apply ::
  "(string \<Rightarrow> string) \<Rightarrow> (string \<Rightarrow> bool) \<Rightarrow> cap_value \<Rightarrow> registry_call \<Rightarrow> registry_db \<Rightarrow> registry_db" where
  "registry_apply sha256 json_valid budget call db =
     (case registry_call_result sha256 json_valid budget call db of Inl _ \<Rightarrow> db | Inr db' \<Rightarrow> db')"

fun status_path :: "trial_status \<Rightarrow> trial_status list" where
  "status_path Registered = [Registered]"
| "status_path Running = [Registered, Running]"
| "status_path k = [Registered, Running, k]"

definition audited :: "registry_db \<Rightarrow> bool" where
  "audited db \<longleftrightarrow> (\<forall>i. event_kinds db i = (case status_of db i of None \<Rightarrow> [] | Some k \<Rightarrow> status_path k))"

lemma register_audited:
  assumes "audited db" "register_trial sha256 json_valid budget r presented db = Inr db'"
  shows "audited db'"
proof (rule register_trialD [OF assms(2)])
  fix s cap
  assume new: "find_trial db (tr_trial_id r) = None"
    and db': "db' = add_event (tr_trial_id r) Registered (ScopePayload (tr_scope_key r)) (tr_created_at r)
       (commit_scope (tr_scope_key r) (cap, Some (tr_created_at r)) (db\<lparr>db_trials := db_trials db @ [new_row r s]\<rparr>))"
  have trials: "db_trials db' = db_trials db @ [new_row r s]" by (simp add: db' registry_simps)
  have status: "status_of db' i = (if i = tr_trial_id r then Some Registered else status_of db i)" for i
    using new by (auto simp: status_of_def find_trial_def trials find_key_append new_row_def split: option.splits)
  have kinds: "event_kinds db' i = event_kinds db i @ (if i = tr_trial_id r then [Registered] else [])" for i
    unfolding db' event_kinds_add_event by (simp add: event_kinds_def registry_simps)
  have "status_of db (tr_trial_id r) = None" using new by (simp add: status_of_def)
  then show ?thesis using assms(1) by (simp add: audited_def status kinds)
qed

lemma mark_running_Inr:
  "mark_running i hashes ts db = Inr db' \<longleftrightarrow> (\<exists>t. find_trial db i = Some t \<and> tw_provenance t = hashes
     \<and> tw_status t = Registered \<and> db' = running_event i ts (set_status i Running db))"
  by (auto simp: mark_running_def check_provenance_def check_source_def trial_status_of_def
      split: option.splits if_splits)

lemma mark_running_audited:
  assumes "audited db" "mark_running i hashes ts db = Inr db'"
  shows "audited db'"
proof -
  have reg: "status_of db i = Some Registered" and db': "db' = running_event i ts (set_status i Running db)"
    using assms(2) by (auto simp: mark_running_Inr status_of_def)
  have status: "status_of db' j = (if j = i then Some Running else status_of db j)" for j
    using reg unfolding db' by (auto simp: registry_simps option.map_ident)
  have kinds: "event_kinds db' j = event_kinds db j @ (if j = i then [Running] else [])" for j
    unfolding db' running_event_def event_kinds_add_event by (simp add: event_kinds_def registry_simps)
  show ?thesis using assms(1) reg by (auto simp: audited_def status kinds)
qed

lemma apply_audited:
  assumes "registry_inv db" "audited db"
  shows "registry_inv (registry_apply sha256 json_valid budget call db)
    \<and> audited (registry_apply sha256 json_valid budget call db)"
proof (cases "registry_call_result sha256 json_valid budget call db")
  case (Inl e)
  then show ?thesis using assms by (simp add: registry_apply_def)
next
  case (Inr db')
  have "registry_inv db' \<and> audited db'"
  proof (cases call)
    case (OpenDb columns)
    then show ?thesis using Inr open_inv assms by auto
  next
    case (Register r s)
    then show ?thesis using Inr register_inv register_audited assms by auto
  next
    case (MarkRunning i hashes ts)
    then have db': "mark_running i hashes ts db = Inr db'" using Inr by simp
    then have "status_of (set_status i Running db) i \<noteq> None"
      by (auto simp: mark_running_Inr status_of_def registry_simps)
    then have "registry_inv db'"
      using db' running_event_inv [OF set_status_running_inv [OF assms(1)]] by (auto simp: mark_running_Inr)
    then show ?thesis using mark_running_audited [OF assms(2) db'] by simp
  next
    case (Complete i uri ts)
    then have call: "record_outcome i Completed (MetricsPayload uri)
       (\<lambda>t. t\<lparr>tw_outcome_at := Some ts, tw_metrics_uri := Some uri\<rparr>) ts db = Inr db'"
      using Inr by (simp add: complete_trial_def)
    show ?thesis using complete_keeps [OF assms(1) call] assms(2) by (auto simp: audited_def)
  next
    case (Fail i why ts)
    then have call: "record_outcome i Failed (ReasonPayload why)
       (\<lambda>t. t\<lparr>tw_outcome_at := Some ts, tw_failure_reason := Some why\<rparr>) ts db = Inr db'"
      using Inr by (simp add: fail_trial_def)
    show ?thesis using fail_keeps [OF assms(1) call] assms(2) by (auto simp: audited_def)
  qed
  then show ?thesis using Inr by (simp add: registry_apply_def)
qed

text \<open>Claim C19. When calls do not interleave, with any budgets, refused calls included, the audit trail
  of every trial is exactly the path its status took: nothing before the registration, each
  transition once and in order, and an outcome only after the trial was running.\<close>

theorem registry_audit_trail:
  "event_kinds (fold (\<lambda>(budget, call). registry_apply sha256 json_valid budget call) calls empty_db) i
   = (case status_of (fold (\<lambda>(budget, call). registry_apply sha256 json_valid budget call) calls empty_db) i of
        None \<Rightarrow> [] | Some k \<Rightarrow> status_path k)"
proof -
  have "registry_inv db \<Longrightarrow> audited db \<Longrightarrow>
      audited (fold (\<lambda>(budget, call). registry_apply sha256 json_valid budget call) calls db)" for db
  proof (induction calls arbitrary: db)
    case (Cons c calls)
    then show ?case using apply_audited by (cases c) simp
  qed simp
  moreover have "audited empty_db"
    by (simp add: audited_def event_kinds_def status_of_def find_trial_def empty_db_def)
  ultimately show ?thesis using empty_inv by (simp add: audited_def)
qed

end
