(* ===== verification/ActionGraph.thy ===== *)
theory ActionGraph
  imports Prelude
begin

text \<open>
  The structural checker of action plans, \<open>action_graph/proposal.py\<close>. A plan is the decoded JSON the
  schema admits; a JSON object is a list of its entries, whose keys are distinct. The JSON-schema
  validator is the parameter \<open>schema_errors\<close> (its messages in path order) and the SHA-256 of a
  payload's canonical bytes is \<open>payload_sha\<close>. The deque, the in-degrees, the children and the ancestor
  sets of the scheduling loop are the arguments of \<open>schedule\<close>; an in-degree is a Python integer.
\<close>

subsection \<open>Plans and contracts\<close>

datatype input_binding =
    ArtifactInput (bound_artifact: ident) (expected_type: ident)
  | NodeInput (producer: ident) (output_name: ident) (expected_type: ident)

record plan_node =
  nd_id :: ident
  nd_operation :: ident
  nd_operation_version :: string
  nd_owner_role :: string
  nd_effect_class :: string
  nd_target_environment :: string
  nd_dependencies :: "(ident \<times> string list) list"
  nd_inputs :: "(ident \<times> input_binding) list"
  nd_outputs :: "(ident \<times> ident) list"
  nd_required_guards :: "ident list"
  nd_retry_mode :: string
  nd_on_failure :: string

record 'p plan_artifact =
  pa_id :: ident
  pa_kind :: ident
  pa_sha256 :: string
  pa_payload :: 'p

record 'p action_plan =
  ap_nodes :: "plan_node list"
  ap_artifacts :: "'p plan_artifact list"
  ap_links :: "(ident \<times> ident) list"

record operation_contract =
  op_operation :: ident
  op_version :: string
  op_owner_role :: string
  op_effect_class :: string
  op_target_environment :: string
  op_outputs :: "(ident \<times> ident) list"
  op_input_types :: "(ident \<times> ident) list"

datatype model_error =
    SchemaInvalid string | DuplicateNodeId | DuplicateArtifactId | AmbiguousObjectId
  | FixturePayloadHashMismatch | DuplicateOperationContract | DuplicateDependency | UnknownDependency
  | SchedulingCycle | UnregisteredOperation | OperationContractMismatch string
  | InputPortContractMismatch | UnknownArtifact | ArtifactTypeMismatch
  | InputProducerNotScheduledAncestor | OutputPortTypeMismatch | PaperGuardMissing
  | PaperOwnerOrEnvironment | PaperRetryRequiresReconciliation | PaperFailureMustPreserveUncertainty
  | PaperAuthorityBindingMissing | AuthorityChangeOwnerMissing | UnknownLinkEndpoint

record check_receipt =
  cr_node_count :: nat
  cr_dependency_count :: nat
  cr_fixture_artifact_count :: nat
  cr_topological_order :: "ident list"
  cr_execution_authorized :: bool
  cr_broker_contacted :: bool

text \<open>Equality of two dicts, and \<open>dict.get\<close>.\<close>

definition same_dict :: "('k \<times> 'v) list \<Rightarrow> ('k \<times> 'v) list \<Rightarrow> bool" where
  "same_dict a b \<longleftrightarrow> set a = set b"

subsection \<open>The dependency graph\<close>

text \<open>The nodes in order: repeated parents are refused before unknown ones; each dependency is an edge
  from the parent, appended to its children.\<close>

definition parents :: "plan_node \<Rightarrow> ident list" where
  "parents n = map fst (nd_dependencies n)"

fun dependency_edges :: "ident list \<Rightarrow> plan_node list \<Rightarrow> model_error + (ident \<times> ident) list" where
  "dependency_edges ids [] = Inr []"
| "dependency_edges ids (n # ns) =
     (if \<not> distinct (parents n) then Inl DuplicateDependency
      else if \<not> list_all (\<lambda>p. p \<in> set ids) (parents n) then Inl UnknownDependency
      else case dependency_edges ids ns of
          Inl e \<Rightarrow> Inl e
        | Inr edges \<Rightarrow> Inr (map (\<lambda>p. (p, nd_id n)) (parents n) @ edges))"

definition indegree :: "(ident \<times> ident) list \<Rightarrow> ident \<Rightarrow> int" where
  "indegree edges n = int (length (filter (\<lambda>e. snd e = n) edges))"

definition children :: "(ident \<times> ident) list \<Rightarrow> ident \<Rightarrow> ident list" where
  "children edges p = map snd (filter (\<lambda>e. fst e = p) edges)"

subsection \<open>The scheduling loop\<close>

type_synonym ancestry = "ident \<Rightarrow> ident set"

text \<open>The inner loop over the children of the node just scheduled.\<close>

fun relax :: "ident \<Rightarrow> ident list \<Rightarrow> ident list \<Rightarrow> ancestry \<Rightarrow> (ident \<Rightarrow> int)
    \<Rightarrow> ident list \<times> ancestry \<times> (ident \<Rightarrow> int)" where
  "relax current [] ready anc deg = (ready, anc, deg)"
| "relax current (child # rest) ready anc deg =
     (let anc1 = anc(child := insert current (anc child));
          anc2 = anc1(child := anc1 child \<union> anc1 current);
          deg1 = deg(child := deg child - 1)
      in relax current rest (if deg1 child = 0 then ready @ [child] else ready) anc2 deg1)"

definition waiting :: "(ident \<times> ident) list \<Rightarrow> (ident \<Rightarrow> int) \<Rightarrow> ident set" where
  "waiting edges deg = {n \<in> snd ` set edges. deg n > 0}"

lemma relax_waiting:
  assumes "set cs \<subseteq> snd ` set edges" "relax current cs ready anc deg = (ready', anc', deg')"
  shows "length ready' + card (waiting edges deg') = length ready + card (waiting edges deg)"
  using assms
proof (induction cs arbitrary: ready anc deg)
  case (Cons c cs)
  let ?deg = "deg(c := deg c - 1)"
  have fin: "finite (waiting edges deg)" by (simp add: waiting_def)
  have edge: "c \<in> snd ` set edges" using Cons.prems(1) by simp
  have rest: "length ready' + card (waiting edges deg')
      = length (if ?deg c = 0 then ready @ [c] else ready) + card (waiting edges ?deg)"
    using Cons.IH [OF _ Cons.prems(2) [unfolded relax.simps(2) Let_def]] Cons.prems(1)
    by (simp add: fun_upd_def)
  show ?case
  proof (cases "deg c = 1")
    case True
    have "waiting edges ?deg = waiting edges deg - {c}" using True by (auto simp: waiting_def)
    moreover have "c \<in> waiting edges deg" using edge True by (simp add: waiting_def)
    ultimately have "card (waiting edges deg) = Suc (card (waiting edges ?deg))"
      using fin by (metis card.remove)
    then show ?thesis using rest True by simp
  next
    case False
    have "waiting edges ?deg = waiting edges deg" using False by (auto simp: waiting_def)
    then show ?thesis using rest False by simp
  qed
qed simp

text \<open>The outer loop. Every round takes one node off the deque; a node enters it only when its
  in-degree falls from one to zero, so deque and waiting nodes together get fewer.\<close>

function schedule :: "(ident \<times> ident) list \<Rightarrow> ident list \<Rightarrow> ident list \<Rightarrow> ancestry \<Rightarrow> (ident \<Rightarrow> int)
    \<Rightarrow> ident list \<times> ancestry" where
  "schedule edges [] order anc deg = (order, anc)"
| "schedule edges (current # ready) order anc deg =
     (case relax current (children edges current) ready anc deg of
        (ready', anc', deg') \<Rightarrow> schedule edges ready' (order @ [current]) anc' deg')"
  by pat_completeness auto
termination
proof (relation "measure (\<lambda>(edges, ready, order, anc, deg). length ready + card (waiting edges deg))")
  fix edges current ready order anc deg ready' y anc' deg'
  assume "(ready', y) = relax current (children edges current) ready anc deg" "(anc', deg') = y"
  then have "relax current (children edges current) ready anc deg = (ready', anc', deg')" by simp
  then have "length ready' + card (waiting edges deg') = length ready + card (waiting edges deg)"
    by (rule relax_waiting [rotated]) (auto simp: children_def)
  then show "((edges, ready', order @ [current], anc', deg'), (edges, current # ready, order, anc, deg))
      \<in> measure (\<lambda>(edges, ready, order, anc, deg). length ready + card (waiting edges deg))" by simp
qed simp

definition topological_order :: "ident list \<Rightarrow> (ident \<times> ident) list \<Rightarrow> ident list \<times> ancestry" where
  "topological_order ids edges =
     schedule edges (sort (filter (\<lambda>i. indegree edges i = 0) ids)) [] (\<lambda>_. {}) (indegree edges)"

subsection \<open>The nodes against their contracts\<close>

definition find_contract :: "operation_contract list \<Rightarrow> plan_node \<Rightarrow> operation_contract option" where
  "find_contract ops n =
     find (\<lambda>c. op_operation c = nd_operation n \<and> op_version c = nd_operation_version n) ops"

definition actual_types :: "plan_node \<Rightarrow> (ident \<times> ident) list" where
  "actual_types n = map (\<lambda>(k, b). (k, expected_type b)) (nd_inputs n)"

fun check_binding ::
  "plan_node list \<Rightarrow> 'p plan_artifact list \<Rightarrow> ident set \<Rightarrow> input_binding \<Rightarrow> model_error option" where
  "check_binding nodes artifacts ancestors (ArtifactInput i t) =
     (case find (\<lambda>a. pa_id a = i) artifacts of
        None \<Rightarrow> Some UnknownArtifact
      | Some a \<Rightarrow> if pa_kind a \<noteq> t then Some ArtifactTypeMismatch else None)"
| "check_binding nodes artifacts ancestors (NodeInput source port t) =
     (if source \<notin> ancestors then Some InputProducerNotScheduledAncestor
      else case find (\<lambda>n. nd_id n = source) nodes of
          None \<Rightarrow> Some OutputPortTypeMismatch
        | Some n \<Rightarrow> if map_of (nd_outputs n) port \<noteq> Some t then Some OutputPortTypeMismatch else None)"

fun first_error :: "('a \<Rightarrow> model_error option) \<Rightarrow> 'a list \<Rightarrow> model_error option" where
  "first_error f [] = None"
| "first_error f (x # xs) = (case f x of None \<Rightarrow> first_error f xs | Some e \<Rightarrow> Some e)"

definition paper_guards :: "string list" where
  "paper_guards = [''mandate_active'', ''permit_active'', ''account_bound'', ''current_owner'',
     ''fresh_risk_snapshot'', ''fresh_quotes'', ''effect_hash_bound'']"

definition check_paper :: "plan_node \<Rightarrow> model_error option" where
  "check_paper n =
     (if \<not> set paper_guards \<subseteq> set (nd_required_guards n) then Some PaperGuardMissing
      else if nd_owner_role n \<noteq> ''broker_gateway'' \<or> nd_target_environment n \<noteq> ''paper''
      then Some PaperOwnerOrEnvironment
      else if nd_retry_mode n \<noteq> ''reconcile_before_retry'' then Some PaperRetryRequiresReconciliation
      else if nd_on_failure n \<noteq> ''preserve_uncertain_effect''
      then Some PaperFailureMustPreserveUncertainty
      else if \<not> set [''EffectPermit'', ''OrderIntent'', ''RiskReservation''] \<subseteq> snd ` set (actual_types n)
      then Some PaperAuthorityBindingMissing
      else None)"

definition check_authority :: "plan_node \<Rightarrow> model_error option" where
  "check_authority n =
     (if nd_owner_role n \<noteq> ''operator'' \<or> ''authenticated_operator'' \<notin> set (nd_required_guards n)
      then Some AuthorityChangeOwnerMissing else None)"

definition check_contract :: "operation_contract \<Rightarrow> plan_node \<Rightarrow> model_error option" where
  "check_contract c n =
     (if nd_owner_role n \<noteq> op_owner_role c then Some (OperationContractMismatch ''owner_role'')
      else if nd_effect_class n \<noteq> op_effect_class c then Some (OperationContractMismatch ''effect_class'')
      else if nd_target_environment n \<noteq> op_target_environment c
      then Some (OperationContractMismatch ''target_environment'')
      else if \<not> same_dict (nd_outputs n) (op_outputs c) then Some (OperationContractMismatch ''outputs'')
      else if \<not> same_dict (actual_types n) (op_input_types c) then Some InputPortContractMismatch
      else None)"

text \<open>One round of the loop over the nodes: the contract, the bindings, then the conditions of the two
  effect classes with extra guards.\<close>

definition check_node ::
  "operation_contract list \<Rightarrow> plan_node list \<Rightarrow> 'p plan_artifact list \<Rightarrow> ancestry \<Rightarrow> plan_node
     \<Rightarrow> model_error option" where
  "check_node ops nodes artifacts anc n = (case find_contract ops n of
      None \<Rightarrow> Some UnregisteredOperation
    | Some c \<Rightarrow> (case check_contract c n of
          Some e \<Rightarrow> Some e
        | None \<Rightarrow>
            (case first_error (\<lambda>(k, b). check_binding nodes artifacts (anc (nd_id n)) b) (nd_inputs n) of
              Some e \<Rightarrow> Some e
            | None \<Rightarrow>
                if nd_effect_class n = ''paper_effect'' then check_paper n
                else if nd_effect_class n = ''authority_change'' then check_authority n
                else None)))"

subsection \<open>The validator\<close>

definition validate_plan ::
  "('p action_plan \<Rightarrow> string list) \<Rightarrow> ('p \<Rightarrow> string) \<Rightarrow> operation_contract list \<Rightarrow> 'p action_plan
     \<Rightarrow> model_error + check_receipt" where
  "validate_plan schema_errors payload_sha ops plan =
     (let nodes = ap_nodes plan; ids = map nd_id nodes;
          artifacts = ap_artifacts plan; artifact_ids = map pa_id artifacts
      in case schema_errors plan of
          message # _ \<Rightarrow> Inl (SchemaInvalid message)
        | [] \<Rightarrow>
          if \<not> distinct ids then Inl DuplicateNodeId
          else if \<not> distinct artifact_ids then Inl DuplicateArtifactId
          else if set ids \<inter> set artifact_ids \<noteq> {} then Inl AmbiguousObjectId
          else if \<not> list_all (\<lambda>a. payload_sha (pa_payload a) = pa_sha256 a) artifacts
          then Inl FixturePayloadHashMismatch
          else if \<not> distinct (map (\<lambda>c. (op_operation c, op_version c)) ops)
          then Inl DuplicateOperationContract
          else case dependency_edges ids nodes of
              Inl e \<Rightarrow> Inl e
            | Inr edges \<Rightarrow>
              (case topological_order ids edges of (order, anc) \<Rightarrow>
                if length order \<noteq> length nodes then Inl SchedulingCycle
                else case first_error (check_node ops nodes artifacts anc) nodes of
                    Some e \<Rightarrow> Inl e
                  | None \<Rightarrow>
                    if \<not> list_all (\<lambda>(a, b). a \<in> set ids \<and> b \<in> set ids) (ap_links plan)
                    then Inl UnknownLinkEndpoint
                    else Inr \<lparr>cr_node_count = length nodes,
                              cr_dependency_count = sum_list (map (length \<circ> nd_dependencies) nodes),
                              cr_fixture_artifact_count = length artifacts,
                              cr_topological_order = order,
                              cr_execution_authorized = False, cr_broker_contacted = False\<rparr>))"

end
