(* ===== verification/GraphLaws.thy ===== *)
theory GraphLaws
  imports ActionGraph
begin

text \<open>
  Correctness of the action-plan checker: the scheduling loop computes a topological order with the
  exact transitive ancestors, it schedules every node exactly when the dependencies have no cycle,
  and what an accepted plan satisfies.
\<close>

subsection \<open>One round in closed form\<close>

lemma relax_closed:
  assumes "distinct cs" "current \<notin> set cs"
  shows "relax current cs ready anc deg =
    (ready @ filter (\<lambda>c. deg c = 1) cs,
     (\<lambda>n. if n \<in> set cs then insert current (anc n \<union> anc current) else anc n),
     (\<lambda>n. if n \<in> set cs then deg n - 1 else deg n))"
  using assms
proof (induction cs arbitrary: ready anc deg)
  case (Cons c cs)
  let ?deg = "deg(c := deg c - 1)"
  let ?anc = "anc(c := insert current (anc c) \<union> anc current)"
  have "relax current (c # cs) ready anc deg
      = relax current cs (if deg c - 1 = 0 then ready @ [c] else ready) ?anc ?deg"
    using Cons.prems by (simp add: Let_def)
  also have "\<dots> = ((if deg c - 1 = 0 then ready @ [c] else ready) @ filter (\<lambda>c. ?deg c = 1) cs,
      (\<lambda>n. if n \<in> set cs then insert current (?anc n \<union> ?anc current) else ?anc n),
      (\<lambda>n. if n \<in> set cs then ?deg n - 1 else ?deg n))"
    using Cons.prems by (intro Cons.IH) simp_all
  also have "filter (\<lambda>c. ?deg c = 1) cs = filter (\<lambda>c. deg c = 1) cs"
    using Cons.prems by (intro filter_cong) auto
  finally show ?case using Cons.prems by (auto simp: fun_eq_iff)
qed simp

subsection \<open>Orders that respect the edges\<close>

definition obeys :: "('a \<times> 'a) set \<Rightarrow> 'a list \<Rightarrow> bool" where
  "obeys E xs \<longleftrightarrow> (\<forall>ys n zs p. xs = ys @ n # zs \<longrightarrow> (p, n) \<in> E \<longrightarrow> p \<in> set ys)"

lemma obeys_Nil [simp]: "obeys E []"
  by (simp add: obeys_def)

lemma obeys_snoc: "obeys E (xs @ [n]) \<longleftrightarrow> obeys E xs \<and> (\<forall>p. (p, n) \<in> E \<longrightarrow> p \<in> set xs)"
proof
  assume r: "obeys E (xs @ [n])"
  have "obeys E xs" unfolding obeys_def
  proof (intro allI impI)
    fix ys m zs p
    assume "xs = ys @ m # zs" "(p, m) \<in> E"
    then show "p \<in> set ys" using r unfolding obeys_def by (metis append.assoc append_Cons)
  qed
  moreover have "\<forall>p. (p, n) \<in> E \<longrightarrow> p \<in> set xs" using r unfolding obeys_def by blast
  ultimately show "obeys E xs \<and> (\<forall>p. (p, n) \<in> E \<longrightarrow> p \<in> set xs)" ..
next
  assume r: "obeys E xs \<and> (\<forall>p. (p, n) \<in> E \<longrightarrow> p \<in> set xs)"
  show "obeys E (xs @ [n])" unfolding obeys_def
  proof (intro allI impI)
    fix ys m zs p
    assume eq: "xs @ [n] = ys @ m # zs" and e: "(p, m) \<in> E"
    show "p \<in> set ys"
    proof (cases zs rule: rev_cases)
      case Nil
      then show ?thesis using eq e r by simp
    next
      case (snoc zs' z)
      then have "xs = ys @ m # zs'" using eq by simp
      then show ?thesis using r e unfolding obeys_def by blast
    qed
  qed
qed

lemma takeWhile_until: "n \<notin> set ys \<Longrightarrow> takeWhile (\<lambda>m. m \<noteq> n) (ys @ n # zs) = ys"
  by (induction ys) auto

text \<open>A list that respects the edges and holds all their targets rules out cycles.\<close>

lemma obeys_acyclic:
  assumes "obeys E xs" "snd ` E \<subseteq> set xs"
  shows "acyclic E"
proof -
  define pos where "pos n = length (takeWhile (\<lambda>m. m \<noteq> n) xs)" for n
  have "(p, n) \<in> E \<Longrightarrow> pos p < pos n" for p n
  proof -
    assume e: "(p, n) \<in> E"
    then have "n \<in> set xs" using assms(2) by force
    then obtain ys zs where xs: "xs = ys @ n # zs" "n \<notin> set ys" by (meson split_list_first)
    then have "p \<in> set ys" using assms(1) e unfolding obeys_def by blast
    then obtain us vs where ys: "ys = us @ p # vs" "p \<notin> set us" by (meson split_list_first)
    have "takeWhile (\<lambda>m. m \<noteq> n) xs = ys" unfolding xs(1) by (rule takeWhile_until) (rule xs(2))
    moreover have "takeWhile (\<lambda>m. m \<noteq> p) xs = us"
      using takeWhile_until [OF ys(2), of "vs @ n # zs"] by (simp add: xs(1) ys(1))
    ultimately show "pos p < pos n" using ys by (simp add: pos_def)
  qed
  then have "E \<subseteq> measure pos" by auto
  then show ?thesis by (meson acyclic_subset wf_acyclic wf_measure)
qed

subsection \<open>The loop's invariant\<close>

definition before :: "('a \<times> 'a) set \<Rightarrow> 'a \<Rightarrow> 'a set" where
  "before E n = {m. (m, n) \<in> E\<^sup>+}"

definition loop_inv ::
  "ident set \<Rightarrow> (ident \<times> ident) list \<Rightarrow> ident list \<Rightarrow> ident list \<Rightarrow> ancestry \<Rightarrow> (ident \<Rightarrow> int) \<Rightarrow> bool" where
  "loop_inv V edges ready order anc deg \<longleftrightarrow>
     distinct (order @ ready) \<and> set (order @ ready) \<subseteq> V
     \<and> (\<forall>n \<in> V. deg n = int (card {p. (p, n) \<in> set edges \<and> p \<notin> set order}))
     \<and> (\<forall>n \<in> V. n \<in> set (order @ ready) \<longleftrightarrow> deg n = 0)
     \<and> obeys (set edges) order
     \<and> (\<forall>n. anc n = {m. \<exists>p \<in> set order. (p, n) \<in> set edges \<and> (m = p \<or> m \<in> before (set edges) p)})"

lemma before_step: "before E n = {m. \<exists>p. (p, n) \<in> E \<and> (m = p \<or> m \<in> before E p)}"
  unfolding before_def by (auto elim: tranclE intro: trancl_into_trancl)

lemma children_set: "set (children edges p) = {n. (p, n) \<in> set edges}"
  by (force simp: children_def)

lemma distinct_children: "distinct edges \<Longrightarrow> distinct (children edges p)"
  unfolding children_def by (auto simp: distinct_map inj_on_def intro: distinct_filter prod_eqI)

lemma loop_round:
  assumes inv: "loop_inv V edges (current # ready) order anc deg"
    and graph: "finite V" "distinct edges" "set edges \<subseteq> V \<times> V"
    and round: "relax current (children edges current) ready anc deg = (ready', anc', deg')"
  shows "loop_inv V edges ready' (order @ [current]) anc' deg'"
proof -
  let ?E = "set edges" and ?cs = "children edges current"
  define open_preds where "open_preds n = {p. (p, n) \<in> ?E \<and> p \<notin> set order}" for n
  have fin: "finite (open_preds n)" for n
    by (rule finite_subset [OF _ graph(1)]) (use graph(3) in \<open>auto simp: open_preds_def\<close>)
  have d: "distinct (order @ current # ready)" "set (order @ current # ready) \<subseteq> V"
    and deg: "\<And>n. n \<in> V \<Longrightarrow> deg n = int (card (open_preds n))"
    and zero: "\<And>n. n \<in> V \<Longrightarrow> n \<in> set (order @ current # ready) \<longleftrightarrow> deg n = 0"
    and ord: "obeys ?E order"
    and anc: "\<And>n. anc n = {m. \<exists>p \<in> set order. (p, n) \<in> ?E \<and> (m = p \<or> m \<in> before ?E p)}"
    using inv by (simp_all add: loop_inv_def open_preds_def)
  have cur: "current \<in> V" "current \<notin> set order" "current \<notin> set ready" using d by auto
  have "deg current = 0" using zero [OF cur(1)] by simp
  then have "open_preds current = {}" using deg [OF cur(1)] fin by simp
  then have preds: "(p, current) \<in> ?E \<Longrightarrow> p \<in> set order" for p by (auto simp: open_preds_def)
  have cs: "distinct ?cs" "current \<notin> set ?cs" "set ?cs \<subseteq> V"
    using distinct_children [OF graph(2)] preds cur(2) graph(3) by (auto simp: children_set)
  have ready': "ready' = ready @ filter (\<lambda>c. deg c = 1) ?cs"
    and anc': "anc' = (\<lambda>n. if n \<in> set ?cs then insert current (anc n \<union> anc current) else anc n)"
    and deg': "deg' = (\<lambda>n. if n \<in> set ?cs then deg n - 1 else deg n)"
    using round unfolding relax_closed [OF cs(1,2)] by auto
  have child_open: "current \<in> open_preds n" if "n \<in> set ?cs" for n
    using that cur(2) by (simp add: open_preds_def children_set)
  have child_pos: "deg n \<ge> 1" if "n \<in> set ?cs" for n
  proof -
    have "card (open_preds n) \<noteq> 0" using child_open [OF that] fin by auto
    then show ?thesis using deg that cs(3) by fastforce
  qed
  have deg'_eq: "deg' n = int (card {p. (p, n) \<in> ?E \<and> p \<notin> set (order @ [current])})" if n: "n \<in> V" for n
  proof -
    have sets: "{p. (p, n) \<in> ?E \<and> p \<notin> set (order @ [current])} = open_preds n - {current}"
      by (auto simp: open_preds_def)
    show ?thesis
    proof (cases "n \<in> set ?cs")
      case True
      then show ?thesis unfolding sets deg' using deg [OF n] child_open [OF True] child_pos [OF True] fin
        by (simp add: card_Diff_singleton)
    next
      case False
      then have "current \<notin> open_preds n" by (simp add: open_preds_def children_set)
      then show ?thesis unfolding sets deg' using deg [OF n] False by simp
    qed
  qed
  have zero': "n \<in> set ((order @ [current]) @ ready') \<longleftrightarrow> deg' n = 0" if n: "n \<in> V" for n
    using zero [OF n] child_pos [of n] by (cases "n \<in> set ?cs") (auto simp: ready' deg')
  have "c \<notin> set (order @ current # ready)" if "c \<in> set ?cs" for c
    using zero child_pos [OF that] cs(3) that by fastforce
  then have "distinct ((order @ [current]) @ ready')"
    using d(1) cs(1) by (auto simp: ready')
  moreover have "set ((order @ [current]) @ ready') \<subseteq> V" using d(2) cs(3) by (auto simp: ready')
  moreover have "obeys ?E (order @ [current])" using ord preds by (simp add: obeys_snoc)
  moreover have "anc' n = {m. \<exists>p \<in> set (order @ [current]). (p, n) \<in> ?E \<and> (m = p \<or> m \<in> before ?E p)}" for n
  proof -
    have "anc current = before ?E current"
      unfolding anc before_step [of ?E current] using preds by blast
    then show ?thesis unfolding anc' by (auto simp: anc children_set)
  qed
  ultimately show ?thesis using deg'_eq zero' by (simp add: loop_inv_def)
qed

lemma schedule_inv:
  assumes "loop_inv V edges ready order anc deg" "finite V" "distinct edges" "set edges \<subseteq> V \<times> V"
    "schedule edges ready order anc deg = (order', anc')"
  shows "\<exists>deg'. loop_inv V edges [] order' anc' deg'"
  using assms
proof (induction edges ready order anc deg rule: schedule.induct)
  case (2 edges current ready order anc deg)
  obtain ready' anc1 deg1 where r: "relax current (children edges current) ready anc deg = (ready', anc1, deg1)"
    by (metis prod_cases3)
  have "loop_inv V edges ready' (order @ [current]) anc1 deg1"
    by (rule loop_round [OF 2(2-5) r])
  then show ?case using 2(1) [OF r [symmetric] refl] 2(3-6) r by simp
qed auto

subsection \<open>The whole loop\<close>

lemma indegree_card:
  assumes "distinct edges"
  shows "indegree edges n = int (card {p. (p, n) \<in> set edges})"
proof -
  have "length (filter (\<lambda>e. snd e = n) edges) = card (set (filter (\<lambda>e. snd e = n) edges))"
    by (rule distinct_card [symmetric]) (simp add: assms)
  also have "set (filter (\<lambda>e. snd e = n) edges) = (\<lambda>p. (p, n)) ` {p. (p, n) \<in> set edges}" by auto
  also have "card \<dots> = card {p. (p, n) \<in> set edges}" by (intro card_image) (simp add: inj_on_def)
  finally show ?thesis by (simp add: indegree_def)
qed

lemma initial_inv:
  assumes "distinct ids" "distinct edges"
  shows "loop_inv (set ids) edges (sort (filter (\<lambda>i. indegree edges i = 0) ids)) [] (\<lambda>_. {}) (indegree edges)"
  using assms by (auto simp: loop_inv_def indegree_card)

lemma finished_complete:
  assumes inv: "loop_inv V edges [] order anc deg" and acyclic: "acyclic (set edges)"
    and graph: "set edges \<subseteq> V \<times> V"
  shows "set order = V"
proof (rule ccontr)
  assume "set order \<noteq> V"
  then obtain x where "x \<in> V - set order" using inv by (auto simp: loop_inv_def)
  moreover have "wf (set edges)" by (rule finite_acyclic_wf) (use acyclic in auto)
  ultimately obtain n where n: "n \<in> V - set order" and least: "\<And>p. (p, n) \<in> set edges \<Longrightarrow> p \<notin> V - set order"
    by (metis wfE_min)
  then have none: "{p. (p, n) \<in> set edges \<and> p \<notin> set order} = {}" using graph by auto
  have nV: "n \<in> V" using n by simp
  have "deg n = int (card {p. (p, n) \<in> set edges \<and> p \<notin> set order})"
    using inv nV unfolding loop_inv_def by blast
  then have "deg n = 0" by (simp only: none card.empty of_nat_0)
  moreover have "n \<in> set (order @ []) \<longleftrightarrow> deg n = 0"
    using inv nV unfolding loop_inv_def by blast
  ultimately show False using n by simp
qed

lemma topological_order_correct:
  assumes ids: "distinct ids" and edges: "distinct edges" "set edges \<subseteq> set ids \<times> set ids"
    and run: "topological_order ids edges = (order, anc)"
  shows "length order = length ids \<longleftrightarrow> acyclic (set edges)"
    and "distinct order" "obeys (set edges) order"
    and "length order = length ids \<Longrightarrow> set order = set ids"
    and "length order = length ids \<Longrightarrow> anc n = before (set edges) n"
proof -
  obtain deg where inv: "loop_inv (set ids) edges [] order anc deg"
    using schedule_inv [OF initial_inv [OF ids edges(1)] _ edges run [unfolded topological_order_def]] by auto
  have sub: "set order \<subseteq> set ids" and d: "distinct order" and o: "obeys (set edges) order"
    and anc: "\<And>n. anc n = {m. \<exists>p \<in> set order. (p, n) \<in> set edges \<and> (m = p \<or> m \<in> before (set edges) p)}"
    using inv by (simp_all add: loop_inv_def)
  have len: "length order = length ids \<longleftrightarrow> set order = set ids"
    by (metis card_subset_eq distinct_card d ids finite_set sub)
  show "distinct order" "obeys (set edges) order" by (rule d, rule o)
  have all: "set order = set ids \<Longrightarrow> snd ` set edges \<subseteq> set order" using edges(2) by auto
  show "length order = length ids \<longleftrightarrow> acyclic (set edges)"
    using finished_complete [OF inv _ edges(2)] obeys_acyclic [OF o] all len by blast
  assume done_all: "length order = length ids"
  then show all_in: "set order = set ids" using len by simp
  have "p \<in> set order" if "(p, n) \<in> set edges" for p using that edges(2) all_in by auto
  then show "anc n = before (set edges) n" unfolding anc before_step [of "set edges" n] by auto
qed

subsection \<open>The edges of a plan\<close>

definition depends :: "plan_node list \<Rightarrow> (ident \<times> ident) set" where
  "depends nodes = {(p, nd_id n) |n p. n \<in> set nodes \<and> p \<in> set (parents n)}"

lemma dependency_edges_facts:
  assumes "dependency_edges ids nodes = Inr edges"
  shows "set edges = depends nodes" "\<forall>(p, n) \<in> set edges. p \<in> set ids"
    "distinct (map nd_id nodes) \<Longrightarrow> distinct edges"
proof -
  have "set edges = depends nodes \<and> (\<forall>(p, n) \<in> set edges. p \<in> set ids)
      \<and> (distinct (map nd_id nodes) \<longrightarrow> distinct edges)"
    using assms
  proof (induction nodes arbitrary: edges)
    case Nil
    then show ?case by (simp add: depends_def)
  next
    case (Cons n ns)
    obtain rest where rest: "dependency_edges ids ns = Inr rest"
      and edges: "edges = map (\<lambda>p. (p, nd_id n)) (parents n) @ rest"
      and ok: "distinct (parents n)" "list_all (\<lambda>p. p \<in> set ids) (parents n)"
      using Cons.prems by (auto split: if_splits sum.splits)
    note IH = Cons.IH [OF rest]
    have "depends (n # ns) = (\<lambda>p. (p, nd_id n)) ` set (parents n) \<union> depends ns"
      by (auto simp: depends_def)
    moreover have "distinct (map nd_id (n # ns)) \<Longrightarrow> distinct edges"
      using IH ok(1) by (auto simp: edges distinct_map inj_on_def depends_def)
    ultimately show ?case using IH ok(2) by (auto simp: edges list_all_iff)
  qed
  then show "set edges = depends nodes" "\<forall>(p, n) \<in> set edges. p \<in> set ids"
    "distinct (map nd_id nodes) \<Longrightarrow> distinct edges" by auto
qed

text \<open>The scheduling part of the validator, for a plan that got that far.\<close>

lemma plan_schedule:
  assumes ids: "distinct (map nd_id nodes)" and edges: "dependency_edges (map nd_id nodes) nodes = Inr edges"
    and run: "topological_order (map nd_id nodes) edges = (order, anc)"
  shows "length order = length nodes \<longleftrightarrow> acyclic (depends nodes)"
    and "distinct order" "obeys (depends nodes) order"
    and "length order = length nodes \<Longrightarrow> set order = nd_id ` set nodes"
    and "length order = length nodes \<Longrightarrow> anc n = before (depends nodes) n"
proof -
  note facts = dependency_edges_facts [OF edges]
  have "set edges \<subseteq> set (map nd_id nodes) \<times> set (map nd_id nodes)"
    using facts(1,2) by (auto simp: depends_def)
  note t = topological_order_correct [OF ids facts(3) [OF ids] this run, unfolded facts(1) length_map]
  show "length order = length nodes \<longleftrightarrow> acyclic (depends nodes)" "distinct order" "obeys (depends nodes) order"
    by (fact t(1), fact t(2), fact t(3))
  show "length order = length nodes \<Longrightarrow> set order = nd_id ` set nodes" using t(4) by simp
  show "length order = length nodes \<Longrightarrow> anc n = before (depends nodes) n" by (rule t(5))
qed

subsection \<open>What the validator decides\<close>

lemma first_error_None: "first_error f xs = None \<longleftrightarrow> (\<forall>x \<in> set xs. f x = None)"
  by (induction xs) (auto split: option.split)

text \<open>A validated plan, guard by guard.\<close>

lemma validate_planD:
  assumes "validate_plan schema_errors payload_sha ops plan = Inr r"
  obtains edges order anc where
    "distinct (map nd_id (ap_nodes plan))"
    "\<forall>a \<in> set (ap_artifacts plan). payload_sha (pa_payload a) = pa_sha256 a"
    "dependency_edges (map nd_id (ap_nodes plan)) (ap_nodes plan) = Inr edges"
    "topological_order (map nd_id (ap_nodes plan)) edges = (order, anc)"
    "length order = length (ap_nodes plan)"
    "\<forall>n \<in> set (ap_nodes plan). check_node ops (ap_nodes plan) (ap_artifacts plan) anc n = None"
    "cr_topological_order r = order" "\<not> cr_execution_authorized r" "\<not> cr_broker_contacted r"
  using assms
  by (auto simp: validate_plan_def Let_def first_error_None list_all_iff
      split: list.splits if_splits sum.splits prod.splits option.splits)

lemma check_nodeD:
  assumes "check_node ops nodes artifacts anc n = None"
  obtains c where "find_contract ops n = Some c" "check_contract c n = None"
    "\<And>k b. (k, b) \<in> set (nd_inputs n) \<Longrightarrow> check_binding nodes artifacts (anc (nd_id n)) b = None"
    "nd_effect_class n = ''paper_effect'' \<Longrightarrow> check_paper n = None"
    "nd_effect_class n = ''authority_change'' \<Longrightarrow> check_authority n = None"
proof -
  obtain c where c: "find_contract ops n = Some c" "check_contract c n = None"
    and inputs: "\<forall>x \<in> set (nd_inputs n). (case x of (k, b) \<Rightarrow> check_binding nodes artifacts (anc (nd_id n)) b) = None"
    and effects: "nd_effect_class n = ''paper_effect'' \<Longrightarrow> check_paper n = None"
      "nd_effect_class n = ''authority_change'' \<Longrightarrow> check_authority n = None"
    using assms by (auto simp: check_node_def first_error_None split: option.splits if_splits)
  have "(k, b) \<in> set (nd_inputs n) \<Longrightarrow> check_binding nodes artifacts (anc (nd_id n)) b = None" for k b
    using inputs by fastforce
  then show thesis using that c effects by blast
qed

text \<open>What a node of an accepted plan satisfies, in terms of the plan alone.\<close>

definition bound_soundly ::
  "('p \<Rightarrow> string) \<Rightarrow> 'p action_plan \<Rightarrow> ident \<Rightarrow> input_binding \<Rightarrow> bool" where
  "bound_soundly payload_sha plan n b \<longleftrightarrow> (case b of
      ArtifactInput i t \<Rightarrow> \<exists>a \<in> set (ap_artifacts plan). pa_id a = i \<and> pa_kind a = t
        \<and> pa_sha256 a = payload_sha (pa_payload a)
    | NodeInput source port t \<Rightarrow> (source, n) \<in> (depends (ap_nodes plan))\<^sup>+
        \<and> (\<exists>m \<in> set (ap_nodes plan). nd_id m = source \<and> map_of (nd_outputs m) port = Some t))"

lemma find_SomeD: "find P xs = Some x \<Longrightarrow> x \<in> set xs \<and> P x"
  by (induction xs) (auto split: if_splits)

lemma check_binding_sound:
  assumes "check_binding (ap_nodes plan) (ap_artifacts plan) (before (depends (ap_nodes plan)) n) b = None"
    "\<forall>a \<in> set (ap_artifacts plan). payload_sha (pa_payload a) = pa_sha256 a"
  shows "bound_soundly payload_sha plan n b"
proof (cases b)
  case (ArtifactInput i t)
  then obtain a where "find (\<lambda>a. pa_id a = i) (ap_artifacts plan) = Some a" "pa_kind a = t"
    using assms(1) by (auto split: option.splits if_splits)
  then show ?thesis using ArtifactInput assms(2) by (force simp: bound_soundly_def dest: find_SomeD)
next
  case (NodeInput source port t)
  then obtain m where "find (\<lambda>m. nd_id m = source) (ap_nodes plan) = Some m"
      "map_of (nd_outputs m) port = Some t" "source \<in> before (depends (ap_nodes plan)) n"
    using assms(1) by (auto split: option.splits if_splits)
  then show ?thesis using NodeInput by (force simp: bound_soundly_def before_def dest: find_SomeD)
qed

lemma check_paper_None: "check_paper n = None \<Longrightarrow>
    set paper_guards \<subseteq> set (nd_required_guards n) \<and> nd_owner_role n = ''broker_gateway''
    \<and> nd_target_environment n = ''paper'' \<and> nd_retry_mode n = ''reconcile_before_retry''
    \<and> nd_on_failure n = ''preserve_uncertain_effect''"
  unfolding check_paper_def by (simp split: if_splits)

lemma check_authority_None: "check_authority n = None \<Longrightarrow>
    nd_owner_role n = ''operator'' \<and> ''authenticated_operator'' \<in> set (nd_required_guards n)"
  unfolding check_authority_def by (simp split: if_splits)

text \<open>Claim C13. A plan the checker accepts: the reported order lists every node once and puts every
  dependency before its dependent; each input comes from a declared artifact of the right kind whose
  payload hash matches, or from a transitive dependency with an output port of the right type; a node
  with a paper effect carries all seven guards, belongs to the broker gateway in the paper
  environment, reconciles before a retry and preserves uncertainty on failure; an authority change
  belongs to an authenticated operator; and the receipt authorizes nothing.\<close>

theorem accepted_plan_sound:
  assumes "validate_plan schema_errors payload_sha ops plan = Inr r"
  shows "distinct (cr_topological_order r)
    \<and> set (cr_topological_order r) = nd_id ` set (ap_nodes plan)
    \<and> obeys (depends (ap_nodes plan)) (cr_topological_order r)
    \<and> (\<forall>n \<in> set (ap_nodes plan).
         (\<forall>(k, b) \<in> set (nd_inputs n). bound_soundly payload_sha plan (nd_id n) b)
         \<and> (nd_effect_class n = ''paper_effect'' \<longrightarrow>
              set paper_guards \<subseteq> set (nd_required_guards n) \<and> nd_owner_role n = ''broker_gateway''
              \<and> nd_target_environment n = ''paper'' \<and> nd_retry_mode n = ''reconcile_before_retry''
              \<and> nd_on_failure n = ''preserve_uncertain_effect'')
         \<and> (nd_effect_class n = ''authority_change'' \<longrightarrow>
              nd_owner_role n = ''operator'' \<and> ''authenticated_operator'' \<in> set (nd_required_guards n)))
    \<and> \<not> cr_execution_authorized r \<and> \<not> cr_broker_contacted r"
proof -
  let ?nodes = "ap_nodes plan"
  obtain edges order anc where ids: "distinct (map nd_id ?nodes)"
    and hashes: "\<forall>a \<in> set (ap_artifacts plan). payload_sha (pa_payload a) = pa_sha256 a"
    and edges: "dependency_edges (map nd_id ?nodes) ?nodes = Inr edges"
    and run: "topological_order (map nd_id ?nodes) edges = (order, anc)"
    and all: "length order = length ?nodes"
    and nodes: "\<forall>n \<in> set ?nodes. check_node ops ?nodes (ap_artifacts plan) anc n = None"
    and order: "cr_topological_order r = order" "\<not> cr_execution_authorized r" "\<not> cr_broker_contacted r"
    by (rule validate_planD [OF assms]) (rule that)
  note schedule = plan_schedule [OF ids edges run]
  have "bound_soundly payload_sha plan (nd_id n) b" if n: "n \<in> set ?nodes" and b: "(k, b) \<in> set (nd_inputs n)" for n k b
  proof -
    have "check_binding ?nodes (ap_artifacts plan) (anc (nd_id n)) b = None"
      by (rule check_nodeD [OF bspec [OF nodes n]]) (use b in blast)
    then show ?thesis unfolding schedule(5) [OF all] by (rule check_binding_sound [OF _ hashes])
  qed
  then have bound: "\<forall>(k, b) \<in> set (nd_inputs n). bound_soundly payload_sha plan (nd_id n) b" if "n \<in> set ?nodes" for n
    using that by blast
  have paper: "check_paper n = None" if "n \<in> set ?nodes" "nd_effect_class n = ''paper_effect''" for n
    by (rule check_nodeD [OF bspec [OF nodes that(1)]]) (use that(2) in blast)
  have authority: "check_authority n = None" if "n \<in> set ?nodes" "nd_effect_class n = ''authority_change''" for n
    by (rule check_nodeD [OF bspec [OF nodes that(1)]]) (use that(2) in blast)
  show ?thesis
    by (intro conjI ballI impI)
       (simp_all add: order(2,3) bound check_paper_None [OF paper] check_authority_None [OF authority],
        simp_all add: order(1) schedule(2,3) schedule(4) [OF all])
qed

text \<open>Claim C14. The scheduling verdict is exact: a plan that passes the checks before it is refused as
  cyclic precisely when its dependencies have a cycle, so the loop neither gets stuck on an acyclic
  plan nor lets a cycle through.\<close>

theorem cycle_verdict:
  assumes "schema_errors plan = []" "distinct (map nd_id (ap_nodes plan))"
    "distinct (map pa_id (ap_artifacts plan))"
    "nd_id ` set (ap_nodes plan) \<inter> pa_id ` set (ap_artifacts plan) = {}"
    "\<forall>a \<in> set (ap_artifacts plan). payload_sha (pa_payload a) = pa_sha256 a"
    "distinct (map (\<lambda>c. (op_operation c, op_version c)) ops)"
    "\<forall>n \<in> set (ap_nodes plan). distinct (parents n) \<and> set (parents n) \<subseteq> nd_id ` set (ap_nodes plan)"
  shows "validate_plan schema_errors payload_sha ops plan = Inl SchedulingCycle
    \<longleftrightarrow> \<not> acyclic (depends (ap_nodes plan))"
proof -
  let ?nodes = "ap_nodes plan"
  have "\<forall>n \<in> set ns. distinct (parents n) \<and> set (parents n) \<subseteq> nd_id ` set ?nodes
      \<Longrightarrow> \<exists>edges. dependency_edges (map nd_id ?nodes) ns = Inr edges" for ns
    by (induction ns) (auto simp: list_all_iff)
  then obtain edges where edges: "dependency_edges (map nd_id ?nodes) ?nodes = Inr edges"
    using assms(7) by blast
  obtain order anc where run: "topological_order (map nd_id ?nodes) edges = (order, anc)" by fastforce
  have no_cycle_error: "check_node ops ns arts a n \<noteq> Some SchedulingCycle" for ns arts a n
  proof -
    have "first_error f xs \<noteq> Some SchedulingCycle" if "\<And>x. f x \<noteq> Some SchedulingCycle"
      for f :: "ident \<times> input_binding \<Rightarrow> model_error option" and xs
      using that by (induction xs) (auto split: option.split)
    moreover have "check_binding ns arts s b \<noteq> Some SchedulingCycle" for s b
      by (cases b) (auto split: option.split)
    ultimately show ?thesis
      by (auto simp: check_node_def check_contract_def check_paper_def check_authority_def split: option.splits if_splits)
  qed
  have "first_error (check_node ops ns arts a) xs \<noteq> Some SchedulingCycle" for ns arts a xs
    using no_cycle_error by (induction xs) (auto split: option.split)
  then have "validate_plan schema_errors payload_sha ops plan = Inl SchedulingCycle \<longleftrightarrow> length order \<noteq> length ?nodes"
    using assms(1-6) edges run by (auto simp: validate_plan_def Let_def list_all_iff split: option.split)
  then show ?thesis using plan_schedule(1) [OF assms(2) edges run] by simp
qed

subsection \<open>Concrete plans\<close>

definition sample_node :: "ident \<Rightarrow> ident \<Rightarrow> ident list \<Rightarrow> (ident \<times> input_binding) list \<Rightarrow> ident \<Rightarrow> plan_node" where
  "sample_node i oper ps ins out_type =
     \<lparr>nd_id = i, nd_operation = oper, nd_operation_version = ''0.1'', nd_owner_role = ''research_worker'',
      nd_effect_class = ''research_write'', nd_target_environment = ''research'',
      nd_dependencies = map (\<lambda>p. (p, [''completed''])) ps, nd_inputs = ins,
      nd_outputs = [(''result'', out_type)], nd_required_guards = [], nd_retry_mode = ''bounded_idempotent'',
      nd_on_failure = ''block_descendants''\<rparr>"

definition sample_paper_node :: plan_node where
  "sample_paper_node =
     \<lparr>nd_id = ''N03'', nd_operation = ''paper.submit'', nd_operation_version = ''0.1'',
      nd_owner_role = ''broker_gateway'', nd_effect_class = ''paper_effect'',
      nd_target_environment = ''paper'', nd_dependencies = [(''N02'', [''approved''])],
      nd_inputs = [(''permit'', NodeInput ''N02'' ''result'' ''EffectPermit''),
        (''order'', NodeInput ''N01'' ''result'' ''OrderIntent''),
        (''risk'', ArtifactInput ''fixture.risk'' ''RiskReservation'')],
      nd_outputs = [(''receipt'', ''SubmitReceipt'')], nd_required_guards = ''extra'' # paper_guards,
      nd_retry_mode = ''reconcile_before_retry'', nd_on_failure = ''preserve_uncertain_effect''\<rparr>"

definition sample_contract_of :: "plan_node \<Rightarrow> operation_contract" where
  "sample_contract_of n =
     \<lparr>op_operation = nd_operation n, op_version = nd_operation_version n, op_owner_role = nd_owner_role n,
      op_effect_class = nd_effect_class n, op_target_environment = nd_target_environment n,
      op_outputs = nd_outputs n, op_input_types = rev (actual_types n)\<rparr>"

definition sample_plan :: "string action_plan" where
  "sample_plan =
     \<lparr>ap_nodes = [sample_paper_node,
        sample_node ''N02'' ''research.review'' [''N01''] [(''x'', NodeInput ''N01'' ''result'' ''OrderIntent'')] ''EffectPermit'',
        sample_node ''N01'' ''research.resolve'' [] [(''s'', ArtifactInput ''fixture.data'' ''Data'')] ''OrderIntent''],
      ap_artifacts = [\<lparr>pa_id = ''fixture.data'', pa_kind = ''Data'', pa_sha256 = ''sha:x'', pa_payload = ''x''\<rparr>,
        \<lparr>pa_id = ''fixture.risk'', pa_kind = ''RiskReservation'', pa_sha256 = ''sha:y'', pa_payload = ''y''\<rparr>],
      ap_links = [(''N03'', ''N01'')]\<rparr>"

definition sample_sha :: "string \<Rightarrow> string" where "sample_sha x = ''sha:'' @ x"

abbreviation "sample_ops \<equiv> map sample_contract_of (ap_nodes sample_plan)"

lemma sample_plan_accepted: "\<exists>r. validate_plan (\<lambda>_. []) sample_sha sample_ops sample_plan = Inr r"
  by (rule returnedD) code_simp

lemma accepted_plan_sound_witness:
  "\<exists>r. validate_plan (\<lambda>_. []) sample_sha sample_ops sample_plan = Inr r
     \<and> obeys (depends (ap_nodes sample_plan)) (cr_topological_order r)
     \<and> bound_soundly sample_sha sample_plan ''N03'' (NodeInput ''N01'' ''result'' ''OrderIntent'')"
proof -
  obtain r where r: "validate_plan (\<lambda>_. []) sample_sha sample_ops sample_plan = Inr r"
    using sample_plan_accepted by blast
  have n: "sample_paper_node \<in> set (ap_nodes sample_plan)" by (simp add: sample_plan_def)
  have b: "(''order'', NodeInput ''N01'' ''result'' ''OrderIntent'') \<in> set (nd_inputs sample_paper_node)"
    by (simp add: sample_paper_node_def)
  have "nd_id sample_paper_node = ''N03''" by (simp add: sample_paper_node_def)
  then show ?thesis
    using r accepted_plan_sound [OF r] n b by fastforce
qed

definition sample_cycle :: "string action_plan" where
  "sample_cycle =
     \<lparr>ap_nodes = [sample_node ''N01'' ''research.a'' [] [] ''A'',
        sample_node ''N02'' ''research.b'' [''N01'', ''N03''] [] ''B'',
        sample_node ''N03'' ''research.c'' [''N02''] [] ''C''],
      ap_artifacts = [], ap_links = []\<rparr>"

lemma cycle_verdict_witness: "\<not> acyclic (depends (ap_nodes sample_cycle))"
proof -
  have refused: "validate_plan (\<lambda>_. []) sample_sha [] sample_cycle = Inl SchedulingCycle" by code_simp
  show ?thesis
    using cycle_verdict [of "\<lambda>_. []" sample_cycle sample_sha "[]"] refused
    by (simp add: sample_cycle_def sample_node_def parents_def)
qed

end
