(* ===== verification/TradePlans.thy ===== *)
theory TradePlans
  imports Options Market
begin

text \<open>
  Trade plans of the execution desk, \<open>trex/plan.py\<close>: put spreads, defined-risk leg structures with
  their shape and exit rules, the check of a package order, IBKR's what-if margin bound and the book
  with its caps. A pydantic model is a record of its fields and a function that validates it; a field
  constraint that fails is \<open>FieldInvalid\<close>, whatever the field. A \<open>Decimal\<close> that may be NaN or infinite
  is an option, \<open>None\<close> when it is not finite. TOML decoding is outside the model; a table of the
  \<open>structures\<close> array is a \<open>structure_table\<close>, told apart by its shape.
\<close>

subsection \<open>Legs and exit rules\<close>

record leg =
  lg_right :: call_put
  lg_action :: side
  lg_strike :: decimal
  lg_expiry :: date

datatype plan_error =
    FieldInvalid | PutSpreadInverted | DeadlineNotBeforeExpiry | EntryNotBeforeDeadline
  | DealNeedsRefMid | DuplicateLegs | UncoveredSell call_put | ShapeRefused string
  | StrikesInverted | LimitNotBelowWidth | NotProtective
  | TakeProfitOutOfRange | StopLossOutOfRange | TouchRefused | BreachRefused
  | TakeProfitRefused | StopLossRefused | StopNeverFires
  | SideRefused | QuantityRefused | LimitNotFinite | LimitNotPositive
  | BelowCreditFloor | AboveDebitCap | AboveWidth
  | EmptyBook | DuplicateStructureIds | BookCapExceeded | LiveRailExceeded | NotLegacy

definition flip_side :: "side \<Rightarrow> side" where
  "flip_side a = (case a of Buy \<Rightarrow> Sell | Sell \<Rightarrow> Buy)"

definition leg_sign :: "leg \<Rightarrow> decimal" where
  "leg_sign g = (case lg_action g of Buy \<Rightarrow> 1 | Sell \<Rightarrow> -1)"

definition flipped :: "leg \<Rightarrow> leg" where
  "flipped g = g\<lparr>lg_action := flip_side (lg_action g)\<rparr>"

datatype take_profit_basis = WidthFrac | GainFrac | CreditFrac

record take_profit =
  tp_basis :: take_profit_basis
  tp_value :: decimal

definition take_profit_ok :: "take_profit \<Rightarrow> bool" where
  "take_profit_ok t = (case tp_basis t of
      WidthFrac \<Rightarrow> 0 \<le> tp_value t \<and> tp_value t \<le> 1
    | GainFrac \<Rightarrow> tp_value t > 0
    | CreditFrac \<Rightarrow> 0 < tp_value t \<and> tp_value t < 1)"

datatype stop_loss_basis = DebitFrac | CreditMult

record stop_loss =
  sl_basis :: stop_loss_basis
  sl_value :: decimal

definition stop_loss_ok :: "stop_loss \<Rightarrow> bool" where
  "stop_loss_ok t = (case sl_basis t of
      DebitFrac \<Rightarrow> 0 < sl_value t \<and> sl_value t < 1
    | CreditMult \<Rightarrow> sl_value t > 1)"

record exit_rules =
  xr_take_profit :: "take_profit option"
  xr_stop_loss :: "stop_loss option"
  xr_stop_confirm_ticks :: int
  xr_touch :: bool
  xr_breach :: bool

subsection \<open>Leg structures\<close>

datatype structure_kind = LongSingle | DebitVertical | CreditVertical | IronCondor | CalendarSpread | Diagonal

record leg_structure =
  ls_id :: string
  ls_underlying :: string
  ls_kind :: structure_kind
  ls_legs :: "leg list"
  ls_quantity :: int
  ls_entry_date :: date
  ls_exit_deadline :: date
  ls_limit :: decimal
  ls_exits :: exit_rules
  ls_deal_id :: "string option"
  ls_ref_mid :: "decimal option"

definition is_credit :: "leg_structure \<Rightarrow> bool" where
  "is_credit s \<longleftrightarrow> ls_kind s \<in> {CreditVertical, IronCondor}"

definition structure_direction :: "leg_structure \<Rightarrow> int" where
  "structure_direction s = (if is_credit s then -1 else 1)"

definition open_side :: "leg_structure \<Rightarrow> side" where
  "open_side s = (if is_credit s then Sell else Buy)"

definition close_side :: "leg_structure \<Rightarrow> side" where
  "close_side s = (if is_credit s then Buy else Sell)"

definition package_legs :: "leg_structure \<Rightarrow> leg list" where
  "package_legs s = (if is_credit s then map flipped (ls_legs s) else ls_legs s)"

definition first_expiry :: "leg_structure \<Rightarrow> date" where
  "first_expiry s = Min (set (map lg_expiry (ls_legs s)))"

text \<open>The two wings, put legs and call legs each sorted by strike; \<open>None\<close> is the index error of a
  structure without two of each.\<close>

definition sorted_right :: "call_put \<Rightarrow> leg list \<Rightarrow> leg list" where
  "sorted_right cp gs = sort_key lg_strike (filter (\<lambda>g. lg_right g = cp) gs)"

definition condor_wings :: "leg list \<Rightarrow> (decimal \<times> decimal) option" where
  "condor_wings gs = (case (sorted_right Put gs, sorted_right Call gs) of
      (p0 # p1 # _, c0 # c1 # _) \<Rightarrow> Some (lg_strike p1 - lg_strike p0, lg_strike c1 - lg_strike c0)
    | _ \<Rightarrow> None)"

text \<open>The package's maximum value where the strikes fix it; also \<open>None\<close> where a structure that was
  never validated would make the unpacking fail.\<close>

definition structure_width :: "leg_structure \<Rightarrow> decimal option" where
  "structure_width s = (case ls_kind s of
      DebitVertical \<Rightarrow> (case ls_legs s of [a, b] \<Rightarrow> Some \<bar>lg_strike a - lg_strike b\<bar> | _ \<Rightarrow> None)
    | CreditVertical \<Rightarrow> (case ls_legs s of [a, b] \<Rightarrow> Some \<bar>lg_strike a - lg_strike b\<bar> | _ \<Rightarrow> None)
    | IronCondor \<Rightarrow> map_option (\<lambda>(p, c). max p c) (condor_wings (ls_legs s))
    | _ \<Rightarrow> None)"

definition max_loss_per_package :: "leg_structure \<Rightarrow> decimal" where
  "max_loss_per_package s = (if is_credit s then the (structure_width s) - ls_limit s else ls_limit s)"

definition max_loss :: "leg_structure \<Rightarrow> decimal" where
  "max_loss s = max_loss_per_package s * 100 * of_int (ls_quantity s)"

subsection \<open>Shapes\<close>

definition one_of_each :: "leg list \<Rightarrow> (leg \<times> leg) option" where
  "one_of_each gs =
     (if length gs \<noteq> 2 then None
      else case (filter (\<lambda>g. lg_action g = Buy) gs, filter (\<lambda>g. lg_action g = Sell) gs) of
          ([b], [a]) \<Rightarrow> Some (b, a) | _ \<Rightarrow> None)"

definition shape_long_single :: "leg_structure \<Rightarrow> plan_error option" where
  "shape_long_single s = (case ls_legs s of
      [g] \<Rightarrow> if lg_action g \<noteq> Buy then Some (ShapeRefused ''one BUY'') else None
    | _ \<Rightarrow> Some (ShapeRefused ''one BUY''))"

definition shape_vertical :: "leg_structure \<Rightarrow> plan_error option" where
  "shape_vertical s = (case one_of_each (ls_legs s) of
      None \<Rightarrow> Some (ShapeRefused ''one BUY and one SELL'')
    | Some (b, a) \<Rightarrow>
        if lg_right b \<noteq> lg_right a \<or> lg_expiry b \<noteq> lg_expiry a
        then Some (ShapeRefused ''one right and one expiry'')
        else let buy_higher = lg_strike b > lg_strike a;
                 wants_buy_higher = ((lg_right b = Put) = (ls_kind s = DebitVertical))
             in if buy_higher \<noteq> wants_buy_higher then Some StrikesInverted
                else if \<not> ls_limit s < \<bar>lg_strike b - lg_strike a\<bar> then Some LimitNotBelowWidth
                else None)"

definition shape_iron_condor :: "leg_structure \<Rightarrow> plan_error option" where
  "shape_iron_condor s =
     (let gs = ls_legs s
      in case (sorted_right Put gs, sorted_right Call gs) of
          ([long_p, short_p], [short_c, long_c]) \<Rightarrow>
            if length gs \<noteq> 4 then Some (ShapeRefused ''two puts and two calls'')
            else if card (set (map lg_expiry gs)) \<noteq> 1 then Some (ShapeRefused ''one expiry'')
            else if (lg_action long_p, lg_action short_p, lg_action short_c, lg_action long_c)
                  \<noteq> (Buy, Sell, Sell, Buy)
              \<or> \<not> (lg_strike long_p < lg_strike short_p \<and> lg_strike short_p < lg_strike short_c
                    \<and> lg_strike short_c < lg_strike long_c)
            then Some (ShapeRefused ''long put < short put < short call < long call'')
            else if \<not> ls_limit s < max (lg_strike short_p - lg_strike long_p) (lg_strike long_c - lg_strike short_c)
            then Some LimitNotBelowWidth
            else None
        | _ \<Rightarrow> Some (ShapeRefused ''two puts and two calls''))"

definition shape_two_expiry :: "leg_structure \<Rightarrow> plan_error option" where
  "shape_two_expiry s = (case one_of_each (ls_legs s) of
      None \<Rightarrow> Some (ShapeRefused ''one BUY and one SELL'')
    | Some (b, a) \<Rightarrow>
        if lg_right b \<noteq> lg_right a then Some (ShapeRefused ''one right'')
        else if \<not> lg_expiry b > lg_expiry a then Some (ShapeRefused ''BUY expires later'')
        else if ls_kind s = CalendarSpread
        then (if lg_strike b \<noteq> lg_strike a then Some (ShapeRefused ''one strike'') else None)
        else if lg_strike b = lg_strike a then Some (ShapeRefused ''strikes differ'')
        else if \<not> (if lg_right b = Call then lg_strike b < lg_strike a else lg_strike b > lg_strike a)
        then Some NotProtective else None)"

definition check_shape :: "leg_structure \<Rightarrow> plan_error option" where
  "check_shape s = (case ls_kind s of
      LongSingle \<Rightarrow> shape_long_single s
    | DebitVertical \<Rightarrow> shape_vertical s
    | CreditVertical \<Rightarrow> shape_vertical s
    | IronCondor \<Rightarrow> shape_iron_condor s
    | CalendarSpread \<Rightarrow> shape_two_expiry s
    | Diagonal \<Rightarrow> shape_two_expiry s)"

subsection \<open>Validation of a structure\<close>

definition touch_kinds :: "structure_kind list" where "touch_kinds = [LongSingle, DebitVertical]"
definition credit_kinds :: "structure_kind list" where "credit_kinds = [CreditVertical, IronCondor]"
definition debit_kinds :: "structure_kind list" where
  "debit_kinds = [LongSingle, DebitVertical, CalendarSpread, Diagonal]"

fun take_profit_kinds :: "take_profit_basis \<Rightarrow> structure_kind list" where
  "take_profit_kinds WidthFrac = [DebitVertical]"
| "take_profit_kinds GainFrac = debit_kinds"
| "take_profit_kinds CreditFrac = credit_kinds"

fun stop_kinds :: "stop_loss_basis \<Rightarrow> structure_kind list" where
  "stop_kinds DebitFrac = debit_kinds"
| "stop_kinds CreditMult = credit_kinds"

definition check_exits :: "leg_structure \<Rightarrow> plan_error option" where
  "check_exits s =
     (let ex = ls_exits s
      in if xr_touch ex \<and> ls_kind s \<notin> set touch_kinds then Some TouchRefused
         else if xr_breach ex \<and> ls_kind s \<notin> set credit_kinds then Some BreachRefused
         else if (case xr_take_profit ex of None \<Rightarrow> False
                  | Some t \<Rightarrow> ls_kind s \<notin> set (take_profit_kinds (tp_basis t)))
         then Some TakeProfitRefused
         else case xr_stop_loss ex of
             None \<Rightarrow> None
           | Some t \<Rightarrow>
               if ls_kind s \<notin> set (stop_kinds (sl_basis t)) then Some StopLossRefused
               else (case structure_width s of
                   None \<Rightarrow> None
                 | Some width \<Rightarrow>
                     if sl_basis t = CreditMult \<and> sl_value t * ls_limit s \<ge> width
                     then Some StopNeverFires else None))"

definition leg_key :: "leg \<Rightarrow> call_put \<times> decimal \<times> date" where
  "leg_key g = (lg_right g, lg_strike g, lg_expiry g)"

definition leg_count :: "leg list \<Rightarrow> call_put \<Rightarrow> side \<Rightarrow> nat" where
  "leg_count gs cp a = length (filter (\<lambda>g. lg_right g = cp \<and> lg_action g = a) gs)"

definition exit_rules_ok :: "exit_rules \<Rightarrow> bool" where
  "exit_rules_ok ex \<longleftrightarrow> (case xr_take_profit ex of None \<Rightarrow> True | Some t \<Rightarrow> take_profit_ok t)
     \<and> (case xr_stop_loss ex of None \<Rightarrow> True | Some t \<Rightarrow> stop_loss_ok t) \<and> 1 \<le> xr_stop_confirm_ticks ex"

definition structure_fields_ok :: "leg_structure \<Rightarrow> bool" where
  "structure_fields_ok s \<longleftrightarrow> ls_id s \<noteq> [] \<and> ls_underlying s \<noteq> [] \<and> ls_legs s \<noteq> []
     \<and> list_all (\<lambda>g. lg_strike g > 0) (ls_legs s) \<and> 0 < ls_quantity s \<and> 0 < ls_limit s
     \<and> exit_rules_ok (ls_exits s) \<and> (case ls_ref_mid s of None \<Rightarrow> True | Some m \<Rightarrow> 0 < m)"

definition make_structure :: "leg_structure \<Rightarrow> plan_error + leg_structure" where
  "make_structure s =
     (if \<not> structure_fields_ok s then Inl FieldInvalid
      else if ls_deal_id s \<noteq> None \<and> ls_ref_mid s = None then Inl DealNeedsRefMid
      else if \<not> distinct (map leg_key (ls_legs s)) then Inl DuplicateLegs
      else if leg_count (ls_legs s) Call Sell > leg_count (ls_legs s) Call Buy then Inl (UncoveredSell Call)
      else if leg_count (ls_legs s) Put Sell > leg_count (ls_legs s) Put Buy then Inl (UncoveredSell Put)
      else if ls_exit_deadline s \<ge> first_expiry s then Inl DeadlineNotBeforeExpiry
      else if ls_entry_date s \<ge> ls_exit_deadline s then Inl EntryNotBeforeDeadline
      else case check_shape s of
          Some e \<Rightarrow> Inl e
        | None \<Rightarrow> (case check_exits s of Some e \<Rightarrow> Inl e | None \<Rightarrow> Inr s))"

subsection \<open>Put spreads\<close>

record put_spread =
  ps_id :: string
  ps_underlying :: string
  ps_entry_date :: date
  ps_expiry :: date
  ps_long_strike :: decimal
  ps_short_strike :: decimal
  ps_quantity :: int
  ps_limit_cap :: decimal
  ps_exit_deadline :: date
  ps_take_profit_frac :: "decimal option"

definition make_put_spread :: "put_spread \<Rightarrow> plan_error + put_spread" where
  "make_put_spread p =
     (if ps_id p = [] \<or> ps_underlying p = [] \<or> \<not> 0 < ps_quantity p \<or> \<not> 0 < ps_limit_cap p
         \<or> (case ps_take_profit_frac p of None \<Rightarrow> False | Some f \<Rightarrow> \<not> (0 \<le> f \<and> f \<le> 1))
      then Inl FieldInvalid
      else if ps_long_strike p \<le> ps_short_strike p then Inl PutSpreadInverted
      else if ps_exit_deadline p \<ge> ps_expiry p then Inl DeadlineNotBeforeExpiry
      else if ps_entry_date p \<ge> ps_exit_deadline p then Inl EntryNotBeforeDeadline
      else Inr p)"

definition spread_width :: "put_spread \<Rightarrow> decimal" where
  "spread_width p = ps_long_strike p - ps_short_strike p"

definition max_debit :: "put_spread \<Rightarrow> decimal" where
  "max_debit p = ps_limit_cap p * of_int (ps_quantity p) * 100"

definition max_value :: "put_spread \<Rightarrow> decimal" where
  "max_value p = spread_width p * of_int (ps_quantity p) * 100"

definition spread_legs :: "put_spread \<Rightarrow> leg list" where
  "spread_legs p =
     [\<lparr>lg_right = Put, lg_action = Buy, lg_strike = ps_long_strike p, lg_expiry = ps_expiry p\<rparr>,
      \<lparr>lg_right = Put, lg_action = Sell, lg_strike = ps_short_strike p, lg_expiry = ps_expiry p\<rparr>]"

definition as_spec :: "put_spread \<Rightarrow> plan_error + leg_structure" where
  "as_spec p = make_structure
     \<lparr>ls_id = ps_id p, ls_underlying = ps_underlying p, ls_kind = DebitVertical, ls_legs = spread_legs p,
      ls_quantity = ps_quantity p, ls_entry_date = ps_entry_date p,
      ls_exit_deadline = ps_exit_deadline p, ls_limit = ps_limit_cap p,
      ls_exits = \<lparr>xr_take_profit = map_option (\<lambda>f. \<lparr>tp_basis = WidthFrac, tp_value = f\<rparr>) (ps_take_profit_frac p),
        xr_stop_loss = None, xr_stop_confirm_ticks = 3, xr_touch = True, xr_breach = False\<rparr>,
      ls_deal_id = None, ls_ref_mid = None\<rparr>"

subsection \<open>Orders on a structure\<close>

text \<open>A side is a string on the wire; \<open>None\<close> is anything but \<open>BUY\<close> and \<open>SELL\<close>.\<close>

definition validate_package_order ::
  "leg_structure \<Rightarrow> side option \<Rightarrow> int \<Rightarrow> decimal option \<Rightarrow> plan_error + unit" where
  "validate_package_order s side_in qty limit_in = (case side_in of
      None \<Rightarrow> Inl SideRefused
    | Some a \<Rightarrow>
        if \<not> (0 < qty \<and> qty \<le> ls_quantity s) then Inl QuantityRefused
        else (case limit_in of
            None \<Rightarrow> Inl LimitNotFinite
          | Some limit \<Rightarrow>
              if \<not> limit > 0 then Inl LimitNotPositive
              else if a = open_side s
              then (if is_credit s \<and> limit < ls_limit s then Inl BelowCreditFloor
                    else if \<not> is_credit s \<and> limit > ls_limit s then Inl AboveDebitCap
                    else Inr ())
              else if is_credit s \<and> limit > the (structure_width s) then Inl AboveWidth
              else Inr ()))"

definition whatif_margin_factor :: decimal where "whatif_margin_factor = 11 / 10"

definition margin_within_max_loss :: "leg_structure \<Rightarrow> int \<Rightarrow> decimal option \<Rightarrow> decimal \<Rightarrow> bool" where
  "margin_within_max_loss s qty init_margin_change factor = (case init_margin_change of
      None \<Rightarrow> False
    | Some m \<Rightarrow> m \<le> factor * max_loss_per_package s * 100 * of_int qty)"

subsection \<open>The book\<close>

datatype structure_table = LegTable leg_structure | SpreadTable put_spread

fun is_leg_table :: "structure_table \<Rightarrow> bool" where
  "is_leg_table (LegTable _) = True"
| "is_leg_table (SpreadTable _) = False"

text \<open>\<open>parse_structure\<close>: the shape of a table picks its model.\<close>

fun parse_structure :: "structure_table \<Rightarrow> plan_error + structure_table" where
  "parse_structure (LegTable s) = (case make_structure s of Inl e \<Rightarrow> Inl e | Inr t \<Rightarrow> Inr (LegTable t))"
| "parse_structure (SpreadTable p) = (case make_put_spread p of Inl e \<Rightarrow> Inl e | Inr q \<Rightarrow> Inr (SpreadTable q))"

datatype account_mode = Paper | Live

record trade_plan =
  tn_id :: string
  tn_account_mode :: account_mode
  tn_structures :: "put_spread list"
  tn_leg_structures :: "leg_structure list"
  tn_total_debit_cap :: decimal
  tn_entry_window_start :: string
  tn_entry_window_end :: string

definition committed_at_caps :: "trade_plan \<Rightarrow> decimal" where
  "committed_at_caps t = sum_list (map max_debit (tn_structures t)) + sum_list (map max_loss (tn_leg_structures t))"

definition live_hard_rail :: decimal where "live_hard_rail = 5000"

text \<open>\<open>_route_structures\<close>: put-spread tables stay, leg tables join the leg structures given by name.\<close>

definition route_structures ::
  "structure_table list \<Rightarrow> leg_structure list \<Rightarrow> put_spread list \<times> leg_structure list" where
  "route_structures tables extra =
     (List.map_filter (\<lambda>t. case t of SpreadTable p \<Rightarrow> Some p | LegTable _ \<Rightarrow> None) tables,
      extra @ List.map_filter (\<lambda>t. case t of LegTable s \<Rightarrow> Some s | SpreadTable _ \<Rightarrow> None) tables)"

fun validate_all :: "('a \<Rightarrow> plan_error + 'a) \<Rightarrow> 'a list \<Rightarrow> plan_error option" where
  "validate_all mk [] = None"
| "validate_all mk (x # xs) = (case mk x of Inl e \<Rightarrow> Some e | Inr _ \<Rightarrow> validate_all mk xs)"

definition check_book :: "trade_plan \<Rightarrow> plan_error + trade_plan" where
  "check_book t =
     (let ids = map ps_id (tn_structures t) @ map ls_id (tn_leg_structures t)
      in if tn_structures t = [] \<and> tn_leg_structures t = [] then Inl EmptyBook
         else if \<not> distinct ids then Inl DuplicateStructureIds
         else if committed_at_caps t > tn_total_debit_cap t then Inl BookCapExceeded
         else if tn_account_mode t = Live \<and> committed_at_caps t > live_hard_rail then Inl LiveRailExceeded
         else Inr t)"

definition make_trade_plan ::
  "string \<Rightarrow> account_mode \<Rightarrow> structure_table list \<Rightarrow> leg_structure list \<Rightarrow> decimal \<Rightarrow> string \<Rightarrow> string
     \<Rightarrow> plan_error + trade_plan" where
  "make_trade_plan pid mode tables extra cap window_start window_end =
     (case route_structures tables extra of (spreads, legs) \<Rightarrow>
        if pid = [] \<or> \<not> 0 < cap then Inl FieldInvalid
        else case validate_all make_put_spread spreads of
            Some e \<Rightarrow> Inl e
          | None \<Rightarrow> (case validate_all make_structure legs of
              Some e \<Rightarrow> Inl e
            | None \<Rightarrow> check_book
                \<lparr>tn_id = pid, tn_account_mode = mode, tn_structures = spreads, tn_leg_structures = legs,
                 tn_total_debit_cap = cap, tn_entry_window_start = window_start,
                 tn_entry_window_end = window_end\<rparr>))"

fun specs_loop :: "put_spread list \<Rightarrow> plan_error + leg_structure list" where
  "specs_loop [] = Inr []"
| "specs_loop (p # ps) = (case as_spec p of
      Inl e \<Rightarrow> Inl e
    | Inr s \<Rightarrow> (case specs_loop ps of Inl e \<Rightarrow> Inl e | Inr ss \<Rightarrow> Inr (s # ss)))"

definition all_specs :: "trade_plan \<Rightarrow> plan_error + leg_structure list" where
  "all_specs t = (case specs_loop (tn_structures t) of
      Inl e \<Rightarrow> Inl e | Inr ss \<Rightarrow> Inr (ss @ tn_leg_structures t))"

record rail_reading =
  rr_committed :: decimal
  rr_book_cap :: decimal
  rr_live_rail :: decimal
  rr_account_mode :: account_mode
  rr_within_book_cap :: bool
  rr_within_live_rail :: bool

definition read_rails :: "trade_plan \<Rightarrow> rail_reading" where
  "read_rails t =
     (let committed = committed_at_caps t
      in \<lparr>rr_committed = committed, rr_book_cap = tn_total_debit_cap t, rr_live_rail = live_hard_rail,
          rr_account_mode = tn_account_mode t, rr_within_book_cap = (committed \<le> tn_total_debit_cap t),
          rr_within_live_rail = (tn_account_mode t \<noteq> Live \<or> committed \<le> live_hard_rail)\<rparr>)"

text \<open>\<open>load_plan\<close> and \<open>load_legacy_plan\<close> on the decoded file.\<close>

definition load_plan ::
  "string \<Rightarrow> account_mode \<Rightarrow> structure_table list \<Rightarrow> leg_structure list \<Rightarrow> decimal \<Rightarrow> string \<Rightarrow> string
     \<Rightarrow> plan_error + trade_plan" where
  "load_plan pid mode tables extra cap window_start window_end =
     (if tables = [] then Inl EmptyBook
      else make_trade_plan pid mode tables extra cap window_start window_end)"

definition load_legacy_plan ::
  "string \<Rightarrow> account_mode \<Rightarrow> structure_table list \<Rightarrow> leg_structure list \<Rightarrow> decimal \<Rightarrow> string \<Rightarrow> string
     \<Rightarrow> plan_error + trade_plan" where
  "load_legacy_plan pid mode tables extra cap window_start window_end =
     (case load_plan pid mode tables extra cap window_start window_end of
        Inl e \<Rightarrow> Inl e
      | Inr t \<Rightarrow> if tn_leg_structures t \<noteq> [] then Inl NotLegacy else Inr t)"

end
