(* ===== verification/DefinedRisk.thy ===== *)
theory DefinedRisk
  imports TradePlans
begin

text \<open>
  The promise of \<open>trex/plan.py\<close>: a structure that validates has a loss bounded by \<open>max_loss\<close>, whatever
  the market does, as long as its orders pass \<open>validate_package_order\<close>; and a book that validates is
  bounded by its caps. The market is a spot price and a value for every option, at least its
  intrinsic value (an American option can be exercised) and exactly that at its expiry.
\<close>

subsection \<open>Intrinsic values of a spread\<close>

lemma put_spread_value:
  "k \<le> k' \<Longrightarrow> 0 \<le> intrinsic_value Put k' x - intrinsic_value Put k x
     \<and> intrinsic_value Put k' x - intrinsic_value Put k x \<le> k' - k"
  by (auto simp: intrinsic_value_def max_def)

lemma call_spread_value:
  "k \<le> k' \<Longrightarrow> 0 \<le> intrinsic_value Call k x - intrinsic_value Call k' x
     \<and> intrinsic_value Call k x - intrinsic_value Call k' x \<le> k' - k"
  by (auto simp: intrinsic_value_def max_def)

subsection \<open>The value of a package\<close>

type_synonym option_values = "call_put \<Rightarrow> decimal \<Rightarrow> date \<Rightarrow> decimal"

definition leg_value :: "option_values \<Rightarrow> leg \<Rightarrow> decimal" where
  "leg_value V g = leg_sign g * V (lg_right g) (lg_strike g) (lg_expiry g)"

definition package_value :: "option_values \<Rightarrow> leg_structure \<Rightarrow> decimal" where
  "package_value V s = sum_list (map (leg_value V) (package_legs s))"

definition settles :: "leg_structure \<Rightarrow> decimal \<Rightarrow> option_values \<Rightarrow> bool" where
  "settles s spot V \<longleftrightarrow> (\<forall>cp k e. intrinsic_value cp k spot \<le> V cp k e)
     \<and> (\<forall>cp k. V cp k (first_expiry s) = intrinsic_value cp k spot)"

lemma leg_value_flipped: "leg_value V (flipped g) = - leg_value V g"
  by (simp add: leg_value_def flipped_def leg_sign_def flip_side_def split: side.split)

lemma package_value_legs:
  "package_value V s = (if is_credit s then - sum_list (map (leg_value V) (ls_legs s))
                        else sum_list (map (leg_value V) (ls_legs s)))"
  by (simp add: package_value_def package_legs_def comp_def leg_value_flipped uminus_sum_list_map)

lemma one_of_each_Some:
  assumes "one_of_each gs = Some (b, a)"
  shows "(gs = [b, a] \<or> gs = [a, b]) \<and> lg_action b = Buy \<and> lg_action a = Sell"
proof -
  have "length gs = 2" using assms by (simp add: one_of_each_def split: if_splits)
  then obtain x y where "gs = [x, y]" by (cases gs; cases "tl gs") auto
  then show ?thesis using assms by (cases "lg_action x"; cases "lg_action y") (auto simp: one_of_each_def)
qed

lemma sum_by_right:
  "sum_list (map f gs) = sum_list (map f (sorted_right Put gs)) + sum_list (map f (sorted_right Call gs))"
  for f :: "leg \<Rightarrow> decimal"
proof -
  have "mset (filter (\<lambda>g. lg_right g = Put) gs) + mset (filter (\<lambda>g. lg_right g = Call) gs) = mset gs"
  proof (induction gs)
    case (Cons g gs)
    then show ?case by (cases "lg_right g") auto
  qed simp
  then have "mset gs = mset (sorted_right Put gs) + mset (sorted_right Call gs)"
    by (simp add: sorted_right_def del: mset_filter)
  then show ?thesis
    by (simp only: sum_mset_sum_list [symmetric] mset_map image_mset_union sum_mset.union)
qed

subsection \<open>Validated structures\<close>

lemma make_structure_Inr:
  "make_structure s = Inr t \<longleftrightarrow> t = s \<and> structure_fields_ok s \<and> (ls_deal_id s = None \<or> ls_ref_mid s \<noteq> None)
     \<and> distinct (map leg_key (ls_legs s))
     \<and> leg_count (ls_legs s) Call Sell \<le> leg_count (ls_legs s) Call Buy
     \<and> leg_count (ls_legs s) Put Sell \<le> leg_count (ls_legs s) Put Buy
     \<and> ls_exit_deadline s < first_expiry s \<and> ls_entry_date s < ls_exit_deadline s
     \<and> check_shape s = None \<and> check_exits s = None"
  by (auto simp: make_structure_def split: option.splits)

lemma make_put_spread_Inr:
  "make_put_spread p = Inr q \<Longrightarrow> q = p \<and> 0 < ps_quantity p \<and> 0 < ps_limit_cap p
     \<and> ps_short_strike p < ps_long_strike p"
  by (auto simp: make_put_spread_def split: if_splits option.splits)

text \<open>What the shape of each kind gives: the value in debit orientation is never negative, and where
  strikes fix it, at most the width, which the limit stays below.\<close>

definition bounded_by_width :: "leg_structure \<Rightarrow> option_values \<Rightarrow> bool" where
  "bounded_by_width s V \<longleftrightarrow> 0 \<le> package_value V s
     \<and> (is_credit s \<longrightarrow> (\<exists>w. structure_width s = Some w \<and> package_value V s \<le> w \<and> ls_limit s < w))"

lemma two_leg_value:
  assumes "one_of_each (ls_legs s) = Some (b, a)"
  shows "package_value V s = (if is_credit s then leg_value V a + leg_value V b else leg_value V b + leg_value V a)
     * (if is_credit s then -1 else 1)"
    and "first_expiry s = min (lg_expiry b) (lg_expiry a)"
    and "ls_kind s \<in> {DebitVertical, CreditVertical} \<Longrightarrow> structure_width s = Some \<bar>lg_strike b - lg_strike a\<bar>"
    and "leg_value V b = V (lg_right b) (lg_strike b) (lg_expiry b)"
    and "leg_value V a = - V (lg_right a) (lg_strike a) (lg_expiry a)"
  using one_of_each_Some [OF assms]
  by (auto simp: package_value_legs first_expiry_def structure_width_def leg_value_def leg_sign_def
      min.commute abs_minus_commute)

lemma vertical_bounded:
  assumes shape: "shape_vertical s = None" and kind: "ls_kind s \<in> {DebitVertical, CreditVertical}"
    and market: "settles s spot V"
  shows "bounded_by_width s V"
proof -
  obtain b a where legs: "one_of_each (ls_legs s) = Some (b, a)"
    and same: "lg_right b = lg_right a" "lg_expiry b = lg_expiry a"
    and strikes: "(lg_strike b > lg_strike a) = ((lg_right b = Put) = (ls_kind s = DebitVertical))"
    and limit: "ls_limit s < \<bar>lg_strike b - lg_strike a\<bar>"
    using shape by (auto simp: shape_vertical_def Let_def split: option.splits if_splits)
  note two = two_leg_value [OF legs]
  have V: "V (lg_right g) (lg_strike g) (lg_expiry g) = intrinsic_value (lg_right g) (lg_strike g) spot"
    if "g = a \<or> g = b" for g
    using market that two(2) same by (auto simp: settles_def)
  have worth: "leg_value V b = intrinsic_value (lg_right a) (lg_strike b) spot"
      "leg_value V a = - intrinsic_value (lg_right a) (lg_strike a) spot"
    using two(4,5) [of V] V [of a] V [of b] same by simp_all
  have credit: "is_credit s \<longleftrightarrow> ls_kind s = CreditVertical" using kind by (auto simp: is_credit_def)
  show ?thesis
  proof (cases "lg_right a")
    case Put
    then show ?thesis
      using put_spread_value [of "lg_strike a" "lg_strike b" spot] put_spread_value [of "lg_strike b" "lg_strike a" spot]
        strikes limit kind credit same(1) two(1) [of V] two(3) worth
      by (auto simp: bounded_by_width_def)
  next
    case Call
    then show ?thesis
      using call_spread_value [of "lg_strike a" "lg_strike b" spot] call_spread_value [of "lg_strike b" "lg_strike a" spot]
        strikes limit kind credit same(1) two(1) [of V] two(3) worth
      by (auto simp: bounded_by_width_def)
  qed
qed

lemma sorted_right_facts:
  assumes "sorted_right cp gs = [x, y]"
  shows "lg_right x = cp" "lg_right y = cp" "x \<in> set gs" "y \<in> set gs"
proof -
  have "set (sorted_right cp gs) \<subseteq> {g \<in> set gs. lg_right g = cp}" by (auto simp: sorted_right_def)
  then show "lg_right x = cp" "lg_right y = cp" "x \<in> set gs" "y \<in> set gs" unfolding assms by auto
qed

lemma condor_bounded:
  assumes shape: "shape_iron_condor s = None" and kind: "ls_kind s = IronCondor"
    and market: "settles s spot V"
  shows "bounded_by_width s V"
proof -
  let ?gs = "ls_legs s"
  obtain p0 p1 c0 c1 where legs: "sorted_right Put ?gs = [p0, p1]" "sorted_right Call ?gs = [c0, c1]"
    and expiry: "card (set (map lg_expiry ?gs)) = 1"
    and acts: "lg_action p0 = Buy" "lg_action p1 = Sell" "lg_action c0 = Sell" "lg_action c1 = Buy"
    and strikes: "lg_strike p0 < lg_strike p1" "lg_strike p1 < lg_strike c0" "lg_strike c0 < lg_strike c1"
    and limit: "ls_limit s < max (lg_strike p1 - lg_strike p0) (lg_strike c1 - lg_strike c0)"
    using shape by (auto simp: shape_iron_condor_def Let_def split: list.splits if_splits)
  note puts = sorted_right_facts [OF legs(1)] and calls = sorted_right_facts [OF legs(2)]
  obtain e where e: "set (map lg_expiry ?gs) = {e}" using expiry by (auto simp: card_1_singleton_iff)
  then have first: "first_expiry s = e" by (simp add: first_expiry_def)
  have "lg_expiry g = e" if "g \<in> set ?gs" for g using e that by auto
  then have V: "V (lg_right g) (lg_strike g) (lg_expiry g) = intrinsic_value (lg_right g) (lg_strike g) spot"
    if "g \<in> set ?gs" for g using market first that by (simp add: settles_def)
  have credit: "is_credit s" using kind by (simp add: is_credit_def)
  have "package_value V s = - sum_list (map (leg_value V) ?gs)" using credit by (simp add: package_value_legs)
  also have "\<dots> = (intrinsic_value Put (lg_strike p1) spot - intrinsic_value Put (lg_strike p0) spot)
      + (intrinsic_value Call (lg_strike c0) spot - intrinsic_value Call (lg_strike c1) spot)"
    using V [OF puts(3)] V [OF puts(4)] V [OF calls(3)] V [OF calls(4)] puts(1,2) calls(1,2) acts
    by (simp add: sum_by_right [of _ ?gs] legs leg_value_def leg_sign_def)
  finally have "package_value V s = \<dots>" .
  moreover have "structure_width s = Some (max (lg_strike p1 - lg_strike p0) (lg_strike c1 - lg_strike c0))"
    using kind by (simp add: structure_width_def condor_wings_def legs)
  ultimately show ?thesis using strikes limit credit
    by (auto simp: bounded_by_width_def intrinsic_value_def max_def)
qed

lemma long_single_bounded:
  assumes "shape_long_single s = None" "ls_kind s = LongSingle" "settles s spot V"
  shows "bounded_by_width s V"
proof -
  obtain g where g: "ls_legs s = [g]" "lg_action g = Buy"
    using assms(1) by (auto simp: shape_long_single_def split: list.splits if_splits)
  have "0 \<le> intrinsic_value (lg_right g) (lg_strike g) spot" by (rule intrinsic_nonneg)
  also have "\<dots> \<le> V (lg_right g) (lg_strike g) (lg_expiry g)" using assms(3) by (simp add: settles_def)
  finally show ?thesis using g assms(2)
    by (simp add: bounded_by_width_def is_credit_def package_value_legs leg_value_def leg_sign_def)
qed

text \<open>The long leg outlives the short one and is worth at least its intrinsic value, which its strike
  puts at or above the short leg's.\<close>

lemma two_expiry_bounded:
  assumes shape: "shape_two_expiry s = None" and kind: "ls_kind s \<in> {CalendarSpread, Diagonal}"
    and market: "settles s spot V"
  shows "bounded_by_width s V"
proof -
  obtain b a where legs: "one_of_each (ls_legs s) = Some (b, a)"
    and same: "lg_right b = lg_right a" and later: "lg_expiry a < lg_expiry b"
    and strikes: "if lg_right b = Call then lg_strike b \<le> lg_strike a else lg_strike a \<le> lg_strike b"
    using shape by (auto simp: shape_two_expiry_def split: option.splits if_splits)
  note two = two_leg_value [OF legs]
  have credit: "\<not> is_credit s" using kind by (auto simp: is_credit_def)
  have short: "leg_value V a = - intrinsic_value (lg_right a) (lg_strike a) spot"
    using market later by (simp add: settles_def two(2,5))
  have long: "leg_value V b \<ge> intrinsic_value (lg_right a) (lg_strike b) spot"
    using market same by (simp add: settles_def two(4))
  have "intrinsic_value (lg_right a) (lg_strike a) spot \<le> intrinsic_value (lg_right a) (lg_strike b) spot"
    using strikes same by (cases "lg_right a") (auto simp: intrinsic_value_def)
  then show ?thesis using two(1) [of V] credit short long by (simp add: bounded_by_width_def)
qed

lemma structure_bounded:
  assumes "make_structure s = Inr s" "settles s spot V"
  shows "bounded_by_width s V"
proof -
  have shape: "check_shape s = None" using assms(1) by (simp add: make_structure_Inr)
  show ?thesis
  proof (cases "ls_kind s")
    case LongSingle
    then show ?thesis using shape assms(2) long_single_bounded by (simp add: check_shape_def)
  next
    case DebitVertical
    then show ?thesis using shape assms(2) vertical_bounded by (simp add: check_shape_def)
  next
    case CreditVertical
    then show ?thesis using shape assms(2) vertical_bounded by (simp add: check_shape_def)
  next
    case IronCondor
    then show ?thesis using shape assms(2) condor_bounded by (simp add: check_shape_def)
  next
    case CalendarSpread
    then show ?thesis using shape assms(2) two_expiry_bounded by (simp add: check_shape_def)
  next
    case Diagonal
    then show ?thesis using shape assms(2) two_expiry_bounded by (simp add: check_shape_def)
  qed
qed

text \<open>A credit structure has a width above its floor, whatever the market.\<close>

lemma credit_width:
  assumes "make_structure s = Inr s" "is_credit s"
  obtains w where "structure_width s = Some w" "ls_limit s < w"
proof -
  have "settles s 0 (\<lambda>cp k e. intrinsic_value cp k 0)" by (simp add: settles_def)
  from structure_bounded [OF assms(1) this] assms(2) that show thesis by (auto simp: bounded_by_width_def)
qed

lemma max_loss_per_package_pos: "make_structure s = Inr s \<Longrightarrow> 0 < max_loss_per_package s"
proof (cases "is_credit s")
  case True
  assume "make_structure s = Inr s"
  then show ?thesis using credit_width [OF _ True] True by (metis diff_gt_0_iff_gt max_loss_per_package_def option.sel)
next
  case False
  assume "make_structure s = Inr s"
  then show ?thesis using False by (simp add: max_loss_per_package_def make_structure_Inr structure_fields_ok_def)
qed

subsection \<open>Positions\<close>

text \<open>A position of \<open>q\<close> packages opened at \<open>p\<close> by a validated order, filled at its limit or better.\<close>

definition opened_at :: "leg_structure \<Rightarrow> int \<Rightarrow> decimal \<Rightarrow> bool" where
  "opened_at s q p \<longleftrightarrow> (\<exists>limit. validate_package_order s (Some (open_side s)) q (Some limit) = Inr ()
     \<and> (if is_credit s then limit \<le> p else p \<le> limit))"

text \<open>Its end: a validated closing order, or the options' settlement at the first expiry.\<close>

definition closed_at :: "leg_structure \<Rightarrow> int \<Rightarrow> decimal \<Rightarrow> bool" where
  "closed_at s q v \<longleftrightarrow> (\<exists>limit. validate_package_order s (Some (close_side s)) q (Some limit) = Inr ()
     \<and> (if is_credit s then v \<le> limit else limit \<le> v))"

definition settled_at :: "leg_structure \<Rightarrow> decimal \<Rightarrow> bool" where
  "settled_at s v \<longleftrightarrow> (\<exists>spot V. settles s spot V \<and> v = package_value V s)"

definition position_loss :: "leg_structure \<Rightarrow> int \<Rightarrow> decimal \<Rightarrow> decimal \<Rightarrow> decimal" where
  "position_loss s q p v = (if is_credit s then v - p else p - v) * 100 * of_int q"

lemma opened_limit:
  "opened_at s q p \<Longrightarrow> 0 < q \<and> q \<le> ls_quantity s \<and> (if is_credit s then ls_limit s \<le> p else p \<le> ls_limit s)"
  by (auto simp: opened_at_def validate_package_order_def split: if_splits)

lemma end_value:
  assumes "make_structure s = Inr s" "closed_at s q v \<or> settled_at s v"
  shows "if is_credit s then v \<le> the (structure_width s) else 0 \<le> v"
  using assms(2)
proof
  assume "closed_at s q v"
  then show ?thesis
    by (auto simp: closed_at_def validate_package_order_def close_side_def open_side_def split: if_splits)
next
  assume "settled_at s v"
  then obtain spot V where "settles s spot V" "v = package_value V s" by (auto simp: settled_at_def)
  moreover have "bounded_by_width s V" using structure_bounded [OF assms(1)] calculation(1) .
  ultimately show ?thesis by (auto simp: bounded_by_width_def)
qed

lemma position_loss_bounded:
  assumes ok: "make_structure s = Inr s" and opened: "opened_at s q p"
    and ended: "closed_at s q v \<or> settled_at s v"
  shows "position_loss s q p v \<le> max_loss s"
proof -
  have per: "(if is_credit s then v - p else p - v) \<le> max_loss_per_package s"
    using opened_limit [OF opened] end_value [OF ok ended]
    by (cases "is_credit s") (auto simp: max_loss_per_package_def)
  have q: "0 < q" "q \<le> ls_quantity s" using opened_limit [OF opened] by auto
  have "(if is_credit s then v - p else p - v) * (100 * of_int q) \<le> max_loss_per_package s * (100 * of_int q)"
    using per q(1) by (intro mult_right_mono) simp_all
  also have "\<dots> \<le> max_loss_per_package s * (100 * of_int (ls_quantity s))"
    using max_loss_per_package_pos [OF ok] q(2) by (intro mult_left_mono) simp_all
  finally show ?thesis by (simp add: position_loss_def max_loss_def mult.assoc)
qed

text \<open>Claim C10. Defined risk: a position in a validated structure, opened by a validated order filled at
  its limit or better and ended by a validated closing order or by settlement at the first expiry at
  any spot price and any option values that respect early exercise, never loses more than
  \<open>max_loss\<close>, for every kind of structure.\<close>

theorem defined_risk:
  assumes "make_structure s = Inr s" "opened_at s q p" "closed_at s q v \<or> settled_at s v"
  shows "position_loss s q p v \<le> max_loss s"
  using assms by (rule position_loss_bounded)

subsection \<open>The book\<close>

text \<open>What a structure, or a put spread bought at no more than its cap, may have lost.\<close>

definition structure_lost :: "leg_structure \<Rightarrow> decimal \<Rightarrow> bool" where
  "structure_lost s x \<longleftrightarrow> x = 0
     \<or> (\<exists>q p v. opened_at s q p \<and> (closed_at s q v \<or> settled_at s v) \<and> x = position_loss s q p v)"

definition spread_lost :: "put_spread \<Rightarrow> decimal \<Rightarrow> bool" where
  "spread_lost p x \<longleftrightarrow> x = 0
     \<or> (\<exists>q paid v. 0 < q \<and> q \<le> ps_quantity p \<and> paid \<le> ps_limit_cap p
          \<and> (0 < v \<or> (\<exists>spot. v = intrinsic_value Put (ps_long_strike p) spot
                                 - intrinsic_value Put (ps_short_strike p) spot))
          \<and> x = (paid - v) * of_int q * 100)"

lemma structure_lost_le: "make_structure s = Inr s \<Longrightarrow> structure_lost s x \<Longrightarrow> x \<le> max_loss s"
proof -
  assume ok: "make_structure s = Inr s" and lost: "structure_lost s x"
  have "0 \<le> max_loss s"
    using max_loss_per_package_pos [OF ok] ok by (simp add: max_loss_def make_structure_Inr structure_fields_ok_def)
  then show "x \<le> max_loss s" using lost position_loss_bounded [OF ok] by (auto simp: structure_lost_def)
qed

lemma spread_lost_le: "make_put_spread p = Inr p \<Longrightarrow> spread_lost p x \<Longrightarrow> x \<le> max_debit p"
proof -
  assume "make_put_spread p = Inr p" and lost: "spread_lost p x"
  then have ok: "0 < ps_quantity p" "0 < ps_limit_cap p" "ps_short_strike p \<le> ps_long_strike p"
    using make_put_spread_Inr [of p p] by auto
  show "x \<le> max_debit p"
  proof (cases "x = 0")
    case True
    then show ?thesis using ok by (simp add: max_debit_def)
  next
    case False
    then obtain q paid v where q: "0 < q" "q \<le> ps_quantity p" and paid: "paid \<le> ps_limit_cap p"
      and v: "0 < v \<or> (\<exists>spot. v = intrinsic_value Put (ps_long_strike p) spot
                                 - intrinsic_value Put (ps_short_strike p) spot)"
      and x: "x = (paid - v) * of_int q * 100"
      using lost by (auto simp: spread_lost_def)
    have "0 \<le> v" using v put_spread_value [OF ok(3)] by fastforce
    then have "(paid - v) * of_int q \<le> ps_limit_cap p * of_int q"
      using paid q(1) by (intro mult_right_mono) simp_all
    also have "\<dots> \<le> ps_limit_cap p * of_int (ps_quantity p)"
      using ok(2) q(2) by (intro mult_left_mono) simp_all
    finally show ?thesis by (simp add: x max_debit_def)
  qed
qed

lemma validate_all_None: "validate_all mk xs = None \<longleftrightarrow> (\<forall>x \<in> set xs. \<exists>y. mk x = Inr y)"
  by (induction xs) (auto split: sum.split)

lemma check_book_Inr:
  "check_book b = Inr t \<longleftrightarrow> t = b \<and> (tn_structures b \<noteq> [] \<or> tn_leg_structures b \<noteq> [])
     \<and> distinct (map ps_id (tn_structures b) @ map ls_id (tn_leg_structures b))
     \<and> committed_at_caps b \<le> tn_total_debit_cap b
     \<and> (tn_account_mode b = Live \<longrightarrow> committed_at_caps b \<le> live_hard_rail)"
  by (simp add: check_book_def Let_def not_less raise_simps) blast

lemma make_trade_plan_Inr:
  assumes "make_trade_plan pid mode tables extra cap w0 w1 = Inr t"
  shows "\<forall>p \<in> set (tn_structures t). make_put_spread p = Inr p"
    and "\<forall>s \<in> set (tn_leg_structures t). make_structure s = Inr s"
    and "committed_at_caps t \<le> tn_total_debit_cap t"
    and "tn_account_mode t = Live \<Longrightarrow> committed_at_caps t \<le> live_hard_rail"
    and "tn_account_mode t = mode" and "tn_total_debit_cap t = cap"
proof -
  obtain spreads legs where route: "route_structures tables extra = (spreads, legs)" by fastforce
  define b where "b = \<lparr>tn_id = pid, tn_account_mode = mode, tn_structures = spreads, tn_leg_structures = legs,
        tn_total_debit_cap = cap, tn_entry_window_start = w0, tn_entry_window_end = w1\<rparr>"
  have valid: "validate_all make_put_spread spreads = None" "validate_all make_structure legs = None"
    and book: "check_book b = Inr t"
    using assms unfolding make_trade_plan_def route b_def by (auto split: if_splits option.splits)
  note caps = book [unfolded check_book_Inr]
  have t: "t = b" using caps by simp
  have parts: "tn_structures t = spreads" "tn_leg_structures t = legs" by (simp_all add: t b_def)
  show "\<forall>p \<in> set (tn_structures t). make_put_spread p = Inr p"
  proof
    fix p
    assume "p \<in> set (tn_structures t)"
    then obtain q where "make_put_spread p = Inr q" using valid(1) by (auto simp: validate_all_None parts)
    then show "make_put_spread p = Inr p" using make_put_spread_Inr [of p q] by simp
  qed
  show "\<forall>s \<in> set (tn_leg_structures t). make_structure s = Inr s"
  proof
    fix s
    assume "s \<in> set (tn_leg_structures t)"
    then obtain u where "make_structure s = Inr u" using valid(2) by (auto simp: validate_all_None parts)
    then show "make_structure s = Inr s" using make_structure_Inr [of s u] by simp
  qed
  show "committed_at_caps t \<le> tn_total_debit_cap t"
    and "tn_account_mode t = Live \<Longrightarrow> committed_at_caps t \<le> live_hard_rail"
    using caps by auto
  show "tn_account_mode t = mode" and "tn_total_debit_cap t = cap" by (simp_all add: t b_def)
qed

lemma sum_list_bound: "\<forall>x \<in> set xs. f x \<le> g x \<Longrightarrow> sum_list (map f xs) \<le> sum_list (map g xs)"
  for f :: "'a \<Rightarrow> decimal"
  by (induction xs) (auto intro: add_mono)

text \<open>Claim C11. A book that loads can lose at most its cap, and a live book at most 5000 dollars: whatever
  each of its structures and put spreads lost, each traded by validated orders or not at all and ended
  in any market, the losses add up to no more than the rails.\<close>

theorem book_loss_within_rails:
  assumes "make_trade_plan pid mode tables extra cap w0 w1 = Inr t"
    and "\<forall>s \<in> set (tn_leg_structures t). structure_lost s (lost s)"
    and "\<forall>p \<in> set (tn_structures t). spread_lost p (spent p)"
  shows "sum_list (map spent (tn_structures t)) + sum_list (map lost (tn_leg_structures t)) \<le> cap
    \<and> (mode = Live \<longrightarrow> sum_list (map spent (tn_structures t)) + sum_list (map lost (tn_leg_structures t)) \<le> 5000)"
proof -
  note made = make_trade_plan_Inr [OF assms(1)]
  have "sum_list (map spent (tn_structures t)) \<le> sum_list (map max_debit (tn_structures t))"
    by (rule sum_list_bound) (use assms(3) made(1) spread_lost_le in blast)
  moreover have "sum_list (map lost (tn_leg_structures t)) \<le> sum_list (map max_loss (tn_leg_structures t))"
    by (rule sum_list_bound) (use assms(2) made(2) structure_lost_le in blast)
  ultimately show ?thesis
    using made(3-6) by (auto simp: committed_at_caps_def live_hard_rail_def)
qed

subsection \<open>A concrete book\<close>

definition sample_leg :: "call_put \<Rightarrow> side \<Rightarrow> decimal \<Rightarrow> leg" where
  "sample_leg cp a k = \<lparr>lg_right = cp, lg_action = a, lg_strike = k, lg_expiry = 40\<rparr>"

definition sample_condor :: leg_structure where
  "sample_condor =
     \<lparr>ls_id = ''ic'', ls_underlying = ''SPY'', ls_kind = IronCondor,
      ls_legs = [sample_leg Call Sell 105, sample_leg Put Sell 95, sample_leg Put Buy 90, sample_leg Call Buy 110],
      ls_quantity = 2, ls_entry_date = 10, ls_exit_deadline = 30, ls_limit = 1,
      ls_exits = \<lparr>xr_take_profit = Some \<lparr>tp_basis = CreditFrac, tp_value = 1 / 2\<rparr>,
        xr_stop_loss = Some \<lparr>sl_basis = CreditMult, sl_value = 2\<rparr>, xr_stop_confirm_ticks = 3,
        xr_touch = False, xr_breach = True\<rparr>,
      ls_deal_id = None, ls_ref_mid = None\<rparr>"

definition sample_spread :: put_spread where
  "sample_spread =
     \<lparr>ps_id = ''ps'', ps_underlying = ''SPY'', ps_entry_date = 10, ps_expiry = 40, ps_long_strike = 95,
      ps_short_strike = 90, ps_quantity = 3, ps_limit_cap = 2, ps_exit_deadline = 30,
      ps_take_profit_frac = None\<rparr>"

definition sample_tables :: "structure_table list" where
  "sample_tables = [LegTable sample_condor, SpreadTable sample_spread]"

lemma sample_condor_made: "make_structure sample_condor = Inr sample_condor"
  by code_simp

text \<open>Sold at its floor and settled far below the put wing, the condor loses exactly its \<open>max_loss\<close>.\<close>

lemma sample_condor_ends:
  "opened_at sample_condor 2 1" "settled_at sample_condor 5" "position_loss sample_condor 2 1 5 = 800"
proof -
  have "validate_package_order sample_condor (Some (open_side sample_condor)) 2 (Some 1) = Inr ()" by code_simp
  moreover have credit: "is_credit sample_condor" by code_simp
  ultimately show "opened_at sample_condor 2 1" by (auto simp: opened_at_def)
  have "settles sample_condor 80 (\<lambda>cp k e. intrinsic_value cp k 80)" by (simp add: settles_def)
  moreover have "package_value (\<lambda>cp k e. intrinsic_value cp k 80) sample_condor = 5" by code_simp
  ultimately show "settled_at sample_condor 5" unfolding settled_at_def by metis
  show "position_loss sample_condor 2 1 5 = 800" by code_simp
qed

lemma defined_risk_witness: "position_loss sample_condor 2 1 5 \<le> max_loss sample_condor \<and> max_loss sample_condor = 800"
proof
  show "position_loss sample_condor 2 1 5 \<le> max_loss sample_condor"
    by (rule defined_risk [OF sample_condor_made]) (use sample_condor_ends in auto)
  show "max_loss sample_condor = 800" by code_simp
qed

lemma book_loss_within_rails_witness:
  "\<exists>t. make_trade_plan ''b'' Live sample_tables [] 1500 ''09:45'' ''11:00'' = Inr t
     \<and> (\<Sum>p \<leftarrow> tn_structures t. 600) + (\<Sum>s \<leftarrow> tn_leg_structures t. 800) \<le> (1500 :: decimal)"
proof -
  have "returned (make_trade_plan ''b'' Live sample_tables [] 1500 ''09:45'' ''11:00'')" by code_simp
  then obtain t where t: "make_trade_plan ''b'' Live sample_tables [] 1500 ''09:45'' ''11:00'' = Inr t"
    using returnedD by blast
  have parts: "tn_leg_structures t = [sample_condor]" "tn_structures t = [sample_spread]"
    using t by (auto simp: make_trade_plan_def route_structures_def sample_tables_def map_filter_def check_book_def
        Let_def split: if_splits option.splits)
  have "structure_lost sample_condor 800"
    unfolding structure_lost_def using sample_condor_ends by metis
  moreover have "spread_lost sample_spread 600"
    unfolding spread_lost_def
    by (intro disjI2 exI [of _ 3] exI [of _ 2] exI [of _ 0])
       (auto simp: sample_spread_def intrinsic_value_def intro!: exI [of _ 100])
  ultimately show ?thesis
    using book_loss_within_rails [OF t, of "\<lambda>_. 800" "\<lambda>_. 600"] t by (auto simp: parts)
qed

end
