(* ===== verification/Lease.thy ===== *)
theory Lease
  imports Prelude
begin

text \<open>
  The exclusive run lease, \<open>runstate/lease.py\<close>: the identity of a process, the classification of the
  owner a lease file names against the proc file system, and the two handlers that mutate
  \<open>lease/owner.json\<close>. Each handler runs under an exclusive lock on \<open>lease/adopt.lock\<close>; it is one
  function here, and the composition of the two parts (read and decide, write) that the step relation
  of \<open>lease_step\<close> interleaves with the births and deaths of processes and with reboots.

  The proc file system is a record with the boot id and the text of each live process's \<open>stat\<close> file
  (\<open>None\<close> for a pid without a directory, \<open>Some None\<close> for a file that cannot be read). The contents of
  the owner file are an owner, or bytes that do not decode to one. The checks that a name still denotes
  the held inode, which only fail when someone replaces files behind the locks, are left out.
\<close>

subsection \<open>Processes\<close>

record lease_owner =
  lo_pid :: int
  lo_ticks :: int
  lo_boot :: string
  lo_started :: int
  lo_argv :: string

datatype lease_class = HELD | STALE_DEAD_PID | STALE_BOOT_CHANGED | STALE_PID_REUSED | TORN

record proc_fs =
  pf_boot :: string
  pf_stat :: "int \<Rightarrow> string option option"

definition proc_pid_alive :: "proc_fs \<Rightarrow> int \<Rightarrow> bool" where
  "proc_pid_alive fs pid = (pf_stat fs pid \<noteq> None)"

text \<open>White space of \<open>str\<close>, among the code points below 256.\<close>

definition py_space :: "char \<Rightarrow> bool" where
  "py_space c \<longleftrightarrow> (let n = (of_char c :: nat)
     in 9 \<le> n \<and> n \<le> 13 \<or> 28 \<le> n \<and> n \<le> 32 \<or> n = 133 \<or> n = 160)"

text \<open>\<open>stat_text[stat_text.rfind(")") + 1:].split()\<close>: \<open>after_last c s\<close> is the text after the last
  \<open>c\<close>, the whole text when there is none; \<open>split_space\<close> is \<open>str.split()\<close>, which drops empty words.\<close>

fun after_last :: "char \<Rightarrow> string \<Rightarrow> string" where
  "after_last c [] = []"
| "after_last c (x # xs) = (if x = c \<and> c \<notin> set xs then xs else if c \<in> set xs then after_last c xs else x # xs)"

function split_space :: "string \<Rightarrow> string list" where
  "split_space s =
     (case dropWhile py_space s of
        [] \<Rightarrow> []
      | w \<Rightarrow> takeWhile (Not \<circ> py_space) w # split_space (dropWhile (Not \<circ> py_space) w))"
  by pat_completeness auto
termination
proof (relation "measure length")
  fix s :: string and x xs
  assume "dropWhile py_space s = x # xs"
  then have "\<not> py_space x" "length (x # xs) \<le> length s"
    by (metis hd_dropWhile list.distinct(1) list.sel(1)) (metis \<open>dropWhile py_space s = x # xs\<close> length_dropWhile_le)
  moreover have "length (dropWhile (Not \<circ> py_space) xs) \<le> length xs" by (rule length_dropWhile_le)
  ultimately show "(dropWhile (Not \<circ> py_space) (x # xs), s) \<in> measure length" by simp
qed simp

declare split_space.simps [simp del]

text \<open>\<open>int(word)\<close> for a word without white space: an optional sign, digits, single underscores
  between digits.\<close>

definition is_digit :: "char \<Rightarrow> bool" where
  "is_digit c \<longleftrightarrow> 48 \<le> (of_char c :: nat) \<and> (of_char c :: nat) \<le> 57"

fun digit_groups :: "string \<Rightarrow> bool" where
  "digit_groups [] = False"
| "digit_groups [c] = is_digit c"
| "digit_groups (c # d # s) = (is_digit c \<and> (if d = CHR ''_'' then digit_groups s else digit_groups (d # s)))"

definition parse_int :: "string \<Rightarrow> int option" where
  "parse_int s =
     (let (neg, ds) = (case s of [] \<Rightarrow> (False, []) | c # t \<Rightarrow>
            if c = CHR ''-'' then (True, t) else if c = CHR ''+'' then (False, t) else (False, s))
      in if \<not> digit_groups ds then None
         else let n = int (digits_value (filter is_digit ds)) in Some (if neg then - n else n))"

definition stat_ticks :: "string \<Rightarrow> int option" where
  "stat_ticks txt =
     (let fields = split_space (after_last (CHR '')'') txt)
      in if 19 < length fields then parse_int (fields ! 19) else None)"

definition proc_start_ticks :: "proc_fs \<Rightarrow> int \<Rightarrow> int option" where
  "proc_start_ticks fs pid =
     (case pf_stat fs pid of Some (Some txt) \<Rightarrow> stat_ticks txt | _ \<Rightarrow> None)"

text \<open>\<open>current_owner\<close>; the digest of the command line is an argument.\<close>

definition current_owner :: "proc_fs \<Rightarrow> int \<Rightarrow> int \<Rightarrow> string \<Rightarrow> lease_owner" where
  "current_owner fs pid now argv =
     \<lparr>lo_pid = pid, lo_ticks = (case proc_start_ticks fs pid of Some t \<Rightarrow> t | None \<Rightarrow> 0),
      lo_boot = pf_boot fs, lo_started = now, lo_argv = argv\<rparr>"

subsection \<open>Classification\<close>

definition classify_owner :: "proc_fs \<Rightarrow> string \<Rightarrow> lease_owner option \<Rightarrow> lease_class" where
  "classify_owner fs boot owner =
     (case owner of
        None \<Rightarrow> TORN
      | Some ow \<Rightarrow>
          if lo_boot ow \<noteq> boot then STALE_BOOT_CHANGED
          else if \<not> proc_pid_alive fs (lo_pid ow) then STALE_DEAD_PID
          else (case proc_start_ticks fs (lo_pid ow) of
                  None \<Rightarrow> STALE_PID_REUSED
                | Some t \<Rightarrow> if t \<noteq> lo_ticks ow then STALE_PID_REUSED else HELD))"

text \<open>The owner file: absent, or bytes, \<open>None\<close> when \<open>_decode_owner\<close> refuses them.\<close>

type_synonym owner_bytes = "lease_owner option"

definition decode_owner :: "owner_bytes option \<Rightarrow> lease_owner option" where
  "decode_owner raw = (case raw of None \<Rightarrow> None | Some b \<Rightarrow> b)"

definition classify_existing :: "proc_fs \<Rightarrow> string \<Rightarrow> owner_bytes option \<Rightarrow> lease_class" where
  "classify_existing fs boot file = classify_owner fs boot (decode_owner file)"

definition owner_exists :: "owner_bytes option \<Rightarrow> bool" where
  "owner_exists file = (file \<noteq> None)"

subsection \<open>Acquiring and releasing\<close>

datatype lease_error = Lease_Held lease_class | Store_Custody

text \<open>What \<open>acquire\<close> decides from the bytes it read under the lock: publish a fresh file, or replace
  exactly the bytes that were classified. The two writes are \<open>atomic_write\<close> with \<open>exclusive=True\<close> and
  with the \<open>expected\<close> contents.\<close>

datatype lease_plan = Create | Adopt owner_bytes lease_class

definition acquire_decide ::
  "proc_fs \<Rightarrow> string \<Rightarrow> bool \<Rightarrow> owner_bytes option \<Rightarrow> lease_error + lease_plan" where
  "acquire_decide fs boot adopt file =
     (case file of
        None \<Rightarrow> Inr Create
      | Some raw \<Rightarrow>
          let c = classify_owner fs boot (decode_owner (Some raw))
          in if c = HELD \<or> \<not> adopt then Inl (Lease_Held c) else Inr (Adopt raw c))"

fun acquire_write ::
  "lease_plan \<Rightarrow> lease_owner \<Rightarrow> owner_bytes option \<Rightarrow> lease_error + owner_bytes option \<times> lease_class" where
  "acquire_write Create ow file =
     (if file \<noteq> None then Inl Store_Custody else Inr (Some (Some ow), HELD))"
| "acquire_write (Adopt raw c) ow file =
     (if file \<noteq> Some raw then Inl Store_Custody else Inr (Some (Some ow), c))"

definition lease_acquire ::
  "proc_fs \<Rightarrow> string \<Rightarrow> bool \<Rightarrow> lease_owner \<Rightarrow> owner_bytes option
     \<Rightarrow> lease_error + owner_bytes option \<times> lease_class" where
  "lease_acquire fs boot adopt ow file =
     (case acquire_decide fs boot adopt file of Inl e \<Rightarrow> Inl e | Inr plan \<Rightarrow> acquire_write plan ow file)"

text \<open>\<open>release\<close>: the new contents and whether the release happened.\<close>

definition lease_release :: "lease_owner \<Rightarrow> owner_bytes option \<Rightarrow> owner_bytes option \<times> bool" where
  "lease_release ow file =
     (case file of
        None \<Rightarrow> (None, False)
      | Some raw \<Rightarrow> if decode_owner (Some raw) \<noteq> Some ow then (file, False) else (None, True))"

subsection \<open>Interleavings\<close>

text \<open>
  A process is the owner record it would publish. \<open>lw_lock\<close> is the process inside a locked section,
  \<open>lw_pc\<close> its decision between the read and the write, \<open>lw_holders\<close> the processes whose \<open>acquire\<close>
  published their file and that have not released it, and \<open>lw_seen\<close> the process identities (boot, pid,
  start ticks) the kernel has given out.
\<close>

record lease_world =
  lw_fs :: proc_fs
  lw_file :: "owner_bytes option"
  lw_lock :: "lease_owner option"
  lw_pc :: "lease_plan option"
  lw_holders :: "lease_owner set"
  lw_seen :: "(string \<times> int \<times> int) set"

definition owner_key :: "lease_owner \<Rightarrow> string \<times> int \<times> int" where
  "owner_key ow = (lo_boot ow, lo_pid ow, lo_ticks ow)"

definition lease_live :: "proc_fs \<Rightarrow> lease_owner \<Rightarrow> bool" where
  "lease_live fs ow \<longleftrightarrow> lo_boot ow = pf_boot fs \<and> proc_start_ticks fs (lo_pid ow) = Some (lo_ticks ow)"

text \<open>The kernel releases the lock of a process that dies; a reboot ends every process.\<close>

inductive lease_step :: "lease_world \<Rightarrow> lease_world \<Rightarrow> bool" where
  born: "\<not> proc_pid_alive (lw_fs w) pid \<Longrightarrow> stat_ticks txt = Some t
    \<Longrightarrow> (pf_boot (lw_fs w), pid, t) \<notin> lw_seen w
    \<Longrightarrow> lease_step w (w\<lparr>lw_fs := (lw_fs w)\<lparr>pf_stat := (pf_stat (lw_fs w))(pid \<mapsto> Some txt)\<rparr>,
          lw_seen := insert (pf_boot (lw_fs w), pid, t) (lw_seen w)\<rparr>)"
| died: "fs' = (lw_fs w)\<lparr>pf_stat := (pf_stat (lw_fs w))(pid := None)\<rparr>
    \<Longrightarrow> keeps = (case lw_lock w of None \<Rightarrow> True | Some p \<Rightarrow> lo_pid p \<noteq> pid)
    \<Longrightarrow> lease_step w (w\<lparr>lw_fs := fs', lw_lock := (if keeps then lw_lock w else None),
          lw_pc := (if keeps then lw_pc w else None)\<rparr>)"
| rebooted: "\<forall>pid t. (boot, pid, t) \<notin> lw_seen w
    \<Longrightarrow> lease_step w (w\<lparr>lw_fs := \<lparr>pf_boot = boot, pf_stat = (\<lambda>_. None)\<rparr>, lw_lock := None, lw_pc := None\<rparr>)"
| locked: "lw_lock w = None \<Longrightarrow> lease_live (lw_fs w) p \<Longrightarrow> lease_step w (w\<lparr>lw_lock := Some p, lw_pc := None\<rparr>)"
| decided: "lw_lock w = Some p \<Longrightarrow> lw_pc w = None
    \<Longrightarrow> acquire_decide (lw_fs w) (pf_boot (lw_fs w)) adopt (lw_file w) = Inr plan
    \<Longrightarrow> lease_step w (w\<lparr>lw_pc := Some plan\<rparr>)"
| published: "lw_lock w = Some p \<Longrightarrow> lw_pc w = Some plan
    \<Longrightarrow> acquire_write plan p (lw_file w) = Inr (file', c)
    \<Longrightarrow> lease_step w (w\<lparr>lw_file := file', lw_pc := None, lw_holders := insert p (lw_holders w)\<rparr>)"
| released: "lw_lock w = Some p \<Longrightarrow> lw_pc w = None \<Longrightarrow> lease_release p (lw_file w) = (file', r)
    \<Longrightarrow> lease_step w (w\<lparr>lw_file := file', lw_holders := (if r then lw_holders w - {p} else lw_holders w)\<rparr>)"
| unlocked: "lw_lock w = Some p \<Longrightarrow> lease_step w (w\<lparr>lw_lock := None, lw_pc := None\<rparr>)"

text \<open>A machine that has just booted, with no lease.\<close>

definition lease_start :: "string \<Rightarrow> lease_world" where
  "lease_start boot =
     \<lparr>lw_fs = \<lparr>pf_boot = boot, pf_stat = (\<lambda>_. None)\<rparr>, lw_file = None, lw_lock = None, lw_pc = None,
      lw_holders = {}, lw_seen = {}\<rparr>"

inductive lease_reached :: "string \<Rightarrow> lease_world \<Rightarrow> bool" for boot where
  start: "lease_reached boot (lease_start boot)"
| step: "lease_reached boot w \<Longrightarrow> lease_step w w' \<Longrightarrow> lease_reached boot w'"

end
