(* ===== verification/RunLifecycle.thy ===== *)
theory RunLifecycle
  imports Lease Json
begin

text \<open>
  The lifecycle of a long-running campaign, \<open>runstate/states.py\<close>, and the classification of its
  liveness, \<open>runstate/heartbeat.py\<close>: the sixteen states, the edge tables, the fail-closed edge check,
  and what an observer may conclude from a heartbeat. A decoded heartbeat is a record; a missing or
  unreadable file is \<open>None\<close>.
\<close>

subsection \<open>States and edges\<close>

datatype run_state =
  PLANNED | CAPTURING | CAPTURE_COMPLETE | INSPECTION_RUNNING | INSPECTION_FAILED | INSPECTED
| AMENDMENT_PENDING_OWNER | AMENDMENT_READY | BARS_READY | BARS_CAPTURING | BARS_COMPLETE
| SEALED_PREFLIGHT_READY | SEALED_RUNNING | SEALED_COMPLETE | FAILED | UNKNOWN

definition ranked_states :: "run_state list" where
  "ranked_states =
     [PLANNED, CAPTURING, CAPTURE_COMPLETE, INSPECTION_RUNNING, INSPECTION_FAILED, INSPECTED,
      AMENDMENT_PENDING_OWNER, AMENDMENT_READY, BARS_READY, BARS_CAPTURING, BARS_COMPLETE,
      SEALED_PREFLIGHT_READY, SEALED_RUNNING, SEALED_COMPLETE, FAILED]"

definition state_order :: "run_state \<Rightarrow> nat" where
  "state_order s = length (takeWhile (\<lambda>t. t \<noteq> s) ranked_states)"

fun retry_edges :: "run_state \<Rightarrow> run_state list" where
  "retry_edges FAILED = [CAPTURING, INSPECTION_RUNNING, BARS_CAPTURING]"
| "retry_edges INSPECTION_FAILED = [INSPECTION_RUNNING]"
| "retry_edges _ = []"

fun forward_edges :: "run_state \<Rightarrow> run_state list" where
  "forward_edges PLANNED = [CAPTURING]"
| "forward_edges CAPTURING = [CAPTURE_COMPLETE, FAILED]"
| "forward_edges CAPTURE_COMPLETE = [INSPECTION_RUNNING]"
| "forward_edges INSPECTION_RUNNING = [INSPECTED, INSPECTION_FAILED]"
| "forward_edges INSPECTION_FAILED = [FAILED]"
| "forward_edges INSPECTED = [AMENDMENT_PENDING_OWNER]"
| "forward_edges AMENDMENT_PENDING_OWNER = [AMENDMENT_READY]"
| "forward_edges AMENDMENT_READY = [BARS_READY]"
| "forward_edges BARS_READY = [BARS_CAPTURING]"
| "forward_edges BARS_CAPTURING = [BARS_COMPLETE, FAILED]"
| "forward_edges BARS_COMPLETE = [SEALED_PREFLIGHT_READY]"
| "forward_edges SEALED_PREFLIGHT_READY = [SEALED_RUNNING]"
| "forward_edges SEALED_RUNNING = [SEALED_COMPLETE]"
| "forward_edges SEALED_COMPLETE = []"
| "forward_edges FAILED = []"
| "forward_edges UNKNOWN = []"

definition legal_edges :: "run_state \<Rightarrow> run_state list" where
  "legal_edges s = forward_edges s @ retry_edges s"

definition terminal_states :: "run_state list" where "terminal_states = [SEALED_COMPLETE, FAILED]"

definition process_states :: "run_state list" where
  "process_states = [CAPTURING, INSPECTION_RUNNING, BARS_CAPTURING, SEALED_RUNNING]"

definition resumable_states :: "run_state list" where
  "resumable_states = [CAPTURING, INSPECTION_RUNNING, BARS_CAPTURING]"

definition is_legal :: "run_state \<Rightarrow> run_state \<Rightarrow> bool" where
  "is_legal source target =
     (if target = UNKNOWN \<or> source = UNKNOWN then False
      else if target \<notin> set (legal_edges source) then False
      else if target \<in> set (retry_edges source) then True
      else state_order target > state_order source)"

text \<open>The value of a member is its name.\<close>

fun state_name :: "run_state \<Rightarrow> string" where
  "state_name PLANNED = ''PLANNED''"
| "state_name CAPTURING = ''CAPTURING''"
| "state_name CAPTURE_COMPLETE = ''CAPTURE_COMPLETE''"
| "state_name INSPECTION_RUNNING = ''INSPECTION_RUNNING''"
| "state_name INSPECTION_FAILED = ''INSPECTION_FAILED''"
| "state_name INSPECTED = ''INSPECTED''"
| "state_name AMENDMENT_PENDING_OWNER = ''AMENDMENT_PENDING_OWNER''"
| "state_name AMENDMENT_READY = ''AMENDMENT_READY''"
| "state_name BARS_READY = ''BARS_READY''"
| "state_name BARS_CAPTURING = ''BARS_CAPTURING''"
| "state_name BARS_COMPLETE = ''BARS_COMPLETE''"
| "state_name SEALED_PREFLIGHT_READY = ''SEALED_PREFLIGHT_READY''"
| "state_name SEALED_RUNNING = ''SEALED_RUNNING''"
| "state_name SEALED_COMPLETE = ''SEALED_COMPLETE''"
| "state_name FAILED = ''FAILED''"
| "state_name UNKNOWN = ''UNKNOWN''"

interpretation state: named state_name
proof unfold_locales
  show "x = y" if "state_name x = state_name y" for x y
    using that by (cases x; cases y) simp_all
qed

text \<open>The edge check is the table: the monotone order refuses no whitelisted edge.\<close>

lemma is_legal_iff: "is_legal s t \<longleftrightarrow> t \<in> set (legal_edges s)"
  by (cases s; cases t) (simp_all add: is_legal_def legal_edges_def state_order_def ranked_states_def)

subsection \<open>Liveness\<close>

record heartbeat =
  hb_state :: run_state
  hb_pid :: int
  hb_ticks :: int
  hb_boot :: string
  hb_at :: int

datatype heartbeat_class =
  ALIVE | ALIVE_SILENT | DEAD_TERMINAL | UNKNOWN_RESUMABLE | UNKNOWN_RECONCILIATION_REQUIRED

definition stale_after_s :: int where "stale_after_s = 900"

definition owner_gone :: "proc_fs \<Rightarrow> string \<Rightarrow> heartbeat \<Rightarrow> bool" where
  "owner_gone fs boot beat =
     (if hb_boot beat \<noteq> boot then True
      else if \<not> proc_pid_alive fs (hb_pid beat) then True
      else proc_start_ticks fs (hb_pid beat) \<noteq> Some (hb_ticks beat))"

definition classify_beat ::
  "proc_fs \<Rightarrow> string \<Rightarrow> int \<Rightarrow> int \<Rightarrow> heartbeat option \<Rightarrow> run_state option \<Rightarrow> heartbeat_class" where
  "classify_beat fs boot now stale beat state =
     (case state of
        None \<Rightarrow> UNKNOWN_RESUMABLE
      | Some s \<Rightarrow>
          if s \<in> set terminal_states then DEAD_TERMINAL
          else if (case beat of None \<Rightarrow> False | Some b \<Rightarrow> hb_state b \<noteq> s) then UNKNOWN_RECONCILIATION_REQUIRED
          else if s \<notin> set process_states then ALIVE
          else (case beat of
                  None \<Rightarrow> if s = SEALED_RUNNING then UNKNOWN_RECONCILIATION_REQUIRED else UNKNOWN_RESUMABLE
                | Some b \<Rightarrow>
                    let fresh = now - hb_at b \<le> stale; gone = owner_gone fs boot b
                    in if fresh \<and> \<not> gone then ALIVE
                       else if \<not> gone then ALIVE_SILENT
                       else if s = SEALED_RUNNING then UNKNOWN_RECONCILIATION_REQUIRED
                       else if s \<in> set resumable_states then UNKNOWN_RESUMABLE
                       else DEAD_TERMINAL))"

end
