(* ===== verification/RunJournal.thy ===== *)
theory RunJournal
  imports RunLifecycle
begin

text \<open>
  The hash-chained journal of a run, \<open>runstate/journal.py\<close>, with the durable name binding and the
  committed-extent rule of \<open>runstate/custody.py\<close>. A file is its text, one character a byte: the writer
  emits ASCII only, and a byte above 127 stands for whatever the decoder makes of it. The directory is
  the journal file (its inode and its contents) and the companion identity record. SHA-256 and the
  decoding of a line into a validated record (\<open>json.loads\<close> followed by pydantic) are parameters.

  \<open>append_record\<close> is the whole function under the journal's lock: creation, binding, the tail check,
  the extent check, the write and the advance of the extent; \<open>append_torn\<close> is the same call when the
  process dies after some characters of the line reached the file. The checks that a directory or a
  name still denotes the held inode at the other points of the call are left out: nothing but the
  companion record and the journal is mutated in between.
\<close>

subsection \<open>Records\<close>

record journal_record =
  jr_seq :: int
  jr_kind :: string
  jr_from :: "run_state option"
  jr_to :: "run_state option"
  jr_reason :: string
  jr_pid :: int
  jr_boot :: string
  jr_at :: int
  jr_manifest :: "string option"
  jr_prev :: string
  jr_sha :: string

definition genesis_prev :: string where "genesis_prev = replicate 64 (CHR ''0'')"

definition journal_domain :: string where "journal_domain = ''tree-options-runstate-journal-v1''"

definition json_state :: "run_state option \<Rightarrow> string" where
  "json_state = json_null (json_string \<circ> state_name)"

text \<open>The fields in the order of their names. The digested body leaves \<open>record_sha256\<close> out, the line
  on disk has it after \<open>reason\<close>.\<close>

definition json_head :: "journal_record \<Rightarrow> string \<Rightarrow> string" where
  "json_head r rest =
     ''{'' @ json_string ''actor_boot_id'' @ '':'' @ json_string (jr_boot r)
     @ '','' @ json_string ''actor_pid'' @ '':'' @ json_int (jr_pid r)
     @ '','' @ json_string ''at_epoch'' @ '':'' @ json_int (jr_at r)
     @ '','' @ json_string ''from_state'' @ '':'' @ json_state (jr_from r)
     @ '','' @ json_string ''kind'' @ '':'' @ json_string (jr_kind r)
     @ '','' @ json_string ''manifest_sha256'' @ '':'' @ json_null json_string (jr_manifest r)
     @ '','' @ json_string ''prev_record_sha256'' @ '':'' @ json_string (jr_prev r)
     @ '','' @ json_string ''reason'' @ '':'' @ json_string (jr_reason r) @ rest"

definition json_rest :: "journal_record \<Rightarrow> string" where
  "json_rest r =
     '','' @ json_string ''seq'' @ '':'' @ json_int (jr_seq r)
     @ '','' @ json_string ''to_state'' @ '':'' @ json_state (jr_to r) @ ''}''"

definition record_body :: "journal_record \<Rightarrow> string" where
  "record_body r = json_head r (json_rest r)"

definition record_hash :: "(string \<Rightarrow> string) \<Rightarrow> journal_record \<Rightarrow> string" where
  "record_hash sha256 r = sha256 (journal_domain @ record_body r)"

definition record_line :: "journal_record \<Rightarrow> string" where
  "record_line r = json_head r ('','' @ json_string ''record_sha256'' @ '':'' @ json_string (jr_sha r) @ json_rest r)"

subsection \<open>Replay\<close>

record journal_view =
  jv_records :: "journal_record list"
  jv_tail :: string
  jv_damaged :: bool

datatype run_error =
  Journal_Corrupt nat | Unbound_Journal nat | Extent_Refused | Journal_Concurrent_Write | Journal_Lost_Record
| Custody_Refused | Journal_Vanished | Illegal_Transition run_state run_state | No_State | Lease_Boot_Mismatch
| Pin_Already_Bound string string | Manifest_Mismatch "string option" string | Store_Exists | Unknown_Run

text \<open>\<open>str.splitlines()\<close>: the boundaries among the code points below 256, with CR LF as one.\<close>

definition line_break :: "char \<Rightarrow> bool" where
  "line_break c \<longleftrightarrow> (let n = (of_char c :: nat) in 10 \<le> n \<and> n \<le> 13 \<or> 28 \<le> n \<and> n \<le> 30 \<or> n = 133)"

fun split_lines :: "string \<Rightarrow> string \<Rightarrow> string list" where
  "split_lines acc [] = (if acc = [] then [] else [rev acc])"
| "split_lines acc (c # s) =
     (if line_break c
      then rev acc # (case s of
             d # s' \<Rightarrow> if c = CHR 0x0D \<and> d = CHR 0x0A then split_lines [] s' else split_lines [] s
           | [] \<Rightarrow> split_lines [] s)
      else split_lines (c # acc) s)"

definition verify_chain :: "(string \<Rightarrow> string) \<Rightarrow> journal_record \<Rightarrow> string \<Rightarrow> bool" where
  "verify_chain sha256 r prev =
     (if jr_prev r \<noteq> prev then False else jr_sha r = record_hash sha256 r)"

definition good_record ::
  "(string \<Rightarrow> journal_record option) \<Rightarrow> (string \<Rightarrow> string) \<Rightarrow> string \<Rightarrow> string \<Rightarrow> journal_record option" where
  "good_record decode sha256 prev line =
     (case decode line of None \<Rightarrow> None | Some r \<Rightarrow> if verify_chain sha256 r prev then Some r else None)"

text \<open>The loop of \<open>_replay_journal_text\<close>, over the number of the line, the digest the next record must
  chain to and the records so far. A bad line is tolerated only as the last one.\<close>

fun replay_lines ::
  "(string \<Rightarrow> journal_record option) \<Rightarrow> (string \<Rightarrow> string) \<Rightarrow> nat \<Rightarrow> string \<Rightarrow> journal_record list \<Rightarrow> string list
     \<Rightarrow> run_error + journal_view" where
  "replay_lines decode sha256 n prev acc [] =
     Inr \<lparr>jv_records = rev acc, jv_tail = prev, jv_damaged = False\<rparr>"
| "replay_lines decode sha256 n prev acc (line # rest) =
     (case good_record decode sha256 prev line of
        None \<Rightarrow> if rest = [] then Inr \<lparr>jv_records = rev acc, jv_tail = prev, jv_damaged = True\<rparr>
                else Inl (Journal_Corrupt n)
      | Some r \<Rightarrow> replay_lines decode sha256 (n + 1) (jr_sha r) (r # acc) rest)"

definition replay_text ::
  "(string \<Rightarrow> journal_record option) \<Rightarrow> (string \<Rightarrow> string) \<Rightarrow> string \<Rightarrow> run_error + journal_view" where
  "replay_text decode sha256 text = replay_lines decode sha256 1 genesis_prev [] (split_lines [] text)"

text \<open>\<open>_locked_tail_view\<close>: the digest of the last good record and whether anything follows it.\<close>

fun tail_lines ::
  "(string \<Rightarrow> journal_record option) \<Rightarrow> (string \<Rightarrow> string) \<Rightarrow> string \<Rightarrow> string list \<Rightarrow> string \<times> bool" where
  "tail_lines decode sha256 prev [] = (prev, False)"
| "tail_lines decode sha256 prev (line # rest) =
     (case good_record decode sha256 prev line of
        None \<Rightarrow> (prev, True)
      | Some r \<Rightarrow> tail_lines decode sha256 (jr_sha r) rest)"

definition locked_tail_view ::
  "(string \<Rightarrow> journal_record option) \<Rightarrow> (string \<Rightarrow> string) \<Rightarrow> string \<Rightarrow> string \<times> bool" where
  "locked_tail_view decode sha256 text = tail_lines decode sha256 genesis_prev (split_lines [] text)"

subsection \<open>The committed extent\<close>

text \<open>The companion record pins the journal's inode and the extent that was acknowledged.\<close>

record name_binding =
  nb_inode :: nat
  nb_extent :: nat
  nb_tail :: string

definition check_committed_extent ::
  "(string \<Rightarrow> journal_record option) \<Rightarrow> (string \<Rightarrow> string) \<Rightarrow> name_binding \<Rightarrow> journal_view \<Rightarrow> string
     \<Rightarrow> run_error + unit" where
  "check_committed_extent decode sha256 b view raw =
     (if length raw < nb_extent b then Inl Extent_Refused
      else if length raw = nb_extent b
        then (if jv_tail view \<noteq> nb_tail b then Inl Extent_Refused else Inr ())
      else let prefix = take (nb_extent b) raw
           in if 0 < nb_extent b \<and> last prefix \<noteq> CHR 0x0A then Inl Extent_Refused
              else case replay_text decode sha256 prefix of
                     Inl _ \<Rightarrow> Inl Extent_Refused
                   | Inr pv \<Rightarrow> if jv_damaged pv \<or> jv_tail pv \<noteq> nb_tail b then Inl Extent_Refused else Inr ())"

text \<open>The directory of a run: the journal, if it was created, and the companion record, \<open>Some None\<close>
  when its bytes are malformed.\<close>

record run_dir =
  rd_journal :: "(nat \<times> string) option"
  rd_binding :: "name_binding option option"

definition load_name_binding :: "run_dir \<Rightarrow> run_error + name_binding option" where
  "load_name_binding d =
     (case rd_binding d of
        None \<Rightarrow> Inr None
      | Some None \<Rightarrow> Inl Custody_Refused
      | Some (Some b) \<Rightarrow> Inr (Some b))"

text \<open>A fresh binding pins the inode over the empty extent; an open name must still be the bound inode.\<close>

definition bind_name_identity :: "run_dir \<Rightarrow> nat \<Rightarrow> run_dir \<times> name_binding" where
  "bind_name_identity d ino =
     (let b = \<lparr>nb_inode = ino, nb_extent = 0, nb_tail = genesis_prev\<rparr> in (d\<lparr>rd_binding := Some (Some b)\<rparr>, b))"

definition verify_name_binding :: "nat \<Rightarrow> name_binding \<Rightarrow> run_error + unit" where
  "verify_name_binding ino b = (if ino \<noteq> nb_inode b then Inl Custody_Refused else Inr ())"

text \<open>\<open>_load_or_bind_journal_name\<close>: the new directory and the binding.\<close>

definition load_or_bind :: "run_dir \<Rightarrow> nat \<Rightarrow> string \<Rightarrow> run_error + run_dir \<times> name_binding" where
  "load_or_bind d ino text =
     (case load_name_binding d of
        Inl e \<Rightarrow> Inl e
      | Inr None \<Rightarrow> if text \<noteq> [] then Inl (Unbound_Journal (length text)) else Inr (bind_name_identity d ino)
      | Inr (Some b) \<Rightarrow> (case verify_name_binding ino b of Inl e \<Rightarrow> Inl e | Inr _ \<Rightarrow> Inr (d, b)))"

text \<open>\<open>_read_bound_journal_bytes\<close>.\<close>

definition read_bound_journal :: "run_dir \<Rightarrow> nat \<Rightarrow> string \<Rightarrow> run_error + string \<times> name_binding option" where
  "read_bound_journal d ino text =
     (case load_name_binding d of
        Inl e \<Rightarrow> Inl e
      | Inr None \<Rightarrow> if text \<noteq> [] then Inl (Unbound_Journal (length text)) else Inr ([], None)
      | Inr (Some b) \<Rightarrow> (case verify_name_binding ino b of Inl e \<Rightarrow> Inl e | Inr _ \<Rightarrow> Inr (text, Some b)))"

text \<open>\<open>replay\<close> of the directory: an absent journal is empty unless its name was ever bound.\<close>

definition replay_dir ::
  "(string \<Rightarrow> journal_record option) \<Rightarrow> (string \<Rightarrow> string) \<Rightarrow> run_dir \<Rightarrow> run_error + journal_view" where
  "replay_dir decode sha256 d =
     (case rd_journal d of
        None \<Rightarrow>
          (case load_name_binding d of
             Inl e \<Rightarrow> Inl e
           | Inr (Some b) \<Rightarrow> Inl Journal_Vanished
           | Inr None \<Rightarrow> Inr \<lparr>jv_records = [], jv_tail = genesis_prev, jv_damaged = False\<rparr>)
      | Some (ino, text) \<Rightarrow>
          (case read_bound_journal d ino text of
             Inl e \<Rightarrow> Inl e
           | Inr (raw, bound) \<Rightarrow>
               (case replay_text decode sha256 raw of
                  Inl e \<Rightarrow> Inl e
                | Inr view \<Rightarrow>
                    (case bound of
                       None \<Rightarrow> Inr view
                     | Some b \<Rightarrow> (case check_committed_extent decode sha256 b view raw of
                                   Inl e \<Rightarrow> Inl e | Inr _ \<Rightarrow> Inr view)))))"

subsection \<open>Appending\<close>

text \<open>The guards of \<open>append_record\<close> before the write, on an open journal: the directory with the
  binding and the sealed record.\<close>

definition seal_record :: "(string \<Rightarrow> string) \<Rightarrow> journal_record \<Rightarrow> journal_record" where
  "seal_record sha256 r = r\<lparr>jr_sha := record_hash sha256 r\<rparr>"

definition open_journal :: "run_dir \<Rightarrow> nat \<Rightarrow> run_dir \<times> nat \<times> string" where
  "open_journal d fresh =
     (case rd_journal d of
        Some (ino, text) \<Rightarrow> (d, ino, text)
      | None \<Rightarrow> (d\<lparr>rd_journal := Some (fresh, [])\<rparr>, fresh, []))"

definition append_guards ::
  "(string \<Rightarrow> journal_record option) \<Rightarrow> (string \<Rightarrow> string) \<Rightarrow> run_dir \<Rightarrow> nat \<Rightarrow> string \<Rightarrow> journal_record
     \<Rightarrow> run_dir \<times> (run_error + name_binding)" where
  "append_guards decode sha256 d ino text r =
     (case load_or_bind d ino text of
        Inl e \<Rightarrow> (d, Inl e)
      | Inr (d', b) \<Rightarrow>
          (d', let (tail_hash, torn) = locked_tail_view decode sha256 text
               in if torn then Inl Journal_Concurrent_Write
                  else if tail_hash \<noteq> jr_prev r then Inl Journal_Concurrent_Write
                  else case replay_text decode sha256 text of
                         Inl e \<Rightarrow> Inl e
                       | Inr view \<Rightarrow>
                           (case check_committed_extent decode sha256 b view text of
                              Inl e \<Rightarrow> Inl e | Inr _ \<Rightarrow> Inr b)))"

text \<open>\<open>advance_name_binding_extent\<close>: idempotent, forward only.\<close>

definition advance_extent :: "run_dir \<Rightarrow> nat \<Rightarrow> nat \<Rightarrow> string \<Rightarrow> run_error + run_dir" where
  "advance_extent d ino extent tail_hash =
     (case rd_binding d of
        None \<Rightarrow> Inl Custody_Refused
      | Some None \<Rightarrow> Inl Custody_Refused
      | Some (Some b) \<Rightarrow>
          case verify_name_binding ino b of Inl e \<Rightarrow> Inl e | Inr _ \<Rightarrow>
          if nb_extent b = extent \<and> nb_tail b = tail_hash then Inr d
          else if extent < nb_extent b then Inl Custody_Refused
          else Inr (d\<lparr>rd_binding := Some (Some (b\<lparr>nb_extent := extent, nb_tail := tail_hash\<rparr>))\<rparr>))"

definition append_record ::
  "(string \<Rightarrow> journal_record option) \<Rightarrow> (string \<Rightarrow> string) \<Rightarrow> nat \<Rightarrow> run_dir \<Rightarrow> journal_record
     \<Rightarrow> run_dir \<times> (run_error + string)" where
  "append_record decode sha256 fresh d r0 =
     (let r = seal_record sha256 r0; (d1, ino, text) = open_journal d fresh
      in case append_guards decode sha256 d1 ino text r of
           (d2, Inl e) \<Rightarrow> (d2, Inl e)
         | (d2, Inr b) \<Rightarrow>
             let payload = record_line r @ [CHR 0x0A];
                 d3 = d2\<lparr>rd_journal := Some (ino, text @ payload)\<rparr>;
                 (tail_hash, torn) = locked_tail_view decode sha256 (text @ payload)
             in if torn \<or> tail_hash \<noteq> jr_sha r then (d3, Inl Journal_Lost_Record)
                else case advance_extent d3 ino (length text + length payload) (jr_sha r) of
                       Inl e \<Rightarrow> (d3, Inl e)
                     | Inr d4 \<Rightarrow> (d4, Inr (jr_sha r)))"

text \<open>The process dies after \<open>k\<close> characters of the line reached the file.\<close>

definition append_torn ::
  "(string \<Rightarrow> journal_record option) \<Rightarrow> (string \<Rightarrow> string) \<Rightarrow> nat \<Rightarrow> nat \<Rightarrow> run_dir \<Rightarrow> journal_record \<Rightarrow> run_dir" where
  "append_torn decode sha256 fresh k d r0 =
     (let r = seal_record sha256 r0; (d1, ino, text) = open_journal d fresh
      in case append_guards decode sha256 d1 ino text r of
           (d2, Inl e) \<Rightarrow> d2
         | (d2, Inr b) \<Rightarrow> d2\<lparr>rd_journal := Some (ino, text @ take k (record_line r @ [CHR 0x0A]))\<rparr>)"

subsection \<open>The projection\<close>

record projection =
  pj_run_id :: string
  pj_state :: "run_state option"
  pj_seq :: int
  pj_tail :: string
  pj_damaged :: bool
  pj_at :: int

definition build_projection :: "string \<Rightarrow> journal_view \<Rightarrow> int \<Rightarrow> projection" where
  "build_projection run view now =
     (let (state, n) = foldl (\<lambda>(state, n) r. (case jr_to r of None \<Rightarrow> state | Some s \<Rightarrow> Some s, jr_seq r))
                         (None, 0) (jv_records view)
      in \<lparr>pj_run_id = run, pj_state = state, pj_seq = n, pj_tail = jv_tail view, pj_damaged = jv_damaged view,
          pj_at = now\<rparr>)"

end
