(* ===== verification/Civil.thy ===== *)
theory Civil
  imports Prelude
begin

text \<open>
  Civil dates, as far as the code uses \<open>datetime.date\<close>: the year, month and day of a date, its week
  day, its ISO and compact texts, and the expiry conventions of \<open>time/expiries.py\<close> and
  \<open>time/monthlies.py\<close>. A date is the number of days since 1970-01-01; the calendar is the proleptic
  Gregorian one, without the bounds of \<open>datetime\<close> at the years 1 and 9999.
\<close>

subsection \<open>Years, months and days\<close>

definition leap_year :: "int \<Rightarrow> bool" where
  "leap_year y \<longleftrightarrow> y mod 4 = 0 \<and> (y mod 100 \<noteq> 0 \<or> y mod 400 = 0)"

text \<open>The days before 1 January of a year, counted from 0001-01-01.\<close>

definition days_before_year :: "int \<Rightarrow> int" where
  "days_before_year y = 365 * (y - 1) + (y - 1) div 4 - (y - 1) div 100 + (y - 1) div 400"

definition month_days :: "int \<Rightarrow> int \<Rightarrow> int" where
  "month_days y m = (if m = 2 then (if leap_year y then 29 else 28)
     else if m \<in> {4, 6, 9, 11} then 30 else 31)"

definition days_before_month :: "int \<Rightarrow> int \<Rightarrow> int" where
  "days_before_month y m = sum_list (map (month_days y) [1..m - 1])"

text \<open>\<open>date(y, m, d)\<close>, and the fields of a date. The year is searched upwards from an estimate that is
  never too late, the month from January.\<close>

definition civil_date :: "int \<Rightarrow> int \<Rightarrow> int \<Rightarrow> date" where
  "civil_date y m d = days_before_year y + days_before_month y m + d - 719163"

lemma four_dvd_hundred: "(4 :: int) dvd 100" and hundred_dvd: "(100 :: int) dvd 400"
  by simp_all

lemma days_before_next_year: "days_before_year (y + 1) = days_before_year y + (if leap_year y then 366 else 365)"
proof -
  have div: "y div k = (y - 1) div k + (if y mod k = 0 then 1 else 0)" if "0 < k" for k :: int
  proof -
    define q r where "q = (y - 1) div k" and "r = (y - 1) mod k"
    have y: "y = k * q + (r + 1)" by (simp add: q_def r_def)
    have r: "0 \<le> r" "r < k" using that by (simp_all add: r_def)
    show ?thesis
    proof (cases "r + 1 = k")
      case True
      then have "y = k * (q + 1)" using y by (simp add: algebra_simps)
      then have "y div k = q + 1" "y mod k = 0" using that by simp_all
      then show ?thesis unfolding q_def [symmetric] by simp
    next
      case False
      then have "y div k = q" "y mod k = r + 1" using r by (simp_all add: y)
      then show ?thesis using r unfolding q_def [symmetric] by simp
    qed
  qed
  define a b c where "a = (y - 1) div 4" and "b = (y - 1) div 100" and "c = (y - 1) div 400"
  have "days_before_year (y + 1) = 365 * y + y div 4 - y div 100 + y div 400"
    by (simp add: days_before_year_def)
  also have "\<dots> = 365 * y + a + (if y mod 4 = 0 then 1 else 0) - b - (if y mod 100 = 0 then 1 else 0)
      + c + (if y mod 400 = 0 then 1 else 0)"
    unfolding a_def b_def c_def div [of 4, simplified] div [of 100, simplified] div [of 400, simplified]
    by (simp only: algebra_simps)
  also have "\<dots> = 365 * (y - 1) + a - b + c + (if leap_year y then 366 else 365)"
  proof -
    define p q r where "p \<longleftrightarrow> y mod 4 = 0" and "q \<longleftrightarrow> y mod 100 = 0" and "r \<longleftrightarrow> y mod 400 = 0"
    have "q \<longrightarrow> p" unfolding q_def p_def by (meson dvd_imp_mod_0 dvd_trans four_dvd_hundred mod_0_imp_dvd)
    moreover have "r \<longrightarrow> q" unfolding r_def q_def by (meson dvd_imp_mod_0 dvd_trans hundred_dvd mod_0_imp_dvd)
    ultimately
    show ?thesis unfolding leap_year_def p_def [symmetric] q_def [symmetric] r_def [symmetric]
      by (cases p; cases q; cases r) simp_all
  qed
  also have "365 * (y - 1) + a - b + c = days_before_year y"
    by (simp only: days_before_year_def a_def b_def c_def)
  finally show ?thesis .
qed

lemma days_before_year_mono: "y \<le> z \<Longrightarrow> days_before_year y \<le> days_before_year z"
proof -
  assume "y \<le> z"
  then show ?thesis
    by (induction z rule: int_ge_induct) (simp_all add: days_before_next_year order_trans split: if_splits)
qed

lemma days_before_year_le: "0 \<le> n \<Longrightarrow> days_before_year (n div 366 + 1) \<le> n"
  unfolding days_before_year_def by simp

text \<open>Counting up from a year whose first day is not after the \<open>n\<close>-th day (day 0 is 0001-01-01).\<close>

function year_from :: "int \<Rightarrow> int \<Rightarrow> int" where
  "year_from n y = (if days_before_year (y + 1) \<le> n then year_from n (y + 1) else y)"
  by auto
termination
proof (relation "measure (\<lambda>(n, y). nat (n - days_before_year y))")
  show "((n, y + 1), n, y) \<in> measure (\<lambda>(n, y). nat (n - days_before_year y))"
    if "days_before_year (y + 1) \<le> n" for n y
    using that days_before_next_year [of y] by (simp split: if_splits)
qed simp

declare year_from.simps [simp del]

lemma year_from_bounds:
  "days_before_year y \<le> n \<Longrightarrow> days_before_year (year_from n y) \<le> n \<and> n < days_before_year (year_from n y + 1)"
proof (induction n y rule: year_from.induct)
  case (1 n y)
  then show ?case by (subst (1 2) year_from.simps) auto
qed

fun month_from :: "int \<Rightarrow> int \<Rightarrow> int list \<Rightarrow> int \<times> int" where
  "month_from y k [] = (12, k)"
| "month_from y k (m # ms) = (if k < month_days y m then (m, k) else month_from y (k - month_days y m) ms)"

definition civil_fields :: "date \<Rightarrow> int \<times> int \<times> int" where
  "civil_fields d =
     (let n = d + 719162;
          y = year_from n (if 0 \<le> n then n div 366 + 1 else n div 365 - 1);
          (m, k) = month_from y (n - days_before_year y) [1..11]
      in (y, m, k + 1))"

definition civil_ok :: "int \<times> int \<times> int \<Rightarrow> bool" where
  "civil_ok f = (case f of (y, m, d) \<Rightarrow> 1 \<le> m \<and> m \<le> 12 \<and> 1 \<le> d \<and> d \<le> month_days y m)"

lemma days_before_next_month: "1 \<le> m \<Longrightarrow> days_before_month y (m + 1) = days_before_month y m + month_days y m"
proof -
  assume "1 \<le> m"
  then have "[1..m] = [1..m - 1] @ [m]" by (simp add: upto_rec2)
  then show ?thesis by (simp add: days_before_month_def)
qed

lemma days_before_month_1 [simp]: "days_before_month y 1 = 0"
  by (simp add: days_before_month_def)

lemma month_days_pos: "28 \<le> month_days y m"
  by (simp add: month_days_def)

lemma days_before_month_mono: "1 \<le> m \<Longrightarrow> m \<le> n \<Longrightarrow> days_before_month y m \<le> days_before_month y n"
proof -
  assume "m \<le> n" "1 \<le> m"
  then show ?thesis
  proof (induction n rule: int_ge_induct)
    case (step n)
    then show ?case using days_before_next_month [of n y] month_days_pos [of y n] by simp
  qed simp
qed

lemma days_of_year: "days_before_month y 13 = (if leap_year y then 366 else 365)"
proof -
  have "[1..12] = [1, 2, 3, 4, 5, 6, 7, 8, 9, 10, 11, 12 :: int]" by code_simp
  then show ?thesis by (simp add: days_before_month_def month_days_def)
qed

lemma month_from_bounds:
  assumes "month_from y k [m..11] = (m', k')" "1 \<le> m" "m \<le> 12" "0 \<le> k"
    "k + days_before_month y m < days_before_month y 13"
  shows "m \<le> m' \<and> m' \<le> 12 \<and> 0 \<le> k' \<and> k' < month_days y m' \<and> days_before_month y m' + k' = days_before_month y m + k"
  using assms
proof (induction "nat (12 - m)" arbitrary: m k)
  case 0
  then have "m = 12" by simp
  then show ?case using 0 days_before_next_month [of 12 y] by simp
next
  case (Suc j)
  then have "[m..11] = m # [m + 1..11]" by (simp add: upto_rec1)
  show ?case
  proof (cases "k < month_days y m")
    case True
    then show ?thesis using Suc.prems \<open>[m..11] = m # [m + 1..11]\<close> by auto
  next
    case False
    then have "month_from y (k - month_days y m) [m + 1..11] = (m', k')"
      using Suc.prems(1) \<open>[m..11] = m # [m + 1..11]\<close> by simp
    moreover have "j = nat (12 - (m + 1))" "m + 1 \<le> 12" using Suc.hyps(2) by simp_all
    ultimately show ?thesis
      using Suc.hyps(1) [of "m + 1" "k - month_days y m"] Suc.prems False days_before_next_month [of m y] by simp
  qed
qed

lemma year_estimate: "days_before_year (if 0 \<le> n then n div 366 + 1 else n div 365 - 1) \<le> n"
proof (cases "0 \<le> n")
  case True
  then show ?thesis using days_before_year_le by simp
next
  case False
  define q where "q = n div 365 - 2"
  have "365 * q \<le> n" unfolding q_def by simp
  moreover have "q div 4 - q div 100 + q div 400 \<le> 0"
  proof -
    have "q < 0" using False by (simp add: q_def)
    then have "q div 4 < 0" "q div 400 < 0" by simp_all
    moreover have "q div 4 \<le> q div 100"
    proof -
      have "q div 4 * 4 \<le> q" by simp
      then have "q div 4 * 100 \<le> q" using \<open>q div 4 < 0\<close> by linarith
      then show ?thesis by (metis nonzero_mult_div_cancel_right zdiv_mono1 zero_less_numeral zero_neq_numeral)
    qed
    ultimately show ?thesis by linarith
  qed
  ultimately have "365 * q + (q div 4 - q div 100 + q div 400) \<le> n" by (metis add.right_neutral add_mono)
  then show ?thesis using False by (simp add: days_before_year_def q_def)
qed

lemma year_unique:
  assumes "days_before_year y \<le> n" "n < days_before_year (y + 1)" "days_before_year z \<le> n" "n < days_before_year (z + 1)"
  shows "y = z"
  using assms days_before_year_mono [of "y + 1" z] days_before_year_mono [of "z + 1" y] by linarith

lemma month_unique:
  assumes "1 \<le> m" "days_before_month y m \<le> k" "k < days_before_month y (m + 1)"
    "1 \<le> m'" "days_before_month y m' \<le> k" "k < days_before_month y (m' + 1)"
  shows "m = m'"
  using assms days_before_month_mono [of "m + 1" m' y] days_before_month_mono [of "m' + 1" m y] by linarith

lemma civil_fields_correct:
  assumes "civil_fields d = (y, m, k)"
  shows "civil_ok (y, m, k) \<and> civil_date y m k = d"
proof -
  define n where "n = d + 719162"
  have y: "days_before_year y \<le> n" "n < days_before_year (y + 1)"
    using assms year_from_bounds [OF year_estimate, of n] by (auto simp: civil_fields_def n_def Let_def split: prod.splits)
  have m: "month_from y (n - days_before_year y) [1..11] = (m, k - 1)"
    using assms by (auto simp: civil_fields_def n_def Let_def split: prod.splits)
  have "n - days_before_year y < days_before_month y 13"
    using y(2) by (simp add: days_before_next_year days_of_year split: if_splits)
  then have "1 \<le> m \<and> m \<le> 12 \<and> 0 \<le> k - 1 \<and> k - 1 < month_days y m
      \<and> days_before_month y m + (k - 1) = n - days_before_year y"
    using month_from_bounds [OF m] y(1) by simp
  then show ?thesis by (auto simp: civil_ok_def civil_date_def n_def)
qed

lemma civil_date_inj:
  assumes "civil_ok (y, m, k)" "civil_ok (y', m', k')" "civil_date y m k = civil_date y' m' k'"
  shows "(y, m, k) = (y', m', k')"
proof -
  define n where "n = civil_date y m k + 719162"
  have bounds: "days_before_year y \<le> n" "n < days_before_year (y + 1)"
      "days_before_month y m \<le> n - days_before_year y" "n - days_before_year y < days_before_month y (m + 1)"
    if "civil_ok (y, m, k)" "n = civil_date y m k + 719162" for y m k
  proof -
    have "days_before_month y m + k \<le> days_before_month y (m + 1)" "1 \<le> k" "1 \<le> m" "m \<le> 12"
      using that(1) days_before_next_month [of m y] by (auto simp: civil_ok_def)
    moreover from this have "days_before_month y (m + 1) \<le> days_before_month y 13" "0 \<le> days_before_month y m"
      using days_before_month_mono [of "m + 1" 13 y] days_before_month_mono [of 1 m y] by simp_all
    ultimately show "days_before_year y \<le> n" "n < days_before_year (y + 1)"
        "days_before_month y m \<le> n - days_before_year y" "n - days_before_year y < days_before_month y (m + 1)"
      using that(2) by (simp_all add: civil_date_def days_before_next_year days_of_year split: if_splits)
  qed
  have n: "n = civil_date y' m' k' + 719162" using assms(3) by (simp add: n_def)
  have "y = y'" by (rule year_unique [OF bounds(1,2) [OF assms(1) n_def] bounds(1,2) [OF assms(2) n]])
  moreover from this have "m = m'"
    using month_unique [of m y "n - days_before_year y" m'] bounds(3,4) [OF assms(1) n_def] bounds(3,4) [OF assms(2) n]
      assms(1,2) by (simp add: civil_ok_def)
  ultimately show ?thesis using assms(3) by (simp add: civil_date_def)
qed

lemma civil_fields_date: "civil_ok (y, m, k) \<Longrightarrow> civil_fields (civil_date y m k) = (y, m, k)"
  using civil_fields_correct civil_date_inj by (metis prod_cases3)

subsection \<open>Week days and expiries\<close>

text \<open>\<open>date.weekday()\<close>: Monday is 0; 1970-01-01 was a Thursday.\<close>

definition weekday :: "date \<Rightarrow> int" where "weekday d = (d + 3) mod 7"

definition is_friday :: "date \<Rightarrow> bool" where "is_friday d \<longleftrightarrow> weekday d = 4"

definition civil_year :: "date \<Rightarrow> int" where "civil_year d = fst (civil_fields d)"

definition civil_month :: "date \<Rightarrow> int" where "civil_month d = fst (snd (civil_fields d))"

definition civil_day :: "date \<Rightarrow> int" where "civil_day d = snd (snd (civil_fields d))"

definition is_third_friday_of_quarter_month :: "date \<Rightarrow> bool" where
  "is_third_friday_of_quarter_month d \<longleftrightarrow>
     civil_month d \<in> {3, 6, 9, 12} \<and> weekday d = 4 \<and> 15 \<le> civil_day d \<and> civil_day d \<le> 21"

definition minus_calendar_days :: "date \<Rightarrow> int \<Rightarrow> date" where "minus_calendar_days d n = d - n"

definition is_monthly_expiry :: "date \<Rightarrow> bool" where
  "is_monthly_expiry d \<longleftrightarrow> is_friday d \<and> 15 \<le> civil_day d \<and> civil_day d \<le> 21"

definition monthly_expiries :: "date list \<Rightarrow> date list" where
  "monthly_expiries ds = sorted_list_of_set (set (filter is_monthly_expiry ds))"

definition third_friday :: "int \<Rightarrow> int \<Rightarrow> date" where
  "third_friday y m = (let first_day = civil_date y m 1 in first_day + ((4 - weekday first_day) mod 7 + 14))"

definition is_traded_monthly_expiry :: "date \<Rightarrow> (date \<Rightarrow> bool) \<Rightarrow> bool" where
  "is_traded_monthly_expiry d is_session =
     (let third = third_friday (civil_year d) (civil_month d)
      in if is_session third then d = third
         else case find (\<lambda>n. is_session (third - n)) [1..6] of
                Some n \<Rightarrow> d = third - n
              | None \<Rightarrow> False)"

lemma civil_date_shift: "civil_date y m k = civil_date y m 1 + (k - 1)"
  by (simp add: civil_date_def)

lemma civil_fields_eq: "civil_fields d = (civil_year d, civil_month d, civil_day d)"
  by (simp add: civil_year_def civil_month_def civil_day_def)

lemma civil_shift: "d = civil_date (civil_year d) (civil_month d) 1 + (civil_day d - 1)"
  using civil_fields_correct [OF civil_fields_eq, of d] civil_date_shift by metis

lemma third_friday_iff:
  "weekday (f + (k - 1)) = 4 \<and> 15 \<le> k \<and> k \<le> 21 \<longleftrightarrow> k - 1 = (4 - weekday f) mod 7 + 14"
proof -
  define r where "r = (1 - f) mod 7"
  have r: "0 \<le> r" "r < 7" by (simp_all add: r_def)
  have "weekday (f + (k - 1)) = 4 \<longleftrightarrow> (f + k + 2) mod 7 = 4 mod 7" by (simp add: weekday_def add_ac)
  also have "\<dots> \<longleftrightarrow> 7 dvd (f + k + 2) - 4" by (rule mod_eq_dvd_iff)
  also have "(f + k + 2) - 4 = ((k - 15) - (1 - f)) + 14" by simp
  also have "7 dvd \<dots> \<longleftrightarrow> 7 dvd (k - 15) - (1 - f)" by (rule dvd_add_left_iff) simp
  also have "\<dots> \<longleftrightarrow> (k - 15) mod 7 = r" unfolding r_def by (rule mod_eq_dvd_iff [symmetric])
  finally have friday: "weekday (f + (k - 1)) = 4 \<longleftrightarrow> (k - 15) mod 7 = r" .
  have "(4 - weekday f) mod 7 = r" by (simp add: weekday_def mod_diff_right_eq r_def)
  then show ?thesis using r friday by (auto simp: mod_pos_pos_trivial)
qed

text \<open>The predicate on the day of the month is the third Friday of its month.\<close>

lemma monthly_expiry_third: "is_monthly_expiry d \<longleftrightarrow> d = third_friday (civil_year d) (civil_month d)"
proof -
  define f where "f = civil_date (civil_year d) (civil_month d) 1"
  have d: "d = f + (civil_day d - 1)" unfolding f_def by (rule civil_shift)
  have "is_monthly_expiry d \<longleftrightarrow> civil_day d - 1 = (4 - weekday f) mod 7 + 14"
    unfolding is_monthly_expiry_def is_friday_def using third_friday_iff [of f "civil_day d"] d by metis
  also have "\<dots> \<longleftrightarrow> d = third_friday (civil_year d) (civil_month d)"
    using d unfolding third_friday_def Let_def f_def [symmetric] by linarith
  finally show ?thesis .
qed

lemma third_friday_fields:
  assumes "1 \<le> m" "m \<le> 12" "0 \<le> n" "n \<le> 6"
  shows "civil_year (third_friday y m - n) = y \<and> civil_month (third_friday y m - n) = m"
proof -
  define k where "k = (4 - weekday (civil_date y m 1)) mod 7 + 15 - n"
  have "15 \<le> k + n" "k + n \<le> 21" by (simp_all add: k_def)
  then have "civil_ok (y, m, k)"
    using assms month_days_pos [of y m] by (simp add: civil_ok_def)
  moreover have "third_friday y m - n = civil_date y m k"
    unfolding third_friday_def Let_def k_def by (subst (3) civil_date_shift) simp
  ultimately show ?thesis by (simp add: civil_fields_date civil_year_def civil_month_def)
qed

text \<open>The traded monthly expiry of a month is the last session of the week that ends on its third
  Friday, so there is at most one; on a month whose third Friday trades it is the calendar rule.\<close>

lemma traded_monthly_iff:
  "is_traded_monthly_expiry d is_session \<longleftrightarrow>
     (\<exists>n \<in> {0..6}. d = third_friday (civil_year d) (civil_month d) - n \<and> is_session d
        \<and> (\<forall>j \<in> {0..<n}. \<not> is_session (third_friday (civil_year d) (civil_month d) - j)))"
  (is "_ = (\<exists>n \<in> {0..6}. ?ok n)")
proof -
  let ?t = "third_friday (civil_year d) (civil_month d)"
  have six: "[1..6] = [1, 2, 3, 4, 5, 6 :: int]" by code_simp
  have "{0..6} = set [0, 1, 2, 3, 4, 5, 6 :: int]" by auto
  then have ex: "(\<exists>n \<in> {0..6}. ?ok n) \<longleftrightarrow> ?ok 0 \<or> ?ok 1 \<or> ?ok 2 \<or> ?ok 3 \<or> ?ok 4 \<or> ?ok 5 \<or> ?ok 6" by simp
  have below: "{0..<0} = ({} :: int set)" "{0..<1} = {0 :: int}" "{0..<2} = {0, 1 :: int}" "{0..<3} = {0, 1, 2 :: int}"
      "{0..<4} = {0, 1, 2, 3 :: int}" "{0..<5} = {0, 1, 2, 3, 4 :: int}" "{0..<6} = {0, 1, 2, 3, 4, 5 :: int}" by auto
  show ?thesis
    unfolding ex below is_traded_monthly_expiry_def Let_def six by (auto split: if_splits)
qed

subsection \<open>Texts and provider times\<close>

text \<open>\<open>d.isoformat()\<close> and \<open>strftime("%Y%m%d")\<close>.\<close>

definition iso_text :: "date \<Rightarrow> string" where
  "iso_text d = zero_padded 4 (nat (civil_year d)) @ ''-'' @ zero_padded 2 (nat (civil_month d))
     @ ''-'' @ zero_padded 2 (nat (civil_day d))"

definition compact_text :: "date \<Rightarrow> string" where
  "compact_text d = zero_padded 4 (nat (civil_year d)) @ zero_padded 2 (nat (civil_month d))
     @ zero_padded 2 (nat (civil_day d))"

text \<open>\<open>time/nanoseconds.py\<close>: an instant is in microseconds; an aware timestamp is its UTC instant.\<close>

definition utc_nanoseconds :: "instant \<Rightarrow> int" where
  "utc_nanoseconds t = t div 1000000 * 1000000000 + t mod 1000000 * 1000"

definition from_nanoseconds :: "int \<Rightarrow> string + instant" where
  "from_nanoseconds v =
     (if v \<le> 0 then Inl ''positive integer nanoseconds required''
      else Inr (v div 1000000000 * 1000000 + v mod 1000000000 div 1000))"

lemma utc_nanoseconds: "utc_nanoseconds t = 1000 * t"
proof -
  have "t div 1000000 * 1000000 + t mod 1000000 = t" by simp
  then show ?thesis unfolding utc_nanoseconds_def by linarith
qed

lemma nanoseconds_roundtrip:
  assumes "0 < t"
  shows "from_nanoseconds (utc_nanoseconds t) = Inr t"
proof -
  have "1000 * t div 1000000000 = t div 1000000"
    using div_mult_mult1 [of "1000 :: int" t 1000000] by simp
  moreover have "1000 * t mod 1000000000 = 1000 * (t mod 1000000)"
    using mult_mod_right [of "1000 :: int" t 1000000] by simp
  ultimately show ?thesis using assms by (simp add: from_nanoseconds_def utc_nanoseconds)
qed

subsection \<open>One traded expiry a month\<close>

lemma traded_monthly_ex1:
  assumes m: "1 \<le> m" "m \<le> 12" and n: "0 \<le> n" "n \<le> 6" "is_session (third_friday y m - n)"
    and first_n: "\<forall>j \<in> {0..<n}. \<not> is_session (third_friday y m - j)"
  shows "civil_year d = y \<and> civil_month d = m \<and> is_traded_monthly_expiry d is_session
    \<longleftrightarrow> d = third_friday y m - n"
proof
  assume d: "civil_year d = y \<and> civil_month d = m \<and> is_traded_monthly_expiry d is_session"
  then obtain k where k: "k \<in> {0..6}" "d = third_friday y m - k" "is_session d"
      "\<forall>j \<in> {0..<k}. \<not> is_session (third_friday y m - j)"
    by (auto simp: traded_monthly_iff)
  have "\<not> n < k" using k(4) n by auto
  moreover have "\<not> k < n" using first_n k by auto
  ultimately have "k = n" by simp
  with k(2) show "d = third_friday y m - n" by simp
next
  assume d: "d = third_friday y m - n"
  then have "civil_year d = y \<and> civil_month d = m" using third_friday_fields [OF m n(1,2)] by simp
  then show "civil_year d = y \<and> civil_month d = m \<and> is_traded_monthly_expiry d is_session"
    using d n first_n by (auto simp: traded_monthly_iff)
qed

end
