(* ===== verification/RunStore.thy ===== *)
theory RunStore
  imports RunJournal Civil
begin

text \<open>
  The run-state facade, \<open>runstate/store.py\<close>: the run id that is computed from the logical inputs of a
  run, and \<open>RunStore\<close> with its transitions, its pinned manifest, its status and the validation of a
  resume. A handle is the identity it was opened with and the view it last replayed; the directory is
  the one of \<open>RunJournal\<close>. A call that changes the store is a function to the new directory and either
  an error or the new view; its refusals change nothing but what \<open>append_record\<close> changed before it
  refused. The path checks of a store root, and the re-reading of \<open>run.json\<close>, whose contents never
  change, are left out.
\<close>

subsection \<open>Identities\<close>

record run_identity =
  ri_run_id :: string
  ri_campaign :: string
  ri_protocol_hash :: string
  ri_code_sha :: string
  ri_provider :: string
  ri_capture_version :: string
  ri_universe_sha :: string
  ri_capture_manifest :: "string option"
  ri_boot :: string
  ri_pid :: int
  ri_ticks :: int
  ri_started :: int
  ri_args_hash :: string
  ri_nonce :: "string option"

definition utc_date :: "int \<Rightarrow> date" where "utc_date epoch = epoch div 86400"

text \<open>The canonical text of \<open>RunIdentityCore\<close>, its fields in the order of their names.\<close>

definition core_text :: "run_identity \<Rightarrow> string" where
  "core_text i =
     ''{'' @ json_string ''args_hash'' @ '':'' @ json_string (ri_args_hash i)
     @ '','' @ json_string ''campaign'' @ '':'' @ json_string (ri_campaign i)
     @ '','' @ json_string ''capture_version'' @ '':'' @ json_string (ri_capture_version i)
     @ '','' @ json_string ''code_sha'' @ '':'' @ json_string (ri_code_sha i)
     @ '','' @ json_string ''logical_start_date'' @ '':'' @ json_string (iso_text (utc_date (ri_started i)))
     @ '','' @ json_string ''protocol_hash'' @ '':'' @ json_string (ri_protocol_hash i)
     @ '','' @ json_string ''provider'' @ '':'' @ json_string (ri_provider i)
     @ '','' @ json_string ''run_nonce'' @ '':'' @ json_null json_string (ri_nonce i)
     @ '','' @ json_string ''schema_version'' @ '':'' @ json_string ''run-identity-core/1''
     @ '','' @ json_string ''universe_manifest_sha256'' @ '':'' @ json_string (ri_universe_sha i) @ ''}''"

definition canonical_run_id :: "(string \<Rightarrow> string) \<Rightarrow> run_identity \<Rightarrow> string" where
  "canonical_run_id sha256 i =
     ri_campaign i @ ''-'' @ compact_text (utc_date (ri_started i)) @ ''-'' @ take 8 (sha256 (core_text i))"

subsection \<open>Queries\<close>

definition last_some :: "('a \<Rightarrow> 'b option) \<Rightarrow> 'a list \<Rightarrow> 'b option" where
  "last_some f xs = foldl (\<lambda>acc x. case f x of None \<Rightarrow> acc | Some y \<Rightarrow> Some y) None xs"

definition view_state :: "journal_view \<Rightarrow> run_state option" where
  "view_state v = last_some jr_to (jv_records v)"

definition pin_kind :: string where "pin_kind = ''MANIFEST_PINNED''"

text \<open>The last \<open>MANIFEST_PINNED\<close> record decides, whatever manifest it carries.\<close>

definition last_pin :: "journal_view \<Rightarrow> journal_record option" where
  "last_pin v = last_some (\<lambda>r. if jr_kind r = pin_kind then Some r else None) (jv_records v)"

definition pinned_manifest :: "run_identity \<Rightarrow> journal_view \<Rightarrow> string option" where
  "pinned_manifest i v = (case last_pin v of Some r \<Rightarrow> jr_manifest r | None \<Rightarrow> ri_capture_manifest i)"

definition next_seq :: "journal_view \<Rightarrow> int" where
  "next_seq v = (if jv_records v = [] then 1 else jr_seq (last (jv_records v)) + 1)"

definition failure_reason :: "journal_view \<Rightarrow> string option" where
  "failure_reason v =
     (if view_state v = Some FAILED
      then last_some (\<lambda>r. if jr_kind r = ''TRANSITION'' \<and> jr_to r = Some FAILED then Some (jr_reason r) else None)
             (jv_records v)
      else None)"

record run_status =
  rs_run_id :: string
  rs_state :: "run_state option"
  rs_heartbeat :: heartbeat_class
  rs_lease :: "lease_class option"
  rs_tail :: string
  rs_seq :: int
  rs_damaged :: bool
  rs_pinned :: "string option"
  rs_failure :: "string option"

definition store_status ::
  "(string \<Rightarrow> journal_record option) \<Rightarrow> (string \<Rightarrow> string) \<Rightarrow> run_identity \<Rightarrow> proc_fs \<Rightarrow> string \<Rightarrow> int
     \<Rightarrow> heartbeat option \<Rightarrow> owner_bytes option \<Rightarrow> run_dir \<Rightarrow> run_error + run_status" where
  "store_status decode sha256 i fs boot now beat lease d =
     (case replay_dir decode sha256 d of
        Inl e \<Rightarrow> Inl e
      | Inr v \<Rightarrow> Inr
          \<lparr>rs_run_id = ri_run_id i, rs_state = view_state v,
           rs_heartbeat = classify_beat fs boot now stale_after_s beat (view_state v),
           rs_lease = (if owner_exists lease then Some (classify_existing fs boot lease) else None),
           rs_tail = jv_tail v, rs_seq = (if jv_records v = [] then 0 else jr_seq (last (jv_records v))),
           rs_damaged = jv_damaged v, rs_pinned = pinned_manifest i v, rs_failure = failure_reason v\<rparr>)"

subsection \<open>Writes\<close>

text \<open>The records a call appends: who acts and when, with the guards that come before. The guards of
  \<open>transition\<close> are checked on the view that the call replayed.\<close>

record actor =
  ac_pid :: int
  ac_boot :: string
  ac_at :: int

definition genesis_record :: "run_identity \<Rightarrow> int \<Rightarrow> journal_record" where
  "genesis_record i now =
     \<lparr>jr_seq = 1, jr_kind = ''GENESIS'', jr_from = None, jr_to = Some PLANNED, jr_reason = ''store created'',
      jr_pid = ri_pid i, jr_boot = ri_boot i, jr_at = now, jr_manifest = None, jr_prev = genesis_prev, jr_sha = []\<rparr>"

definition transition_record ::
  "journal_view \<Rightarrow> run_state \<Rightarrow> string \<Rightarrow> actor \<Rightarrow> lease_owner option \<Rightarrow> run_error + journal_record" where
  "transition_record v target reason a lease =
     (case view_state v of
        None \<Rightarrow> Inl No_State
      | Some source \<Rightarrow>
          if (case lease of None \<Rightarrow> False | Some ow \<Rightarrow> lo_boot ow \<noteq> ac_boot a) then Inl Lease_Boot_Mismatch
          else if \<not> is_legal source target then Inl (Illegal_Transition source target)
          else Inr \<lparr>jr_seq = next_seq v, jr_kind = ''TRANSITION'', jr_from = Some source, jr_to = Some target,
                    jr_reason = reason, jr_pid = ac_pid a, jr_boot = ac_boot a, jr_at = ac_at a,
                    jr_manifest = None, jr_prev = jv_tail v, jr_sha = []\<rparr>)"

text \<open>\<open>pin_manifest\<close> appends nothing when the same manifest was pinned by a record: the left of the
  inner sum is the digest it returns. A manifest that only the identity carries is pinned by a record.\<close>

definition pin_record ::
  "run_identity \<Rightarrow> journal_view \<Rightarrow> string \<Rightarrow> actor \<Rightarrow> run_error + (string + journal_record)" where
  "pin_record i v manifest a =
     (let existing = pinned_manifest i v;
          r = \<lparr>jr_seq = next_seq v, jr_kind = pin_kind, jr_from = None, jr_to = None,
               jr_reason = ''capture manifest pinned'', jr_pid = ac_pid a, jr_boot = ac_boot a, jr_at = ac_at a,
               jr_manifest = Some manifest, jr_prev = jv_tail v, jr_sha = []\<rparr>
      in if existing \<noteq> None \<and> existing \<noteq> Some manifest then Inl (Pin_Already_Bound (the existing) manifest)
         else if existing = Some manifest
           then (case last_pin v of Some prior \<Rightarrow> Inr (Inl (jr_sha prior)) | None \<Rightarrow> Inr (Inr r))
         else Inr (Inr r))"

text \<open>The append, and the replay after it.\<close>

definition commit ::
  "(string \<Rightarrow> journal_record option) \<Rightarrow> (string \<Rightarrow> string) \<Rightarrow> nat \<Rightarrow> run_dir \<Rightarrow> journal_record
     \<Rightarrow> run_dir \<times> (run_error + journal_view)" where
  "commit decode sha256 fresh d r =
     (case append_record decode sha256 fresh d r of
        (d', Inl e) \<Rightarrow> (d', Inl e)
      | (d', Inr _) \<Rightarrow> (d', replay_dir decode sha256 d'))"

definition store_transition ::
  "(string \<Rightarrow> journal_record option) \<Rightarrow> (string \<Rightarrow> string) \<Rightarrow> nat \<Rightarrow> run_state \<Rightarrow> string \<Rightarrow> actor
     \<Rightarrow> lease_owner option \<Rightarrow> run_dir \<Rightarrow> run_dir \<times> (run_error + journal_view)" where
  "store_transition decode sha256 fresh target reason a lease d =
     (case replay_dir decode sha256 d of
        Inl e \<Rightarrow> (d, Inl e)
      | Inr v \<Rightarrow>
          (case transition_record v target reason a lease of
             Inl e \<Rightarrow> (d, Inl e)
           | Inr r \<Rightarrow> commit decode sha256 fresh d r))"

definition store_pin ::
  "(string \<Rightarrow> journal_record option) \<Rightarrow> (string \<Rightarrow> string) \<Rightarrow> nat \<Rightarrow> run_identity \<Rightarrow> string \<Rightarrow> actor
     \<Rightarrow> run_dir \<Rightarrow> run_dir \<times> (run_error + journal_view)" where
  "store_pin decode sha256 fresh i manifest a d =
     (case replay_dir decode sha256 d of
        Inl e \<Rightarrow> (d, Inl e)
      | Inr v \<Rightarrow>
          (case pin_record i v manifest a of
             Inl e \<Rightarrow> (d, Inl e)
           | Inr (Inl _) \<Rightarrow> (d, Inr v)
           | Inr (Inr r) \<Rightarrow> commit decode sha256 fresh d r))"

definition empty_dir :: run_dir where "empty_dir = \<lparr>rd_journal = None, rd_binding = None\<rparr>"

text \<open>\<open>create\<close> makes the directory, refusing one that exists, and appends the genesis record.\<close>

definition store_create ::
  "(string \<Rightarrow> journal_record option) \<Rightarrow> (string \<Rightarrow> string) \<Rightarrow> nat \<Rightarrow> run_identity \<Rightarrow> int \<Rightarrow> run_dir option
     \<Rightarrow> run_dir option \<times> (run_error + journal_view)" where
  "store_create decode sha256 fresh i now existing =
     (if ri_run_id i \<noteq> canonical_run_id sha256 i then (existing, Inl Custody_Refused)
      else case existing of
             Some d \<Rightarrow> (existing, Inl Store_Exists)
           | None \<Rightarrow> let (d, res) = commit decode sha256 fresh empty_dir (genesis_record i now) in (Some d, res))"

definition validate_resume ::
  "(string \<Rightarrow> journal_record option) \<Rightarrow> (string \<Rightarrow> string) \<Rightarrow> run_identity \<Rightarrow> string \<Rightarrow> run_dir \<Rightarrow> run_error + unit" where
  "validate_resume decode sha256 i observed d =
     (case replay_dir decode sha256 d of
        Inl e \<Rightarrow> Inl e
      | Inr v \<Rightarrow>
          (case pinned_manifest i v of
             None \<Rightarrow> Inl (Manifest_Mismatch None observed)
           | Some p \<Rightarrow> if p \<noteq> observed then Inl (Manifest_Mismatch (Some p) observed) else Inr ()))"

subsection \<open>Processes that share a store\<close>

text \<open>
  Two calls on one store interleave between their replay and their append; the lock only covers the
  append. A call in flight is the record it built from the view it replayed. \<open>read_transition\<close> and
  \<open>read_pin\<close> replay and build, \<open>committed\<close> appends, \<open>crashed\<close> is an append that died after \<open>k\<close>
  characters. \<open>rw_made\<close> remembers every record that was built; no step reads it.
\<close>

record run_world =
  rw_dir :: run_dir
  rw_pending :: "journal_record list"
  rw_made :: "journal_record set"

inductive run_step ::
  "(string \<Rightarrow> journal_record option) \<Rightarrow> (string \<Rightarrow> string) \<Rightarrow> run_identity \<Rightarrow> run_world \<Rightarrow> run_world \<Rightarrow> bool"
  for decode sha256 i where
  read_transition: "replay_dir decode sha256 (rw_dir w) = Inr v
    \<Longrightarrow> transition_record v target reason a lease = Inr r
    \<Longrightarrow> run_step decode sha256 i w (w\<lparr>rw_pending := r # rw_pending w, rw_made := insert r (rw_made w)\<rparr>)"
| read_pin: "replay_dir decode sha256 (rw_dir w) = Inr v \<Longrightarrow> pin_record i v manifest a = Inr (Inr r)
    \<Longrightarrow> run_step decode sha256 i w (w\<lparr>rw_pending := r # rw_pending w, rw_made := insert r (rw_made w)\<rparr>)"
| committed: "r \<in> set (rw_pending w) \<Longrightarrow> append_record decode sha256 fresh (rw_dir w) r = (d, res)
    \<Longrightarrow> run_step decode sha256 i w (w\<lparr>rw_dir := d, rw_pending := remove1 r (rw_pending w)\<rparr>)"
| crashed: "r \<in> set (rw_pending w) \<Longrightarrow> append_torn decode sha256 fresh k (rw_dir w) r = d
    \<Longrightarrow> run_step decode sha256 i w (w\<lparr>rw_dir := d, rw_pending := remove1 r (rw_pending w)\<rparr>)"

definition run_start :: "run_identity \<Rightarrow> int \<Rightarrow> run_world" where
  "run_start i now = \<lparr>rw_dir = empty_dir, rw_pending = [genesis_record i now],
     rw_made = {genesis_record i now}\<rparr>"

inductive run_reached ::
  "(string \<Rightarrow> journal_record option) \<Rightarrow> (string \<Rightarrow> string) \<Rightarrow> run_identity \<Rightarrow> int \<Rightarrow> run_world \<Rightarrow> bool"
  for decode sha256 i now where
  start: "run_reached decode sha256 i now (run_start i now)"
| step: "run_reached decode sha256 i now w \<Longrightarrow> run_step decode sha256 i w w'
    \<Longrightarrow> run_reached decode sha256 i now w'"

end
