(* ===== verification/RunLaws.thy ===== *)
theory RunLaws
  imports RunStore
begin

text \<open>
  What the run-state store guarantees. The text of a journal: a line determines its record, the lines of
  a list of records split and replay to that list, and two chains with the same tail are equal unless
  the digest collides. Then the reachable stores, in any interleaving of calls with crashes in the
  middle of an append: the history that a replay shows is a path of the edge table.
\<close>

subsection \<open>Lines\<close>

definition printable :: "char \<Rightarrow> bool" where
  "printable c \<longleftrightarrow> (let n = (of_char c :: nat) in 32 \<le> n \<and> n \<le> 126)"

lemma printable_no_break: "printable c \<Longrightarrow> \<not> line_break c"
  by (auto simp: printable_def line_break_def Let_def)

lemma hex_digit_printable: "n < 16 \<Longrightarrow> printable (hex_digit n)"
proof -
  have "\<forall>n \<in> set [0..<16]. printable (hex_digit n)" by code_simp
  then show "n < 16 \<Longrightarrow> printable (hex_digit n)" by simp
qed

lemma json_char_printable:
  assumes "x \<in> set (json_char c)"
  shows "printable x"
proof -
  define n :: nat where "n = of_char c"
  have "n < 256" by (simp add: n_def)
  then have hex: "printable (hex_digit (n div 16))" "printable (hex_digit (n mod 16))"
    by (simp_all add: hex_digit_printable less_mult_imp_div_less)
  have escapes: "list_all printable (CHR 0x22 # CHR 0x5C # ''btnfru0'')" by code_simp
  have "x \<in> set (CHR 0x22 # CHR 0x5C # ''btnfru0'') \<or> x \<in> {hex_digit (n div 16), hex_digit (n mod 16)}
      \<or> x = c \<and> 32 \<le> n \<and> n \<le> 126"
    using assms unfolding json_char_def Let_def n_def [symmetric] by (auto split: if_splits)
  then show ?thesis
  proof (elim disjE)
    assume "x = c \<and> 32 \<le> n \<and> n \<le> 126"
    then show ?thesis by (simp add: printable_def Let_def n_def)
  qed (use escapes hex in \<open>auto simp: list_all_iff\<close>)
qed

lemma json_string_printable: "x \<in> set (json_string s) \<Longrightarrow> printable x"
  using json_char_printable by (auto simp: json_string_def printable_def)

lemma json_int_printable: "x \<in> set (json_int n) \<Longrightarrow> printable x"
proof -
  have "printable x" if digit: "x \<in> set (string_of_nat m)" for m
  proof -
    obtain d where "d < 10" "x = char_of (48 + d :: nat)" using string_of_nat_digit [OF digit] by blast
    moreover have "\<forall>d \<in> set [0..<10]. printable (char_of (48 + d :: nat))" by code_simp
    ultimately show ?thesis by simp
  qed
  moreover have "printable (CHR ''-'')" by (simp add: printable_def)
  moreover assume "x \<in> set (json_int n)"
  then have "x = CHR ''-'' \<or> (\<exists>m. x \<in> set (string_of_nat m))"
    unfolding json_int_def by (metis set_ConsD)
  ultimately show "printable x" by blast
qed

lemma json_null_printable:
  assumes "\<And>y. x \<in> set (enc y) \<Longrightarrow> printable x" "x \<in> set (json_null enc z)"
  shows "printable x"
proof (cases z)
  case None
  have "list_all printable ''null''" by code_simp
  then show ?thesis using assms(2) None by (auto simp: json_null_def list_all_iff)
next
  case (Some y)
  then show ?thesis using assms by (simp add: json_null_def)
qed

lemma json_state_printable: "x \<in> set (json_state z) \<Longrightarrow> printable x"
  unfolding json_state_def by (rule json_null_printable) (simp_all add: json_string_printable)

lemma json_text_printable: "x \<in> set (json_null json_string z) \<Longrightarrow> printable x"
  by (rule json_null_printable) (simp_all add: json_string_printable)

lemma punct_printable: "printable (CHR ''{'')" "printable (CHR ''}'')" "printable (CHR '','')" "printable (CHR '':'')"
  by code_simp+

lemma record_line_printable:
  assumes "x \<in> set (record_line r)"
  shows "printable x"
proof -
  have "x \<in> {CHR ''{'', CHR ''}'', CHR '','', CHR '':''} \<or> (\<exists>s. x \<in> set (json_string s)) \<or> (\<exists>n. x \<in> set (json_int n))
      \<or> (\<exists>z. x \<in> set (json_state z)) \<or> (\<exists>z. x \<in> set (json_null json_string z))"
    using assms unfolding record_line_def json_head_def json_rest_def set_append set_simps Un_iff insert_iff by blast
  then show ?thesis
    using json_string_printable json_int_printable json_state_printable json_text_printable punct_printable by blast
qed

text \<open>The body of a record determines every field but the digest.\<close>

lemma record_body_inj:
  assumes "record_body r = record_body r'"
  shows "r\<lparr>jr_sha := h\<rparr> = r'\<lparr>jr_sha := h\<rparr>"
proof -
  have "jr_boot r = jr_boot r' \<and> jr_pid r = jr_pid r' \<and> jr_at r = jr_at r' \<and> jr_from r = jr_from r'
      \<and> jr_kind r = jr_kind r' \<and> jr_manifest r = jr_manifest r' \<and> jr_prev r = jr_prev r'
      \<and> jr_reason r = jr_reason r' \<and> jr_seq r = jr_seq r' \<and> jr_to r = jr_to r'"
    using assms
    by (simp add: record_body_def json_head_def json_rest_def json_state_def str.comma_unique num.comma_unique
        state.enum.null.comma_unique state.enum.null.brace_unique state.enum.null.enc_inj str.null.comma_unique)
  then show ?thesis by (cases r; cases r') simp
qed

lemma record_body_sha [simp]: "record_body (r\<lparr>jr_sha := h\<rparr>) = record_body r"
  by (simp add: record_body_def json_head_def json_rest_def)

lemma record_hash_sha [simp]: "record_hash sha256 (r\<lparr>jr_sha := h\<rparr>) = record_hash sha256 r"
  by (simp add: record_hash_def)

lemma seal_record_eq [simp]:
  "jr_prev (seal_record sha256 r) = jr_prev r" "jr_sha (seal_record sha256 r) = record_hash sha256 r"
  "record_hash sha256 (seal_record sha256 r) = record_hash sha256 r"
  by (simp_all add: seal_record_def)

subsection \<open>Chains\<close>

primrec chain :: "(string \<Rightarrow> string) \<Rightarrow> string \<Rightarrow> journal_record list \<Rightarrow> bool" where
  "chain sha256 prev [] = True"
| "chain sha256 prev (r # rs) = (verify_chain sha256 r prev \<and> chain sha256 (jr_sha r) rs)"

definition chain_tail :: "journal_record list \<Rightarrow> string" where
  "chain_tail rs = (if rs = [] then genesis_prev else jr_sha (last rs))"

lemma chain_tail_simps [simp]: "chain_tail [] = genesis_prev" "chain_tail (rs @ [r]) = jr_sha r"
  by (simp_all add: chain_tail_def)

lemma chain_append:
  "chain sha256 prev (rs @ ss)
     \<longleftrightarrow> chain sha256 prev rs \<and> chain sha256 (if rs = [] then prev else jr_sha (last rs)) ss"
  by (induction rs arbitrary: prev) auto

lemma chain_snoc [simp]:
  "chain sha256 genesis_prev (rs @ [r]) \<longleftrightarrow> chain sha256 genesis_prev rs \<and> verify_chain sha256 r (chain_tail rs)"
  by (simp add: chain_append chain_tail_def)

lemma chain_take: "chain sha256 prev rs \<Longrightarrow> chain sha256 prev (take n rs)"
  using chain_append [of sha256 prev "take n rs" "drop n rs"] by simp

text \<open>The digest separates the bodies of a set of records, and none of them from nothing.\<close>

definition no_clash :: "(string \<Rightarrow> string) \<Rightarrow> journal_record set \<Rightarrow> bool" where
  "no_clash sha256 rs \<longleftrightarrow>
     (\<forall>r \<in> rs. record_hash sha256 r \<noteq> genesis_prev
        \<and> (\<forall>r' \<in> rs. record_hash sha256 r = record_hash sha256 r' \<longrightarrow> record_body r = record_body r'))"

lemma no_clash_subset: "no_clash sha256 rs \<Longrightarrow> ss \<subseteq> rs \<Longrightarrow> no_clash sha256 ss"
  unfolding no_clash_def by blast

lemma same_record:
  assumes "no_clash sha256 rs" "r \<in> rs" "s \<in> rs" "jr_sha r = record_hash sha256 r" "jr_sha s = record_hash sha256 s"
    "jr_sha r = jr_sha s"
  shows "r = s"
proof -
  have "record_hash sha256 r = record_hash sha256 s" using assms(4-6) by simp
  with assms(1-3) have "record_body r = record_body s" unfolding no_clash_def by blast
  then have "r\<lparr>jr_sha := jr_sha s\<rparr> = s\<lparr>jr_sha := jr_sha s\<rparr>" by (rule record_body_inj)
  moreover have "r\<lparr>jr_sha := jr_sha s\<rparr> = r" "s\<lparr>jr_sha := jr_sha s\<rparr> = s"
    using assms(6) by (cases r, simp, cases s, simp)
  ultimately show ?thesis by simp
qed

lemma chain_unique:
  assumes "no_clash sha256 (set rs \<union> set ss)" "chain sha256 genesis_prev rs" "chain sha256 genesis_prev ss"
    "chain_tail rs = chain_tail ss"
  shows "rs = ss"
  using assms
proof (induction rs arbitrary: ss rule: rev_induct)
  case Nil
  then show ?case
    by (cases ss rule: rev_cases) (auto simp: verify_chain_def no_clash_def split: if_splits)
next
  case (snoc r rs)
  show ?case
  proof (cases ss rule: rev_cases)
    case Nil
    then show ?thesis using snoc.prems by (auto simp: verify_chain_def no_clash_def split: if_splits)
  next
    case (snoc ss' s)
    note ss = \<open>ss = ss' @ [s]\<close>
    have r: "jr_prev r = chain_tail rs" "jr_sha r = record_hash sha256 r"
      and s: "jr_prev s = chain_tail ss'" "jr_sha s = record_hash sha256 s" and same: "jr_sha r = jr_sha s"
      using snoc.prems(2-4) ss by (auto simp: verify_chain_def split: if_splits)
    have "r \<in> set (rs @ [r]) \<union> set ss" "s \<in> set (rs @ [r]) \<union> set ss" using ss by simp_all
    then have "r = s" using same_record [OF snoc.prems(1)] r(2) s(2) same by blast
    moreover have "no_clash sha256 (set rs \<union> set ss')" using snoc.prems(1) ss by (auto elim: no_clash_subset)
    moreover have "chain sha256 genesis_prev rs" "chain sha256 genesis_prev ss'" using snoc.prems(2,3) ss by simp_all
    ultimately show ?thesis using snoc.IH [of ss'] r s ss by simp
  qed
qed

subsection \<open>Texts\<close>

abbreviation LF :: char where "LF \<equiv> CHR 0x0A"

definition render :: "journal_record list \<Rightarrow> string" where
  "render rs = concat (map (\<lambda>r. record_line r @ [LF]) rs)"

lemma render_simps [simp]:
  "render [] = []" "render (r # rs) = record_line r @ LF # render rs" "render (rs @ ss) = render rs @ render ss"
  by (simp_all add: render_def)

lemma split_lines_line:
  "\<forall>x \<in> set l. printable x \<Longrightarrow> split_lines acc (l @ LF # s) = (rev acc @ l) # split_lines [] s"
proof (induction l arbitrary: acc)
  case Nil
  then show ?case by (simp add: line_break_def Let_def split: list.splits)
qed (simp add: printable_no_break)

lemma split_lines_end:
  "\<forall>x \<in> set l. printable x \<Longrightarrow> split_lines acc l = (if acc = [] \<and> l = [] then [] else [rev acc @ l])"
proof (induction l arbitrary: acc)
  case (Cons x l)
  then show ?case using printable_no_break [of x] by simp
qed simp

lemma split_render: "split_lines [] (render rs @ t) = map record_line rs @ split_lines [] t"
  using record_line_printable by (induction rs) (simp_all add: split_lines_line)

lemma record_line_nonempty [simp]: "record_line r \<noteq> []" "[] \<noteq> record_line r"
  by (simp_all add: record_line_def json_head_def)

lemma split_record_line [simp]: "split_lines [] (record_line r) = [record_line r]"
  using split_lines_end [of "record_line r" "[]"] record_line_printable by simp

text \<open>What is relied on of the decoding of a line: it reads back a line that was written, it refuses a
  text that ends inside a record, and one that goes on with another object after it.\<close>

definition decodes :: "(string \<Rightarrow> journal_record option) \<Rightarrow> journal_record set \<Rightarrow> bool" where
  "decodes decode rs \<longleftrightarrow>
     (\<forall>r \<in> rs. decode (record_line r) = Some r
        \<and> (\<forall>k < length (record_line r). decode (take k (record_line r)) = None)
        \<and> (\<forall>x. decode (record_line r @ CHR ''{'' # x) = None))"

lemma replay_records:
  assumes "decodes decode (set rs)" "chain sha256 prev rs"
  shows "replay_lines decode sha256 n prev acc (map record_line rs @ ls)
      = replay_lines decode sha256 (n + length rs) (if rs = [] then prev else jr_sha (last rs)) (rev rs @ acc) ls"
  using assms
proof (induction rs arbitrary: n prev acc)
  case (Cons r rs)
  then have "good_record decode sha256 prev (record_line r) = Some r"
    by (simp add: good_record_def decodes_def)
  then show ?case using Cons by (simp add: decodes_def)
qed simp

lemma tail_records:
  assumes "decodes decode (set rs)" "chain sha256 prev rs"
  shows "tail_lines decode sha256 prev (map record_line rs @ ls)
      = tail_lines decode sha256 (if rs = [] then prev else jr_sha (last rs)) ls"
  using assms
proof (induction rs arbitrary: prev)
  case (Cons r rs)
  then have "good_record decode sha256 prev (record_line r) = Some r"
    by (simp add: good_record_def decodes_def)
  then show ?case using Cons by (simp add: decodes_def)
qed simp

lemma replay_text_render:
  assumes "decodes decode (set rs)" "chain sha256 genesis_prev rs"
  shows "replay_text decode sha256 (render rs) = Inr \<lparr>jv_records = rs, jv_tail = chain_tail rs, jv_damaged = False\<rparr>"
  using replay_records [OF assms, of 1 "[]" "[]"] split_render [of rs "[]"]
  by (simp add: replay_text_def chain_tail_def)

subsection \<open>The shape of a reachable directory\<close>

text \<open>
  \<open>dir_shape decode sha256 d vs torn\<close>: the journal shows the records \<open>vs\<close>, and \<open>torn\<close> tells whether
  a damaged last line follows them. After the complete lines of \<open>rs\<close> there may be a rest: a line that
  lacks its line feed, whose record is shown, or a text no record can be read from.
\<close>

definition rest_shows ::
  "(string \<Rightarrow> journal_record option) \<Rightarrow> journal_record list \<Rightarrow> string \<Rightarrow> journal_record list \<Rightarrow> bool \<Rightarrow> bool" where
  "rest_shows decode rs t vs torn \<longleftrightarrow>
     t = [] \<and> vs = rs \<and> \<not> torn
   \<or> (\<exists>r. t = record_line r \<and> vs = rs @ [r] \<and> \<not> torn)
   \<or> (\<exists>l. split_lines [] t = [l] \<and> decode l = None \<and> vs = rs \<and> torn)"

definition binding_covers :: "name_binding \<Rightarrow> journal_record list \<Rightarrow> nat \<Rightarrow> bool" where
  "binding_covers b rs m \<longleftrightarrow>
     m \<le> length rs \<and> nb_extent b = length (render (take m rs)) \<and> nb_tail b = chain_tail (take m rs)"

definition dir_shape ::
  "(string \<Rightarrow> journal_record option) \<Rightarrow> (string \<Rightarrow> string) \<Rightarrow> run_dir \<Rightarrow> journal_record list \<Rightarrow> bool \<Rightarrow> nat \<Rightarrow> bool" where
  "dir_shape decode sha256 d vs torn m \<longleftrightarrow>
     chain sha256 genesis_prev vs \<and> decodes decode (set vs) \<and>
     (d = empty_dir \<and> vs = [] \<and> \<not> torn \<and> m = 0
      \<or> (\<exists>rs t b. rd_journal d = Some (nb_inode b, render rs @ t) \<and> rd_binding d = Some (Some b)
            \<and> rest_shows decode rs t vs torn \<and> binding_covers b rs m))"

lemma rest_shows_records: "rest_shows decode rs t vs torn \<Longrightarrow> \<exists>ss. vs = rs @ ss"
  by (auto simp: rest_shows_def)

lemma shows_lines:
  assumes rest: "rest_shows decode rs t vs torn" and ch: "chain sha256 genesis_prev vs" and dec: "decodes decode (set vs)"
  shows shows_replay: "replay_text decode sha256 (render rs @ t)
      = Inr \<lparr>jv_records = vs, jv_tail = chain_tail vs, jv_damaged = torn\<rparr>"
    and shows_tail: "locked_tail_view decode sha256 (render rs @ t) = (chain_tail vs, torn)"
proof -
  obtain ls where lines: "split_lines [] (render rs @ t) = map record_line vs @ ls"
      and ls: "ls = [] \<and> \<not> torn \<or> (\<exists>l. ls = [l] \<and> decode l = None \<and> torn)"
    using rest unfolding rest_shows_def by (auto simp: split_render)
  show "replay_text decode sha256 (render rs @ t) = Inr \<lparr>jv_records = vs, jv_tail = chain_tail vs, jv_damaged = torn\<rparr>"
    using ls replay_records [OF dec ch, of 1 "[]" ls]
    by (auto simp: lines replay_text_def good_record_def chain_tail_def split: option.splits)
  show "locked_tail_view decode sha256 (render rs @ t) = (chain_tail vs, torn)"
    using ls tail_records [OF dec ch, of ls]
    by (auto simp: lines locked_tail_view_def good_record_def chain_tail_def split: option.splits)
qed

lemma last_render: "rs \<noteq> [] \<Longrightarrow> last (render rs) = LF"
  by (cases rs rule: rev_cases) simp_all

lemma covers_extent:
  assumes cov: "binding_covers b rs m" and rest: "rest_shows decode rs t vs torn"
    and ch: "chain sha256 genesis_prev vs" and dec: "decodes decode (set vs)"
    and view: "jv_tail view = chain_tail vs"
  shows "check_committed_extent decode sha256 b view (render rs @ t) = Inr ()"
proof -
  have whole: "render rs @ t = render (take m rs) @ (render (drop m rs) @ t)"
    by (metis append.assoc append_take_drop_id render_simps(3))
  obtain ss where vs: "vs = rs @ ss" using rest_shows_records [OF rest] by blast
  have ext: "nb_extent b = length (render (take m rs))" "nb_tail b = chain_tail (take m rs)"
    using cov by (simp_all add: binding_covers_def)
  have take: "take (nb_extent b) (render rs @ t) = render (take m rs)"
    unfolding whole ext by simp
  have "set (take m rs) \<subseteq> set vs" using vs by (auto dest: in_set_takeD)
  then have "decodes decode (set (take m rs))" using dec unfolding decodes_def by blast
  moreover have "chain sha256 genesis_prev (take m rs)"
    using ch vs chain_take [of sha256 genesis_prev vs "min m (length rs)"] by (simp add: min_def split: if_splits)
  ultimately have prefix: "replay_text decode sha256 (render (take m rs))
      = Inr \<lparr>jv_records = take m rs, jv_tail = chain_tail (take m rs), jv_damaged = False\<rparr>"
    by (rule replay_text_render)
  show ?thesis
  proof (cases "length (render rs @ t) = nb_extent b")
    case True
    then have "render (drop m rs) @ t = []" unfolding whole ext by simp
    then have "drop m rs = []" "t = []" by (cases "drop m rs"; simp)+
    then have "vs = take m rs" using rest by (auto simp: rest_shows_def)
    then show ?thesis using True view ext by (simp add: check_committed_extent_def)
  next
    case False
    moreover have "nb_extent b \<le> length (render rs @ t)" unfolding whole ext by simp
    moreover have "0 < nb_extent b \<Longrightarrow> take m rs \<noteq> []"
      unfolding ext by (metis length_greater_0_conv render_simps(1))
    moreover have "0 < nb_extent b \<Longrightarrow> last (render (take m rs)) = LF"
      using calculation(3) by (rule last_render)
    moreover define raw where "raw = render rs @ t"
    ultimately have "length raw \<noteq> nb_extent b" "\<not> length raw < nb_extent b"
        "\<not> (0 < nb_extent b \<and> last (render (take m rs)) \<noteq> LF)" "take (nb_extent b) raw = render (take m rs)"
      using take by auto
    then have "check_committed_extent decode sha256 b view raw = Inr ()"
      unfolding check_committed_extent_def Let_def by (simp only: prefix ext(2)) simp
    then show ?thesis by (simp only: raw_def)
  qed
qed

subsection \<open>Appending to a shape\<close>

lemma record_line_brace: "\<exists>x. record_line r = CHR ''{'' # x"
  by (simp add: record_line_def json_head_def)

lemma split_printable: "\<forall>x \<in> set l. printable x \<Longrightarrow> l \<noteq> [] \<Longrightarrow> split_lines [] l = [l]"
  using split_lines_end [of l "[]"] by simp

lemma split_printable_LF: "\<forall>x \<in> set l. printable x \<Longrightarrow> split_lines [] (l @ [LF]) = [l]"
  using split_lines_line [of l "[]" "[]"] by simp

text \<open>The text that reached the file when a record was being written after a complete line, and after a
  line that lacks its line feed.\<close>

lemma rest_shows_torn:
  assumes "decodes decode {r}"
  shows "\<exists>ss t ws torn. render rs @ take k (record_line r @ [LF]) = render (rs @ ss) @ t
    \<and> rest_shows decode (rs @ ss) t ws torn \<and> ws \<in> {rs, rs @ [r]}"
proof (cases "k \<le> length (record_line r)")
  case True
  have p: "\<forall>x \<in> set (take k (record_line r)). printable x"
    using record_line_printable by (auto dest: in_set_takeD)
  consider "k = 0" | "0 < k" "k < length (record_line r)" | "k = length (record_line r)" using True by linarith
  then show ?thesis
  proof cases
    case 1
    then show ?thesis by (intro exI [of _ "[]"] exI [of _ rs] exI [of _ False]) (simp add: rest_shows_def)
  next
    case 2
    have "split_lines [] (take k (record_line r)) = [take k (record_line r)]"
      using p 2 by (intro split_printable) auto
    moreover have "decode (take k (record_line r)) = None" using assms 2 by (simp add: decodes_def)
    ultimately show ?thesis using 2
      by (intro exI [of _ "[]"] exI [of _ "take k (record_line r)"] exI [of _ rs] exI [of _ True])
         (simp add: rest_shows_def)
  next
    case 3
    then show ?thesis
      by (intro exI [of _ "[]"] exI [of _ "record_line r"] exI [of _ "rs @ [r]"] exI [of _ False])
         (simp add: rest_shows_def)
  qed
next
  case False
  then show ?thesis
    by (intro exI [of _ "[r]"] exI [of _ "[]"] exI [of _ "rs @ [r]"] exI [of _ False]) (simp add: rest_shows_def)
qed

lemma rest_shows_glued:
  assumes "decodes decode {q}" "0 < k"
  shows "rest_shows decode rs (record_line q @ take k (record_line r @ [LF])) rs True"
proof -
  define l where "l = record_line q @ take k (record_line r)"
  have p: "\<forall>x \<in> set l. printable x" using record_line_printable by (auto simp: l_def dest: in_set_takeD)
  obtain x where "record_line r = CHR ''{'' # x" using record_line_brace by blast
  then have "l = record_line q @ CHR ''{'' # take (k - 1) x" using assms(2) by (cases k) (simp_all add: l_def)
  then have bad: "decode l = None" "l \<noteq> []" using assms(1) by (simp_all add: decodes_def)
  have "record_line q @ take k (record_line r @ [LF]) = l
      \<or> record_line q @ take k (record_line r @ [LF]) = l @ [LF]"
    unfolding l_def by (cases "k \<le> length (record_line r)") simp_all
  then have "split_lines [] (record_line q @ take k (record_line r @ [LF])) = [l]"
    using split_printable [OF p bad(2)] split_printable_LF [OF p] by auto
  then show ?thesis using bad(1) by (simp add: rest_shows_def)
qed

text \<open>The guards pass on an undamaged journal whose tail the record names, and only there.\<close>

lemma append_guards_shape:
  assumes shape: "dir_shape decode sha256 d vs torn m" and op: "open_journal d fresh = (d1, ino, raw)"
  shows "\<exists>d2 b rs t. append_guards decode sha256 d1 ino raw r
      = (d2, if torn \<or> chain_tail vs \<noteq> jr_prev r then Inl Journal_Concurrent_Write else Inr b)
    \<and> rd_journal d2 = Some (ino, raw) \<and> rd_binding d2 = Some (Some b) \<and> ino = nb_inode b
    \<and> raw = render rs @ t \<and> rest_shows decode rs t vs torn \<and> binding_covers b rs m"
proof -
  have ch: "chain sha256 genesis_prev vs" and dec: "decodes decode (set vs)"
    using shape by (simp_all add: dir_shape_def)
  obtain d2 b rs t where bind: "load_or_bind d1 ino raw = Inr (d2, b)"
      and d2: "rd_journal d2 = Some (ino, raw)" "rd_binding d2 = Some (Some b)" "ino = nb_inode b"
      and t: "raw = render rs @ t" "rest_shows decode rs t vs torn" "binding_covers b rs m"
  proof (cases "d = empty_dir")
    case True
    then have vs: "vs = []" "\<not> torn" "m = 0" using shape by (auto simp: dir_shape_def empty_dir_def)
    define b where "b = \<lparr>nb_inode = fresh, nb_extent = 0, nb_tail = genesis_prev\<rparr>"
    show ?thesis
      by (rule that [of "\<lparr>rd_journal = Some (fresh, []), rd_binding = Some (Some b)\<rparr>" b "[]" "[]"])
         (use True vs op in \<open>auto simp: empty_dir_def open_journal_def load_or_bind_def load_name_binding_def
           bind_name_identity_def b_def Let_def
           rest_shows_def binding_covers_def\<close>)
  next
    case False
    then obtain rs t b where d: "rd_journal d = Some (nb_inode b, render rs @ t)" "rd_binding d = Some (Some b)"
        and rest: "rest_shows decode rs t vs torn" "binding_covers b rs m"
      using shape unfolding dir_shape_def by blast
    have "d1 = d" "ino = nb_inode b" "raw = render rs @ t" using op by (simp_all add: open_journal_def d(1))
    then show ?thesis
      using d rest by (intro that [of d b rs t]) (simp_all add: load_or_bind_def load_name_binding_def verify_name_binding_def)
  qed
  have "append_guards decode sha256 d1 ino raw r
      = (d2, if torn \<or> chain_tail vs \<noteq> jr_prev r then Inl Journal_Concurrent_Write else Inr b)"
    unfolding t(1) append_guards_def bind [unfolded t(1)]
    using shows_tail [OF t(2) ch dec] shows_replay [OF t(2) ch dec] covers_extent [OF t(3,2) ch dec] by simp
  with d2 t show ?thesis by blast
qed

lemma decodes_subset: "decodes decode rs \<Longrightarrow> ss \<subseteq> rs \<Longrightarrow> decodes decode ss"
  unfolding decodes_def by blast

lemma dir_shapeI:
  assumes "chain sha256 genesis_prev vs" "decodes decode (set vs)" "rd_journal d = Some (nb_inode b, render rs @ t)"
    "rd_binding d = Some (Some b)" "rest_shows decode rs t vs torn" "binding_covers b rs m"
  shows "dir_shape decode sha256 d vs torn m"
  using assms unfolding dir_shape_def by blast

lemma rest_shows_intact:
  assumes "rest_shows decode rs t vs False"
  shows "t = [] \<and> vs = rs \<or> (\<exists>q. t = record_line q \<and> vs = rs @ [q])"
  using assms by (simp add: rest_shows_def)

lemma covers_mono: "binding_covers b rs m \<Longrightarrow> binding_covers b (rs @ ss) m"
  by (simp add: binding_covers_def)

text \<open>The call once its guards have passed.\<close>

lemma append_record_guarded:
  assumes r: "r = seal_record sha256 r0" and op: "open_journal d fresh = (d1, ino, raw)"
    and g: "append_guards decode sha256 d1 ino raw r = (d2, Inr b)"
    and new: "new = raw @ record_line r @ [LF]" and d3: "d3 = d2\<lparr>rd_journal := Some (ino, new)\<rparr>"
  shows "append_record decode sha256 fresh d r0 =
     (let (h, bad) = locked_tail_view decode sha256 new
      in if bad \<or> h \<noteq> jr_sha r then (d3, Inl Journal_Lost_Record)
         else case advance_extent d3 ino (length new) (jr_sha r) of Inl e \<Rightarrow> (d3, Inl e) | Inr d4 \<Rightarrow> (d4, Inr (jr_sha r)))"
  unfolding append_record_def r [symmetric] Let_def op prod.case g new d3 length_append by simp

lemma append_complete:
  assumes shows_vs: "raw = render vs" "chain sha256 genesis_prev vs" "decodes decode (insert r (set vs))"
    and b: "rd_binding d2 = Some (Some b)" "ino = nb_inode b" "binding_covers b vs m"
    and r: "r = seal_record sha256 r0" "chain_tail vs = jr_prev r" and op: "open_journal d fresh = (d1, ino, raw)"
    and g: "append_guards decode sha256 d1 ino raw r = (d2, Inr b)"
  shows "\<exists>d'. append_record decode sha256 fresh d r0 = (d', Inr (jr_sha r))
    \<and> dir_shape decode sha256 d' (vs @ [r]) False (length (vs @ [r]))"
proof -
  define new where "new = raw @ record_line r @ [LF]"
  define d3 where "d3 = d2\<lparr>rd_journal := Some (ino, new)\<rparr>"
  let ?b = "b\<lparr>nb_extent := length new, nb_tail := jr_sha r\<rparr>"
  let ?d = "d3\<lparr>rd_binding := Some (Some ?b)\<rparr>"
  have good: "chain sha256 genesis_prev (vs @ [r])" using shows_vs(2) r by (simp add: verify_chain_def)
  have decs: "decodes decode (set (vs @ [r]))" using shows_vs(3) by simp
  have new: "new = render (vs @ [r]) @ []" by (simp add: new_def shows_vs(1))
  have rest: "rest_shows decode (vs @ [r]) [] (vs @ [r]) False" by (simp add: rest_shows_def)
  have "render vs = render (take m vs) @ render (drop m vs)" by (metis append_take_drop_id render_simps(3))
  then have "length (render (take m vs)) \<le> length (render vs)" by simp
  then have "nb_extent b < length new" using b(3) by (simp add: new binding_covers_def)
  then have "advance_extent d3 ino (length new) (jr_sha r) = Inr ?d"
    using b(1,2) by (simp add: advance_extent_def verify_name_binding_def d3_def)
  moreover have "locked_tail_view decode sha256 new = (jr_sha r, False)"
    using shows_tail [OF rest good decs] unfolding new by simp
  ultimately have "append_record decode sha256 fresh d r0 = (?d, Inr (jr_sha r))"
    unfolding append_record_guarded [OF r(1) op g new_def d3_def] by simp
  moreover have "dir_shape decode sha256 ?d (vs @ [r]) False (length (vs @ [r]))"
    by (rule dir_shapeI [OF good decs, of _ ?b "vs @ [r]" "[]"])
       (use b(2) rest new in \<open>simp_all add: binding_covers_def d3_def\<close>)
  ultimately show ?thesis by blast
qed

lemma append_bare_line:
  assumes shows_vs: "raw = render rs @ record_line q" "chain sha256 genesis_prev rs" "decodes decode (insert q (set rs))"
    and b: "rd_binding d2 = Some (Some b)" "ino = nb_inode b" "binding_covers b rs m"
    and r: "r = seal_record sha256 r0" and op: "open_journal d fresh = (d1, ino, raw)"
    and g: "append_guards decode sha256 d1 ino raw r = (d2, Inr b)"
  shows "\<exists>d'. append_record decode sha256 fresh d r0 = (d', Inl Journal_Lost_Record)
    \<and> dir_shape decode sha256 d' rs True m"
proof -
  define new where "new = raw @ record_line r @ [LF]"
  define d3 where "d3 = d2\<lparr>rd_journal := Some (ino, new)\<rparr>"
  have new: "new = render rs @ (record_line q @ record_line r @ [LF])" by (simp add: new_def shows_vs(1))
  have decs: "decodes decode (set rs)" "decodes decode {q}" using shows_vs(3) by (auto elim: decodes_subset)
  have rest: "rest_shows decode rs (record_line q @ record_line r @ [LF]) rs True"
    using rest_shows_glued [OF decs(2), of "length (record_line r @ [LF])" rs r] by simp
  have "locked_tail_view decode sha256 new = (chain_tail rs, True)"
    using shows_tail [OF rest shows_vs(2) decs(1)] unfolding new by simp
  then have "append_record decode sha256 fresh d r0 = (d3, Inl Journal_Lost_Record)"
    unfolding append_record_guarded [OF r op g new_def d3_def] by simp
  moreover have "dir_shape decode sha256 d3 rs True m"
    using dir_shapeI [OF shows_vs(2) decs(1) _ _ rest b(3), of d3] b(1,2) new by (simp add: d3_def)
  ultimately show ?thesis by blast
qed

text \<open>An append that is refused changes nothing that a replay shows. One that passes its guards shows the
  new record and pins its extent; only after a line without its line feed it fails, and then that line
  is lost.\<close>

lemma append_record_shape:
  assumes shape: "dir_shape decode sha256 d vs torn m" and r: "r = seal_record sha256 r0"
    and dec: "decodes decode (insert r (set vs))" and app: "append_record decode sha256 fresh d r0 = (d', res)"
  shows "res = Inl Journal_Concurrent_Write \<and> (torn \<or> chain_tail vs \<noteq> jr_prev r0) \<and> dir_shape decode sha256 d' vs torn m
    \<or> res = Inr (jr_sha r) \<and> \<not> torn \<and> chain_tail vs = jr_prev r0
        \<and> dir_shape decode sha256 d' (vs @ [r]) False (length (vs @ [r]))
    \<or> res = Inl Journal_Lost_Record \<and> \<not> torn \<and> chain_tail vs = jr_prev r0 \<and> vs \<noteq> []
        \<and> dir_shape decode sha256 d' (butlast vs) True m"
proof -
  obtain d1 ino raw where op: "open_journal d fresh = (d1, ino, raw)" by (cases "open_journal d fresh") auto
  have ch: "chain sha256 genesis_prev vs" using shape by (simp add: dir_shape_def)
  have decs: "decodes decode (set vs)" "decodes decode {r}" using dec by (auto elim: decodes_subset)
  obtain d2 b rs t where g: "append_guards decode sha256 d1 ino raw r
        = (d2, if torn \<or> chain_tail vs \<noteq> jr_prev r then Inl Journal_Concurrent_Write else Inr b)"
      and d2: "rd_journal d2 = Some (ino, raw)" "rd_binding d2 = Some (Some b)" "ino = nb_inode b"
      and t: "raw = render rs @ t" "rest_shows decode rs t vs torn" "binding_covers b rs m"
    using append_guards_shape [OF shape op, of r] by blast
  have prev: "jr_prev r = jr_prev r0" by (simp add: r)
  show ?thesis
  proof (cases "torn \<or> chain_tail vs \<noteq> jr_prev r")
    case True
    then have "d' = d2" "res = Inl Journal_Concurrent_Write"
      using app g op by (simp_all add: append_record_def r [symmetric])
    moreover have "dir_shape decode sha256 d2 vs torn m"
      using dir_shapeI [OF ch decs(1) _ d2(2) t(2,3)] d2 t(1) by simp
    ultimately show ?thesis using True prev by simp
  next
    case False
    then have g: "append_guards decode sha256 d1 ino raw r = (d2, Inr b)" using g by simp
    consider "t = []" "vs = rs" | q where "t = record_line q" "vs = rs @ [q]"
      using rest_shows_intact t(2) False by (metis (full_types))
    then show ?thesis
    proof cases
      case 1
      have "\<exists>d'. append_record decode sha256 fresh d r0 = (d', Inr (jr_sha r))
          \<and> dir_shape decode sha256 d' (vs @ [r]) False (length (vs @ [r]))"
        by (rule append_complete [OF _ ch dec d2(2,3) _ r _ op g]) (use 1 t False in simp_all)
      then show ?thesis using app False prev by auto
    next
      case (2 q)
      have "chain sha256 genesis_prev rs" "decodes decode (insert q (set rs))" using ch decs(1) 2(2) by auto
      then have "\<exists>d'. append_record decode sha256 fresh d r0 = (d', Inl Journal_Lost_Record)
          \<and> dir_shape decode sha256 d' rs True m"
        by (intro append_bare_line [OF _ _ _ d2(2,3) t(3) r op g]) (use 2 t(1) in simp_all)
      then show ?thesis using app False prev 2(2) by auto
    qed
  qed
qed

lemma append_torn_shape:
  assumes shape: "dir_shape decode sha256 d vs torn m" and r: "r = seal_record sha256 r0"
    and dec: "decodes decode (insert r (set vs))" and app: "append_torn decode sha256 fresh k d r0 = d'"
  shows "\<exists>ws torn'. dir_shape decode sha256 d' ws torn' m
    \<and> (ws = vs \<or> ws = butlast vs \<or> ws = vs @ [r] \<and> chain_tail vs = jr_prev r0)"
proof -
  obtain d1 ino raw where op: "open_journal d fresh = (d1, ino, raw)" by (cases "open_journal d fresh") auto
  have ch: "chain sha256 genesis_prev vs" using shape by (simp add: dir_shape_def)
  have decs: "decodes decode (set vs)" "decodes decode {r}" using dec by (auto elim: decodes_subset)
  obtain d2 b rs t where g: "append_guards decode sha256 d1 ino raw r
        = (d2, if torn \<or> chain_tail vs \<noteq> jr_prev r then Inl Journal_Concurrent_Write else Inr b)"
      and d2: "rd_journal d2 = Some (ino, raw)" "rd_binding d2 = Some (Some b)" "ino = nb_inode b"
      and t: "raw = render rs @ t" "rest_shows decode rs t vs torn" "binding_covers b rs m"
    using append_guards_shape [OF shape op, of r] by blast
  have keep: "dir_shape decode sha256 d2 vs torn m"
    using dir_shapeI [OF ch decs(1) _ d2(2) t(2,3)] d2 t(1) by simp
  show ?thesis
  proof (cases "torn \<or> chain_tail vs \<noteq> jr_prev r")
    case True
    then have "d' = d2" using app g op by (auto simp: append_torn_def r [symmetric] split: if_splits)
    then show ?thesis using keep by blast
  next
    case False
    define new where "new = raw @ take k (record_line r @ [LF])"
    have d': "rd_journal d' = Some (nb_inode b, new)" "rd_binding d' = Some (Some b)"
      using app g op False d2 by (auto simp: append_torn_def r [symmetric] new_def)
    have prev: "jr_prev r = jr_prev r0" by (simp add: r)
    have good: "chain sha256 genesis_prev (vs @ [r])" using ch False by (simp add: verify_chain_def r)
    consider "t = []" "vs = rs" | q where "t = record_line q" "vs = rs @ [q]"
      using rest_shows_intact t(2) False by (metis (full_types))
    then show ?thesis
    proof cases
      case 1
      obtain ss u ws torn' where u: "render rs @ take k (record_line r @ [LF]) = render (rs @ ss) @ u"
          "rest_shows decode (rs @ ss) u ws torn'" "ws \<in> {rs, rs @ [r]}"
        using rest_shows_torn [OF decs(2)] by blast
      have "chain sha256 genesis_prev ws" "decodes decode (set ws)"
        using u(3) good ch 1 dec decs(1) by auto
      moreover have "new = render (rs @ ss) @ u" using u(1) t(1) 1 by (simp add: new_def)
      ultimately have "dir_shape decode sha256 d' ws torn' m"
        using dir_shapeI [OF _ _ _ d'(2) u(2) covers_mono [OF t(3)]] d'(1) by simp
      then show ?thesis using u(3) 1 False prev by auto
    next
      case (2 q)
      show ?thesis
      proof (cases k)
        case 0
        then have "dir_shape decode sha256 d' vs torn m"
          using dir_shapeI [OF ch decs(1) _ d'(2) t(2,3)] d'(1) t(1) by (simp add: new_def)
        then show ?thesis by blast
      next
        case (Suc j)
        have "decodes decode {q}" using decs(1) 2(2) by (auto elim: decodes_subset)
        then have rest: "rest_shows decode rs (record_line q @ take k (record_line r @ [LF])) rs True"
          using rest_shows_glued [of decode q k rs r] Suc by simp
        have rs: "chain sha256 genesis_prev rs" "decodes decode (set rs)"
          using ch decs(1) 2(2) by (auto elim: decodes_subset)
        have "new = render rs @ (record_line q @ take k (record_line r @ [LF]))"
          using 2(1) t(1) by (simp add: new_def)
        then have "dir_shape decode sha256 d' rs True m"
          using dir_shapeI [OF rs _ d'(2) rest t(3)] d'(1) by simp
        then show ?thesis using 2(2) by auto
      qed
    qed
  qed
qed

lemma shape_replay:
  assumes "dir_shape decode sha256 d vs torn m"
  shows "replay_dir decode sha256 d = Inr \<lparr>jv_records = vs, jv_tail = chain_tail vs, jv_damaged = torn\<rparr>"
proof (cases "d = empty_dir")
  case True
  then show ?thesis using assms
    by (auto simp: dir_shape_def replay_dir_def load_name_binding_def empty_dir_def)
next
  case False
  have ch: "chain sha256 genesis_prev vs" and dec: "decodes decode (set vs)"
    using assms by (simp_all add: dir_shape_def)
  obtain rs t b where d: "rd_journal d = Some (nb_inode b, render rs @ t)" "rd_binding d = Some (Some b)"
      and t: "rest_shows decode rs t vs torn" "binding_covers b rs m"
    using assms False unfolding dir_shape_def by blast
  show ?thesis
    unfolding replay_dir_def read_bound_journal_def load_name_binding_def d verify_name_binding_def
    using shows_replay [OF t(1) ch dec] covers_extent [OF t(2,1) ch dec] by simp
qed

subsection \<open>Lawful histories\<close>

definition states_of :: "journal_record list \<Rightarrow> run_state list" where
  "states_of rs = List.map_filter jr_to rs"

fun legal_path :: "run_state list \<Rightarrow> bool" where
  "legal_path [] = True"
| "legal_path [s] = True"
| "legal_path (s # t # ss) = (is_legal s t \<and> legal_path (t # ss))"

definition legal_run :: "run_state list \<Rightarrow> bool" where
  "legal_run ss \<longleftrightarrow> legal_path ss \<and> (ss = [] \<or> hd ss = PLANNED)"

lemma legal_path_snoc: "legal_path (ss @ [t]) \<longleftrightarrow> legal_path ss \<and> (ss = [] \<or> is_legal (last ss) t)"
  by (induction ss rule: legal_path.induct) auto

lemma legal_run_snoc:
  "legal_run (ss @ [t]) \<longleftrightarrow> legal_run ss \<and> (if ss = [] then t = PLANNED else is_legal (last ss) t)"
  unfolding legal_run_def legal_path_snoc by (cases ss) auto

definition pins :: "journal_record list \<Rightarrow> string option set" where
  "pins rs = jr_manifest ` {r \<in> set rs. jr_kind r = pin_kind}"

definition lawful :: "run_identity \<Rightarrow> journal_record list \<Rightarrow> bool" where
  "lawful i rs \<longleftrightarrow> legal_run (states_of rs) \<and> map jr_seq rs = map int [1..<length rs + 1]
     \<and> (\<exists>m. pins rs \<subseteq> {Some m}) \<and> (ri_capture_manifest i \<noteq> None \<longrightarrow> pins rs \<subseteq> {ri_capture_manifest i})"

lemma states_of_simps [simp]:
  "states_of [] = []" "states_of (rs @ [r]) = states_of rs @ (case jr_to r of None \<Rightarrow> [] | Some s \<Rightarrow> [s])"
  by (simp_all add: states_of_def map_filter_def split: option.splits)

lemma pins_simps [simp]:
  "pins [] = {}" "pins (rs @ [r]) = pins rs \<union> (if jr_kind r = pin_kind then {jr_manifest r} else {})"
  by (auto simp: pins_def)

lemma lawful_butlast: "lawful i rs \<Longrightarrow> lawful i (butlast rs)"
proof (cases rs rule: rev_cases)
  case (snoc qs r)
  then show "lawful i rs \<Longrightarrow> lawful i (butlast rs)"
    by (auto simp: lawful_def legal_run_snoc split: option.splits if_splits)
qed simp

lemma lawful_snoc:
  assumes "lawful i rs" "jr_seq r = int (length rs) + 1"
    and "case jr_to r of None \<Rightarrow> True
         | Some t \<Rightarrow> if states_of rs = [] then t = PLANNED else is_legal (last (states_of rs)) t"
    and "jr_kind r = pin_kind \<Longrightarrow> \<exists>m. jr_manifest r = Some m \<and> pins rs \<subseteq> {Some m}
         \<and> (ri_capture_manifest i \<noteq> None \<longrightarrow> ri_capture_manifest i = Some m)"
  shows "lawful i (rs @ [r])"
proof -
  have "legal_run (states_of (rs @ [r]))"
    using assms(1,3) by (auto simp: lawful_def legal_run_snoc split: option.splits)
  moreover have "map jr_seq (rs @ [r]) = map int [1..<length (rs @ [r]) + 1]"
    using assms(1,2) by (simp add: lawful_def)
  moreover have "(\<exists>m. pins (rs @ [r]) \<subseteq> {Some m})
      \<and> (ri_capture_manifest i \<noteq> None \<longrightarrow> pins (rs @ [r]) \<subseteq> {ri_capture_manifest i})"
    using assms(1,4) by (cases "jr_kind r = pin_kind") (auto simp: lawful_def)
  ultimately show ?thesis unfolding lawful_def by blast
qed

text \<open>The sealed lane is entered once: after \<open>SEALED_RUNNING\<close> a run can only complete.\<close>

lemma legal_run_sealed:
  assumes "legal_run ss"
  shows "count_list ss SEALED_RUNNING \<le> 1 \<and> UNKNOWN \<notin> set ss
    \<and> (SEALED_RUNNING \<in> set ss \<longrightarrow> last ss \<in> {SEALED_RUNNING, SEALED_COMPLETE})
    \<and> (SEALED_COMPLETE \<in> set ss \<longrightarrow> last ss = SEALED_COMPLETE \<and> SEALED_RUNNING \<in> set ss)"
  using assms
proof (induction ss rule: rev_induct)
  case (snoc t ss)
  have legal: "is_legal s t \<Longrightarrow> t \<noteq> UNKNOWN \<and> s \<noteq> SEALED_COMPLETE \<and> (s = SEALED_RUNNING \<longrightarrow> t = SEALED_COMPLETE)
      \<and> (t = SEALED_COMPLETE \<longrightarrow> s = SEALED_RUNNING)" for s
    by (cases s; cases t) (simp_all add: is_legal_iff legal_edges_def)
  show ?case
  proof (cases "ss = []")
    case True
    then show ?thesis using snoc.prems by (auto simp: legal_run_def)
  next
    case False
    then have "last ss \<in> set ss" "is_legal (last ss) t" "legal_run ss"
      using snoc.prems by (simp_all add: legal_run_snoc)
    note ih = snoc.IH [OF this(3)] and edge = legal [OF this(2)]
    have done_before: "SEALED_COMPLETE \<notin> set ss" using ih edge by blast
    show ?thesis
    proof (cases "SEALED_RUNNING \<in> set ss")
      case True
      then have "t = SEALED_COMPLETE" using ih edge by blast
      then show ?thesis using ih done_before True by simp
    next
      case absent: False
      then have "t \<noteq> SEALED_COMPLETE" using edge \<open>last ss \<in> set ss\<close> by auto
      then show ?thesis using ih edge done_before absent by (auto simp: count_notin)
    qed
  qed
qed simp

lemma last_some_last: "last_some f xs = (let ys = List.map_filter f xs in if ys = [] then None else Some (last ys))"
proof -
  have "foldl (\<lambda>acc x. case f x of None \<Rightarrow> acc | Some y \<Rightarrow> Some y) acc xs
      = (let ys = List.map_filter f xs in if ys = [] then acc else Some (last ys))" for acc
    by (induction xs arbitrary: acc) (simp_all add: map_filter_simps Let_def split: option.splits)
  then show ?thesis by (simp add: last_some_def)
qed

lemma view_state_last:
  "view_state v = (if states_of (jv_records v) = [] then None else Some (last (states_of (jv_records v))))"
  by (simp add: view_state_def last_some_last states_of_def Let_def)

lemma last_pin_cases:
  "(last_pin v = None \<and> pins (jv_records v) = {}) \<or> (\<exists>p. last_pin v = Some p \<and> jr_manifest p \<in> pins (jv_records v))"
proof -
  let ?f = "\<lambda>r. if jr_kind r = pin_kind then Some r else None"
  have mf: "List.map_filter ?f rs = filter (\<lambda>r. jr_kind r = pin_kind) rs" for rs
    by (induction rs) (simp_all add: map_filter_simps)
  show ?thesis
  proof (cases "filter (\<lambda>r. jr_kind r = pin_kind) (jv_records v) = []")
    case True
    then show ?thesis by (simp add: last_pin_def last_some_last mf pins_def filter_empty_conv)
  next
    case False
    then have "last (filter (\<lambda>r. jr_kind r = pin_kind) (jv_records v))
        \<in> set (filter (\<lambda>r. jr_kind r = pin_kind) (jv_records v))" by (rule last_in_set)
    then show ?thesis using False by (auto simp: last_pin_def last_some_last mf pins_def)
  qed
qed

text \<open>\<open>builds i vs r\<close>: some call can build the record \<open>r\<close> from a replay that shows \<open>vs\<close>.\<close>

definition builds :: "run_identity \<Rightarrow> journal_record list \<Rightarrow> journal_record \<Rightarrow> bool" where
  "builds i vs r \<longleftrightarrow> vs = [] \<and> (\<exists>now. r = genesis_record i now)
     \<or> (\<exists>v. jv_records v = vs \<and> jv_tail v = chain_tail vs
          \<and> ((\<exists>target reason a lease. transition_record v target reason a lease = Inr r)
             \<or> (\<exists>manifest a. pin_record i v manifest a = Inr (Inr r))))"

lemma next_seq_lawful: "lawful i (jv_records v) \<Longrightarrow> next_seq v = int (length (jv_records v)) + 1"
proof (cases "jv_records v" rule: rev_cases)
  case (snoc rs r)
  assume "lawful i (jv_records v)"
  then have "map jr_seq (rs @ [r]) = map int [1..<length (rs @ [r]) + 1]" using snoc unfolding lawful_def by metis
  then show ?thesis using snoc by (simp add: next_seq_def)
qed (simp add: next_seq_def)

lemma transition_record_Inr:
  assumes "transition_record v target reason a lease = Inr r"
  shows "\<exists>s. view_state v = Some s \<and> is_legal s target \<and> jr_to r = Some target \<and> jr_kind r = ''TRANSITION''
    \<and> jr_seq r = next_seq v \<and> jr_prev r = jv_tail v"
  using assms by (auto simp: transition_record_def split: option.splits if_splits)

lemma pin_record_Inr:
  assumes "pin_record i v manifest a = Inr (Inr r)"
  shows "jr_to r = None \<and> jr_kind r = pin_kind \<and> jr_manifest r = Some manifest \<and> jr_seq r = next_seq v
    \<and> jr_prev r = jv_tail v \<and> last_pin v = None \<or> jr_to r = None \<and> jr_kind r = pin_kind \<and> jr_manifest r = Some manifest
    \<and> jr_seq r = next_seq v \<and> jr_prev r = jv_tail v \<and> pinned_manifest i v = None"
  using assms by (auto simp: pin_record_def Let_def split: option.splits if_splits)

lemma pin_record_fresh:
  assumes pin: "pin_record i v manifest a = Inr (Inr r)" and law: "lawful i (jv_records v)"
  shows "pins (jv_records v) = {} \<and> (ri_capture_manifest i \<noteq> None \<longrightarrow> ri_capture_manifest i = Some manifest)"
proof -
  obtain m where m: "pins (jv_records v) \<subseteq> {Some m}" using law by (auto simp: lawful_def)
  have none: "pinned_manifest i v = None \<or> pinned_manifest i v = Some manifest \<and> last_pin v = None"
    using pin by (auto simp: pin_record_def Let_def split: option.splits if_splits)
  then have "last_pin v = None"
    using last_pin_cases [of v] m by (auto simp: pinned_manifest_def split: option.splits)
  then show ?thesis using last_pin_cases [of v] none by (auto simp: pinned_manifest_def)
qed

lemma builds_lawful:
  assumes build: "builds i vs r" and law: "lawful i vs"
  shows "jr_prev r = chain_tail vs \<and> lawful i (vs @ [seal_record sha256 r])"
  using build unfolding builds_def
proof (elim disjE conjE exE)
  fix now assume first_record: "vs = []" "r = genesis_record i now"
  then have "lawful i (vs @ [seal_record sha256 r])"
    using law by (intro lawful_snoc) (simp_all add: genesis_record_def seal_record_def pin_kind_def)
  then show ?thesis using first_record by (simp add: genesis_record_def)
next
  fix v target reason a lease
  assume v: "jv_records v = vs" "jv_tail v = chain_tail vs" and "transition_record v target reason a lease = Inr r"
  then obtain s where r: "view_state v = Some s" "is_legal s target" "jr_to r = Some target" "jr_kind r = ''TRANSITION''"
      "jr_seq r = next_seq v" "jr_prev r = jv_tail v"
    using transition_record_Inr by blast
  have "lawful i (vs @ [seal_record sha256 r])"
    using v r law next_seq_lawful [of i v]
    by (intro lawful_snoc) (auto simp: seal_record_def pin_kind_def view_state_last split: if_splits)
  then show ?thesis using r v by simp
next
  fix v manifest a
  assume v: "jv_records v = vs" "jv_tail v = chain_tail vs" and pin: "pin_record i v manifest a = Inr (Inr r)"
  have r: "jr_to r = None" "jr_kind r = pin_kind" "jr_manifest r = Some manifest" "jr_seq r = next_seq v"
      "jr_prev r = jv_tail v"
    using pin_record_Inr [OF pin] by auto
  have "lawful i (vs @ [seal_record sha256 r])"
    using v r law next_seq_lawful [of i v] pin_record_fresh [OF pin]
    by (intro lawful_snoc) (simp_all add: seal_record_def)
  then show ?thesis using r v by simp
qed

end
