(* ===== verification/LeaseLaws.thy ===== *)
theory LeaseLaws
  imports Lease
begin

text \<open>
  The lease excludes: in every interleaving of acquisitions, adoptions, releases, births, deaths,
  reuses of a pid and reboots, two live holders are the same owner (\<open>lease_exclusive\<close>). Behind it is
  the invariant \<open>lease_inv\<close>: a live holder is the one the file names, and an adoption in flight replaces
  the bytes of an owner that is dead and stays dead.
\<close>

subsection \<open>Classification and liveness\<close>

lemma start_ticks_iff: "proc_start_ticks fs pid = Some t
    \<longleftrightarrow> (\<exists>s. pf_stat fs pid = Some (Some s) \<and> stat_ticks s = Some t)"
  by (auto simp: proc_start_ticks_def split: option.splits)

lemma lease_live_alive: "lease_live fs ow \<Longrightarrow> proc_pid_alive fs (lo_pid ow)"
  by (auto simp: lease_live_def proc_pid_alive_def start_ticks_iff)

lemma classify_HELD_iff: "classify_owner fs (pf_boot fs) (Some ow) = HELD \<longleftrightarrow> lease_live fs ow"
  using lease_live_alive [of fs ow]
  by (auto simp: classify_owner_def lease_live_def split: option.splits if_splits)

lemma decide_Adopt:
  assumes "acquire_decide fs (pf_boot fs) adopt file = Inr (Adopt raw c)"
  shows "file = Some raw \<and> (\<forall>ow. raw = Some ow \<longrightarrow> \<not> lease_live fs ow)"
  using assms classify_HELD_iff [of fs]
  by (auto simp: acquire_decide_def decode_owner_def Let_def split: option.splits if_splits)

lemma decide_Create: "acquire_decide fs boot adopt file = Inr Create \<Longrightarrow> file = None"
  by (auto simp: acquire_decide_def Let_def split: option.splits if_splits)

subsection \<open>The invariant\<close>

definition plan_ok :: "lease_world \<Rightarrow> lease_plan \<Rightarrow> bool" where
  "plan_ok w plan \<longleftrightarrow>
     (case plan of Create \<Rightarrow> lw_file w = None
      | Adopt raw c \<Rightarrow> lw_file w = Some raw \<and> (\<forall>p. raw = Some p \<longrightarrow> \<not> lease_live (lw_fs w) p))"

definition lease_inv :: "lease_world \<Rightarrow> bool" where
  "lease_inv w \<longleftrightarrow>
     (\<forall>p \<in> lw_holders w. lease_live (lw_fs w) p \<longrightarrow> lw_file w = Some (Some p))
   \<and> (\<forall>p. lease_live (lw_fs w) p \<longrightarrow> owner_key p \<in> lw_seen w)
   \<and> (\<forall>p. lw_lock w = Some p \<longrightarrow> lease_live (lw_fs w) p)
   \<and> (\<forall>p \<in> lw_holders w. owner_key p \<in> lw_seen w)
   \<and> (\<forall>p. lw_file w = Some (Some p) \<longrightarrow> p \<in> lw_holders w)
   \<and> (\<forall>plan. lw_pc w = Some plan \<longrightarrow> lw_lock w \<noteq> None \<and> plan_ok w plan)"

lemma lease_invI:
  assumes "\<And>p. p \<in> lw_holders w \<Longrightarrow> lease_live (lw_fs w) p \<Longrightarrow> lw_file w = Some (Some p)"
    and "\<And>p. lease_live (lw_fs w) p \<Longrightarrow> owner_key p \<in> lw_seen w"
    and "\<And>p. lw_lock w = Some p \<Longrightarrow> lease_live (lw_fs w) p"
    and "\<And>p. p \<in> lw_holders w \<Longrightarrow> owner_key p \<in> lw_seen w"
    and "\<And>p. lw_file w = Some (Some p) \<Longrightarrow> p \<in> lw_holders w"
    and "\<And>plan. lw_pc w = Some plan \<Longrightarrow> lw_lock w \<noteq> None \<and> plan_ok w plan"
  shows "lease_inv w"
  unfolding lease_inv_def using assms by blast

lemma lease_invD:
  assumes "lease_inv w"
  shows holder_file: "p \<in> lw_holders w \<Longrightarrow> lease_live (lw_fs w) p \<Longrightarrow> lw_file w = Some (Some p)"
    and live_seen: "lease_live (lw_fs w) p \<Longrightarrow> owner_key p \<in> lw_seen w"
    and lock_live: "lw_lock w = Some p \<Longrightarrow> lease_live (lw_fs w) p"
    and holder_seen: "p \<in> lw_holders w \<Longrightarrow> owner_key p \<in> lw_seen w"
    and file_holder: "lw_file w = Some (Some p) \<Longrightarrow> p \<in> lw_holders w"
    and plan_locked: "lw_pc w = Some plan \<Longrightarrow> lw_lock w \<noteq> None"
    and plan_holds: "lw_pc w = Some plan \<Longrightarrow> plan_ok w plan"
  using assms unfolding lease_inv_def by blast+

text \<open>A birth makes nobody live again, a death and a reboot make nobody live.\<close>

lemma live_born:
  assumes "lease_live (fs\<lparr>pf_stat := (pf_stat fs)(pid \<mapsto> Some stx)\<rparr>) p" "stat_ticks stx = Some t"
  shows "lease_live fs p \<or> owner_key p = (pf_boot fs, pid, t)"
  using assms by (auto simp: lease_live_def start_ticks_iff owner_key_def split: if_splits)

lemma live_died: "lease_live (fs\<lparr>pf_stat := (pf_stat fs)(pid := None)\<rparr>) p \<longleftrightarrow> lease_live fs p \<and> lo_pid p \<noteq> pid"
  by (auto simp: lease_live_def start_ticks_iff)

lemma live_rebooted [simp]: "\<not> lease_live \<lparr>pf_boot = boot, pf_stat = (\<lambda>_. None)\<rparr> p"
  by (simp add: lease_live_def start_ticks_iff)

lemma live_born_mono:
  assumes "lease_live fs p" "\<not> proc_pid_alive fs pid"
  shows "lease_live (fs\<lparr>pf_stat := (pf_stat fs)(pid \<mapsto> Some stx)\<rparr>) p"
  using assms lease_live_alive [OF assms(1)] by (auto simp: lease_live_def start_ticks_iff)

text \<open>Each step keeps it.\<close>

lemma lease_inv_born:
  assumes inv: "lease_inv w" and pid: "\<not> proc_pid_alive (lw_fs w) pid" and t: "stat_ticks stx = Some t"
    and fresh: "(pf_boot (lw_fs w), pid, t) \<notin> lw_seen w"
  shows "lease_inv (w\<lparr>lw_fs := (lw_fs w)\<lparr>pf_stat := (pf_stat (lw_fs w))(pid \<mapsto> Some stx)\<rparr>,
          lw_seen := insert (pf_boot (lw_fs w), pid, t) (lw_seen w)\<rparr>)" (is "lease_inv ?w")
proof (rule lease_invI)
  have was: "lease_live (lw_fs w) p" if "lease_live (lw_fs ?w) p" "owner_key p \<in> lw_seen w" for p
    using live_born [of "lw_fs w" pid stx p t] that t fresh by auto
  show "lw_file ?w = Some (Some p)" if "p \<in> lw_holders ?w" "lease_live (lw_fs ?w) p" for p
    using that was [of p] holder_seen [OF inv] holder_file [OF inv] by simp
  show "owner_key p \<in> lw_seen ?w" if "lease_live (lw_fs ?w) p" for p
    using that live_born [of "lw_fs w" pid stx p t] t live_seen [OF inv] by auto
  show "lease_live (lw_fs ?w) p" if "lw_lock ?w = Some p" for p
    using that lock_live [OF inv] live_born_mono pid by simp
  show "owner_key p \<in> lw_seen ?w" if "p \<in> lw_holders ?w" for p using that holder_seen [OF inv] by simp
  show "p \<in> lw_holders ?w" if "lw_file ?w = Some (Some p)" for p using that file_holder [OF inv] by simp
  show "lw_lock ?w \<noteq> None \<and> plan_ok ?w plan" if "lw_pc ?w = Some plan" for plan
    using that plan_locked [OF inv] plan_holds [OF inv, of plan] was holder_seen [OF inv] file_holder [OF inv]
    by (auto simp: plan_ok_def split: lease_plan.splits)
qed

lemma lease_inv_fewer:
  assumes inv: "lease_inv w" and live: "\<And>p. lease_live fs p \<Longrightarrow> lease_live (lw_fs w) p"
    and lock: "\<And>p. lk = Some p \<Longrightarrow> lease_live fs p"
    and pc: "\<And>plan. pc = Some plan \<Longrightarrow> lw_pc w = Some plan \<and> lk \<noteq> None"
  shows "lease_inv (w\<lparr>lw_fs := fs, lw_lock := lk, lw_pc := pc\<rparr>)"
proof (rule lease_invI)
  let ?w = "w\<lparr>lw_fs := fs, lw_lock := lk, lw_pc := pc\<rparr>"
  show "lw_file ?w = Some (Some p)" if "p \<in> lw_holders ?w" "lease_live (lw_fs ?w) p" for p
    using that live holder_file [OF inv] by simp
  show "owner_key p \<in> lw_seen ?w" if "lease_live (lw_fs ?w) p" for p
    using that live live_seen [OF inv] by simp
  show "lease_live (lw_fs ?w) p" if "lw_lock ?w = Some p" for p using that lock by simp
  show "owner_key p \<in> lw_seen ?w" if "p \<in> lw_holders ?w" for p using that holder_seen [OF inv] by simp
  show "p \<in> lw_holders ?w" if "lw_file ?w = Some (Some p)" for p using that file_holder [OF inv] by simp
  show "lw_lock ?w \<noteq> None \<and> plan_ok ?w plan" if "lw_pc ?w = Some plan" for plan
    using that pc [of plan] plan_holds [OF inv, of plan] live
    by (auto simp: plan_ok_def split: lease_plan.splits)
qed

lemma lease_inv_published:
  assumes inv: "lease_inv w" and lock: "lw_lock w = Some p" and pc: "lw_pc w = Some plan"
    and wr: "acquire_write plan p (lw_file w) = Inr (file', c)"
  shows "lease_inv (w\<lparr>lw_file := file', lw_pc := None, lw_holders := insert p (lw_holders w)\<rparr>)" (is "lease_inv ?w")
proof (rule lease_invI)
  have eq: "file' = Some (Some p)" using wr by (cases plan) (auto split: if_splits)
  have none: "\<not> lease_live (lw_fs w) q" if "q \<in> lw_holders w" for q
  proof
    assume live: "lease_live (lw_fs w) q"
    then have "lw_file w = Some (Some q)" using holder_file [OF inv that] by simp
    then show False using plan_holds [OF inv pc] live by (auto simp: plan_ok_def split: lease_plan.splits)
  qed
  show "lw_file ?w = Some (Some q)" if "q \<in> lw_holders ?w" "lease_live (lw_fs ?w) q" for q
    using that none eq by auto
  show "owner_key q \<in> lw_seen ?w" if "lease_live (lw_fs ?w) q" for q using that live_seen [OF inv] by simp
  show "lease_live (lw_fs ?w) q" if "lw_lock ?w = Some q" for q using that lock_live [OF inv] by simp
  show "owner_key q \<in> lw_seen ?w" if "q \<in> lw_holders ?w" for q
    using that holder_seen [OF inv] live_seen [OF inv] lock_live [OF inv lock] by auto
  show "q \<in> lw_holders ?w" if "lw_file ?w = Some (Some q)" for q
    using that eq by auto
qed simp

lemma lease_inv_released:
  assumes inv: "lease_inv w" and lock: "lw_lock w = Some p" and pc: "lw_pc w = None"
    and rel: "lease_release p (lw_file w) = (file', r)"
  shows "lease_inv (w\<lparr>lw_file := file', lw_holders := (if r then lw_holders w - {p} else lw_holders w)\<rparr>)"
proof (cases r)
  case True
  then have "lw_file w = Some (Some p)" "file' = None"
    using rel by (auto simp: lease_release_def decode_owner_def split: option.splits if_splits)
  moreover have "\<not> lease_live (lw_fs w) q" if "q \<in> lw_holders w" "q \<noteq> p" for q
    using holder_file [OF inv that(1)] that(2) \<open>lw_file w = Some (Some p)\<close> by auto
  ultimately show ?thesis
    using True live_seen [OF inv] lock_live [OF inv] holder_seen [OF inv] pc
    by (intro lease_invI) auto
next
  case False
  then have "file' = lw_file w"
    using rel by (auto simp: lease_release_def split: option.splits if_splits)
  then show ?thesis using False inv by simp
qed

lemma lease_inv_planned:
  assumes inv: "lease_inv w" and lock: "lw_lock w \<noteq> None" and plan: "plan_ok w plan"
  shows "lease_inv (w\<lparr>lw_pc := Some plan\<rparr>)"
proof (rule lease_invI)
  let ?w = "w\<lparr>lw_pc := Some plan\<rparr>"
  have "plan_ok ?w plan" using plan by (simp add: plan_ok_def split: lease_plan.splits)
  then show "lw_lock ?w \<noteq> None \<and> plan_ok ?w q" if "lw_pc ?w = Some q" for q
    using that lock by simp
  show "lw_file ?w = Some (Some p)" if "p \<in> lw_holders ?w" "lease_live (lw_fs ?w) p" for p
    using that holder_file [OF inv] by simp
  show "p \<in> lw_holders ?w" if "lw_file ?w = Some (Some p)" for p using that file_holder [OF inv] by simp
qed (use live_seen [OF inv] lock_live [OF inv] holder_seen [OF inv] in simp_all)

lemma lease_inv_step: "lease_step w w' \<Longrightarrow> lease_inv w \<Longrightarrow> lease_inv w'"
proof (induction rule: lease_step.induct)
  case (born w pid stx t)
  then show ?case by (intro lease_inv_born)
next
  case (died fs' w pid keeps)
  then have "lease_live fs' p \<longleftrightarrow> lease_live (lw_fs w) p \<and> lo_pid p \<noteq> pid" for p by (simp add: live_died)
  moreover have "keeps \<Longrightarrow> lw_lock w = Some p \<Longrightarrow> lo_pid p \<noteq> pid" for p using died by simp
  ultimately show ?case
    using lock_live [OF died.prems] plan_locked [OF died.prems]
    by (intro lease_inv_fewer [OF died.prems]) (auto split: if_splits)
next
  case (rebooted boot w)
  then show ?case by (intro lease_inv_fewer) simp_all
next
  case (locked w p)
  then show ?case using lease_inv_fewer [OF locked.prems, of "lw_fs w" "Some p" None] by simp
next
  case (decided w p adopt plan)
  have "plan_ok w plan"
    using decide_Adopt decide_Create decided(3) by (cases plan) (fastforce simp: plan_ok_def)+
  with decided show ?case by (intro lease_inv_planned) auto
next
  case (published w p plan file' c)
  then show ?case by (intro lease_inv_published)
next
  case (released w p file' r)
  then show ?case by (intro lease_inv_released)
next
  case (unlocked w p)
  then show ?case using lease_inv_fewer [OF unlocked.prems, of "lw_fs w" None None] by simp
qed

lemma lease_inv_reached: "lease_reached boot w \<Longrightarrow> lease_inv w"
proof (induction rule: lease_reached.induct)
  case start
  show ?case by (rule lease_invI) (simp_all add: lease_start_def)
next
  case (step w w')
  then show ?case by (simp add: lease_inv_step)
qed

subsection \<open>Exclusion\<close>

lemma acquire_returned_iff:
  "returned (lease_acquire fs boot True r file)
     \<longleftrightarrow> (case file of None \<Rightarrow> True | Some raw \<Rightarrow> classify_owner fs boot (decode_owner (Some raw)) \<noteq> HELD)"
  by (auto simp: lease_acquire_def acquire_decide_def returned_def Let_def split: option.splits)

text \<open>Claim C5. The lease excludes. In every interleaving of locked reads and writes of the owner file
  with births, deaths, reuses of a pid and reboots, two live processes that hold the lease are the
  same, and an acquisition that may adopt is refused exactly when a live process holds it.\<close>

theorem lease_exclusive:
  assumes "lease_reached boot w"
  shows "(\<forall>p \<in> lw_holders w. \<forall>q \<in> lw_holders w.
            lease_live (lw_fs w) p \<longrightarrow> lease_live (lw_fs w) q \<longrightarrow> p = q)
    \<and> (returned (lease_acquire (lw_fs w) (pf_boot (lw_fs w)) True r (lw_file w))
         \<longleftrightarrow> (\<forall>p \<in> lw_holders w. \<not> lease_live (lw_fs w) p))"
proof (intro conjI ballI impI)
  have inv: "lease_inv w" using assms by (rule lease_inv_reached)
  fix p q
  assume "p \<in> lw_holders w" "q \<in> lw_holders w" "lease_live (lw_fs w) p" "lease_live (lw_fs w) q"
  then show "p = q" using holder_file [OF inv, of p] holder_file [OF inv, of q] by simp
next
  have inv: "lease_inv w" using assms by (rule lease_inv_reached)
  have "(\<exists>p \<in> lw_holders w. lease_live (lw_fs w) p)
      \<longleftrightarrow> (\<exists>p. lw_file w = Some (Some p) \<and> lease_live (lw_fs w) p)"
    using holder_file [OF inv] file_holder [OF inv] by blast
  moreover have "returned (lease_acquire (lw_fs w) (pf_boot (lw_fs w)) True r (lw_file w))
      \<longleftrightarrow> \<not> (\<exists>p. lw_file w = Some (Some p) \<and> lease_live (lw_fs w) p)"
    using classify_HELD_iff [of "lw_fs w"]
    by (auto simp: acquire_returned_iff decode_owner_def classify_owner_def split: option.splits)
  ultimately show "returned (lease_acquire (lw_fs w) (pf_boot (lw_fs w)) True r (lw_file w))
      \<longleftrightarrow> (\<forall>p \<in> lw_holders w. \<not> lease_live (lw_fs w) p)" by blast
qed

text \<open>A first process publishes its lease and dies; a second one gets its pid, finds the lease stale
  and adopts it.\<close>

definition sample_stat :: "string \<Rightarrow> string" where
  "sample_stat ticks = ''7 (a) b) S 1 1 1 0 0 0 0 0 0 0 0 0 0 0 20 0 1 0 '' @ ticks @ '' 9''"

definition sample_owner :: "int \<Rightarrow> lease_owner" where
  "sample_owner ticks = \<lparr>lo_pid = 7, lo_ticks = ticks, lo_boot = ''b'', lo_started = 0, lo_argv = ''a''\<rparr>"

definition sample_procs :: "string option \<Rightarrow> int \<Rightarrow> string option option" where
  "sample_procs ticks = (\<lambda>_. None)(7 := map_option (Some \<circ> sample_stat) ticks)"

definition sample_world ::
  "string option \<Rightarrow> owner_bytes option \<Rightarrow> lease_owner option \<Rightarrow> lease_plan option \<Rightarrow> lease_owner set
     \<Rightarrow> (string \<times> int \<times> int) set \<Rightarrow> lease_world" where
  "sample_world ticks owner lk pc hs seen =
     \<lparr>lw_fs = \<lparr>pf_boot = ''b'', pf_stat = sample_procs ticks\<rparr>, lw_file = owner, lw_lock = lk, lw_pc = pc,
      lw_holders = hs, lw_seen = seen\<rparr>"

abbreviation "key1 \<equiv> (''b'', 7 :: int, 100 :: int)"
abbreviation "key2 \<equiv> (''b'', 7 :: int, 200 :: int)"

lemma sample_ticks: "stat_ticks (sample_stat ''100'') = Some 100" "stat_ticks (sample_stat ''200'') = Some 200"
  by code_simp+

lemma sample_publishes: "lease_reached ''b'' (sample_world (Some ''100'') (Some (Some (sample_owner 100)))
    (Some (sample_owner 100)) None {sample_owner 100} {key1})"
proof -
  have "lease_reached ''b'' (sample_world None None None None {} {})"
    using lease_reached.start [of "''b''"]
    by (simp add: lease_start_def sample_world_def sample_procs_def fun_upd_def)
  then have "lease_reached ''b'' (sample_world (Some ''100'') None None None {} {key1})"
    by (rule lease_reached.step)
       (use lease_step.born [of "sample_world None None None None {} {}" 7 "sample_stat ''100''" 100]
        in \<open>simp add: sample_world_def sample_procs_def proc_pid_alive_def sample_ticks\<close>)
  then have "lease_reached ''b'' (sample_world (Some ''100'') None (Some (sample_owner 100)) None {} {key1})"
    by (rule lease_reached.step)
       (use lease_step.locked [of "sample_world (Some ''100'') None None None {} {key1}" "sample_owner 100"]
        in \<open>simp add: sample_world_def sample_procs_def sample_owner_def lease_live_def start_ticks_iff sample_ticks\<close>)
  then have "lease_reached ''b'' (sample_world (Some ''100'') None (Some (sample_owner 100)) (Some Create) {} {key1})"
    by (rule lease_reached.step)
       (use lease_step.decided [of "sample_world (Some ''100'') None (Some (sample_owner 100)) None {} {key1}"
          "sample_owner 100" False Create] in \<open>simp add: sample_world_def acquire_decide_def\<close>)
  then show ?thesis
    by (rule lease_reached.step)
       (use lease_step.published [of "sample_world (Some ''100'') None (Some (sample_owner 100)) (Some Create) {} {key1}"
          "sample_owner 100" Create "Some (Some (sample_owner 100))" HELD] in \<open>simp add: sample_world_def\<close>)
qed

lemma sample_adopts: "lease_reached ''b'' (sample_world (Some ''200'') (Some (Some (sample_owner 200)))
    (Some (sample_owner 200)) None {sample_owner 200, sample_owner 100} {key2, key1})"
proof -
  let ?w = "\<lambda>t f l p h. sample_world t (Some (Some (sample_owner f))) l p h"
  let ?h = "{sample_owner 100}"
  let ?plan = "Adopt (Some (sample_owner 100)) STALE_PID_REUSED"
  have "lease_reached ''b'' (?w None 100 None None ?h {key1})"
    by (rule lease_reached.step [OF sample_publishes])
       (use lease_step.died [of _ "?w (Some ''100'') 100 (Some (sample_owner 100)) None ?h {key1}" 7 False]
        in \<open>simp add: sample_world_def sample_procs_def sample_owner_def\<close>)
  then have "lease_reached ''b'' (?w (Some ''200'') 100 None None ?h {key2, key1})"
    by (rule lease_reached.step)
       (use lease_step.born [of "?w None 100 None None ?h {key1}" 7 "sample_stat ''200''" 200]
        in \<open>simp add: sample_world_def sample_procs_def proc_pid_alive_def sample_ticks\<close>)
  then have "lease_reached ''b'' (?w (Some ''200'') 100 (Some (sample_owner 200)) None ?h {key2, key1})"
    by (rule lease_reached.step)
       (use lease_step.locked [of "?w (Some ''200'') 100 None None ?h {key2, key1}" "sample_owner 200"]
        in \<open>simp add: sample_world_def sample_procs_def sample_owner_def lease_live_def start_ticks_iff sample_ticks\<close>)
  then have "lease_reached ''b'' (?w (Some ''200'') 100 (Some (sample_owner 200)) (Some ?plan) ?h {key2, key1})"
    by (rule lease_reached.step)
       (use lease_step.decided [of "?w (Some ''200'') 100 (Some (sample_owner 200)) None ?h {key2, key1}"
          "sample_owner 200" True ?plan] in \<open>simp add: sample_world_def sample_procs_def acquire_decide_def decode_owner_def
          classify_owner_def proc_pid_alive_def proc_start_ticks_def sample_owner_def sample_ticks\<close>)
  then show ?thesis
    by (rule lease_reached.step)
       (use lease_step.published [of "?w (Some ''200'') 100 (Some (sample_owner 200)) (Some ?plan) ?h {key2, key1}"
          "sample_owner 200" ?plan "Some (Some (sample_owner 200))" STALE_PID_REUSED] in \<open>simp add: sample_world_def\<close>)
qed

theorem lease_exclusive_witness:
  "\<not> returned (lease_acquire \<lparr>pf_boot = ''b'', pf_stat = sample_procs (Some ''200'')\<rparr> ''b'' True (sample_owner 300)
      (Some (Some (sample_owner 200))))"
proof -
  have "lease_live \<lparr>pf_boot = ''b'', pf_stat = sample_procs (Some ''200'')\<rparr> (sample_owner 200)"
    by (simp add: lease_live_def sample_owner_def sample_procs_def start_ticks_iff sample_ticks)
  then show ?thesis using lease_exclusive [OF sample_adopts, of "sample_owner 300"] by (simp add: sample_world_def)
qed

end
