(* ===== verification/RunHistory.thy ===== *)
theory RunHistory
  imports RunLaws LeaseLaws
begin

text \<open>
  The reachable run stores. The invariant \<open>run_inv\<close> says that the journal has the shape of a lawful
  history, and that every call in flight built its record from a lawful history as well; the two are
  the same history when the tails agree, unless the digest collides. The properties follow: what a
  replay shows, that acknowledged records survive, and that the pinned manifest is never swapped.
\<close>

definition sealed :: "(string \<Rightarrow> string) \<Rightarrow> run_world \<Rightarrow> journal_record set" where
  "sealed sha256 w = seal_record sha256 ` rw_made w"

definition founded :: "(string \<Rightarrow> string) \<Rightarrow> run_identity \<Rightarrow> journal_record set \<Rightarrow> journal_record \<Rightarrow> bool" where
  "founded sha256 i known r \<longleftrightarrow>
     (\<exists>us. builds i us r \<and> lawful i us \<and> chain sha256 genesis_prev us \<and> set us \<subseteq> known)"

definition run_inv ::
  "(string \<Rightarrow> journal_record option) \<Rightarrow> (string \<Rightarrow> string) \<Rightarrow> run_identity \<Rightarrow> run_world \<Rightarrow> journal_record list
     \<Rightarrow> bool \<Rightarrow> nat \<Rightarrow> bool" where
  "run_inv decode sha256 i w vs torn m \<longleftrightarrow>
     dir_shape decode sha256 (rw_dir w) vs torn m \<and> lawful i vs \<and> set vs \<subseteq> sealed sha256 w
   \<and> (\<forall>r \<in> set (rw_pending w). r \<in> rw_made w \<and> founded sha256 i (sealed sha256 w) r)"

lemma founded_mono: "founded sha256 i known r \<Longrightarrow> known \<subseteq> known' \<Longrightarrow> founded sha256 i known' r"
  unfolding founded_def by blast

lemma dir_shape_bound: "dir_shape decode sha256 d vs torn m \<Longrightarrow> m \<le> length vs"
proof -
  have "m \<le> length vs" if rest: "rest_shows decode rs t vs torn" and cov: "binding_covers b rs m" for rs t b
    using rest_shows_records [OF rest] cov by (auto simp: binding_covers_def)
  moreover assume "dir_shape decode sha256 d vs torn m"
  then have "m = 0 \<or> (\<exists>rs t b. rest_shows decode rs t vs torn \<and> binding_covers b rs m)"
    unfolding dir_shape_def by blast
  ultimately show "m \<le> length vs" by blast
qed

lemma no_clash_sealed: "no_clash sha256 (rw_made w) \<Longrightarrow> no_clash sha256 (sealed sha256 w)"
proof -
  have body: "record_body (seal_record sha256 r) = record_body r" for r by (simp add: seal_record_def)
  show "no_clash sha256 (rw_made w) \<Longrightarrow> no_clash sha256 (sealed sha256 w)"
    unfolding no_clash_def sealed_def ball_simps(9) seal_record_eq(3) body .
qed

text \<open>What one step may do to the shown records: nothing, show one more, or lose a last one that was
  never acknowledged.\<close>

definition run_moves :: "journal_record list \<Rightarrow> nat \<Rightarrow> journal_record list \<Rightarrow> nat \<Rightarrow> bool" where
  "run_moves vs m vs' m' \<longleftrightarrow> m \<le> m' \<and> take m vs' = take m vs"

lemma run_moves_refl [simp]: "run_moves vs m vs m"
  by (simp add: run_moves_def)

lemma run_moves_trans:
  assumes "run_moves vs m vs' m'" "run_moves vs' m' vs'' m''"
  shows "run_moves vs m vs'' m''"
proof -
  have m: "m \<le> m'" "m' \<le> m''" "take m vs' = take m vs" "take m' vs'' = take m' vs'"
    using assms by (simp_all add: run_moves_def)
  have "take m vs'' = take m (take m' vs'')" using m(1) by (simp add: min_absorb1)
  also have "\<dots> = take m vs'" using m(1,4) by (simp add: min_absorb1)
  finally show ?thesis using m by (simp add: run_moves_def)
qed

lemma run_moves_append: "m \<le> length vs \<Longrightarrow> m \<le> m' \<Longrightarrow> run_moves vs m (vs @ [r]) m'"
  by (simp add: run_moves_def)

lemma run_moves_butlast: "m \<le> length (butlast vs) \<Longrightarrow> run_moves vs m (butlast vs) m"
  by (cases vs rule: rev_cases) (simp_all add: run_moves_def)

text \<open>A call in flight whose guards pass built its record from the history that is there.\<close>

lemma pending_extends:
  assumes inv: "run_inv decode sha256 i w vs torn m" and r: "r \<in> set (rw_pending w)"
    and clash: "no_clash sha256 (rw_made w)" and tail: "chain_tail vs = jr_prev r"
  shows "lawful i (vs @ [seal_record sha256 r]) \<and> seal_record sha256 r \<in> sealed sha256 w"
proof -
  obtain us where us: "builds i us r" "lawful i us" "chain sha256 genesis_prev us" "set us \<subseteq> sealed sha256 w"
      and made: "r \<in> rw_made w"
    using inv r unfolding run_inv_def founded_def by blast
  have vs: "chain sha256 genesis_prev vs" "set vs \<subseteq> sealed sha256 w"
    using inv by (simp_all add: run_inv_def dir_shape_def)
  have "no_clash sha256 (set vs \<union> set us)"
    using no_clash_sealed [OF clash] us(4) vs(2) by (auto elim: no_clash_subset)
  moreover have "chain_tail vs = chain_tail us" using tail builds_lawful [OF us(1,2)] by simp
  ultimately have "vs = us" by (rule chain_unique [OF _ vs(1) us(3)])
  then show ?thesis using builds_lawful [OF us(1,2)] made by (simp add: sealed_def)
qed

lemma run_inv_read:
  assumes inv: "run_inv decode sha256 i w vs torn m" and build: "builds i vs r"
    and w': "w' = w\<lparr>rw_pending := r # rw_pending w, rw_made := insert r (rw_made w)\<rparr>"
  shows "run_inv decode sha256 i w' vs torn m"
proof -
  have more_made: "sealed sha256 w \<subseteq> sealed sha256 w'" by (auto simp: sealed_def w')
  have "founded sha256 i (sealed sha256 w) r"
    using inv build unfolding run_inv_def founded_def dir_shape_def by blast
  then have "founded sha256 i (sealed sha256 w') q" if "q \<in> set (rw_pending w')" for q
    using that inv more_made founded_mono unfolding run_inv_def w' by auto
  moreover have "set vs \<subseteq> sealed sha256 w'" using inv more_made unfolding run_inv_def by blast
  ultimately show ?thesis using inv unfolding run_inv_def by (auto simp: w')
qed

lemma run_inv_write:
  assumes inv: "run_inv decode sha256 i w vs torn m" and shape: "dir_shape decode sha256 d ws tn k"
    and ws: "lawful i ws" "set ws \<subseteq> sealed sha256 w"
  shows "run_inv decode sha256 i (w\<lparr>rw_dir := d, rw_pending := remove1 r (rw_pending w)\<rparr>) ws tn k"
proof -
  have "sealed sha256 (w\<lparr>rw_dir := d, rw_pending := remove1 r (rw_pending w)\<rparr>) = sealed sha256 w"
    by (simp add: sealed_def)
  moreover have "set (remove1 r (rw_pending w)) \<subseteq> set (rw_pending w)" by (rule set_remove1_subset)
  ultimately show ?thesis using inv shape ws unfolding run_inv_def by auto
qed

lemma run_inv_decodes:
  assumes "run_inv decode sha256 i w vs torn m" "r \<in> set (rw_pending w)" "decodes decode (sealed sha256 w)"
  shows "decodes decode (insert (seal_record sha256 r) (set vs))"
proof -
  have "insert (seal_record sha256 r) (set vs) \<subseteq> sealed sha256 w"
    using assms(1,2) by (auto simp: run_inv_def sealed_def)
  then show ?thesis using assms(3) decodes_subset by blast
qed

lemma run_inv_committed:
  assumes inv: "run_inv decode sha256 i w vs torn m" and r: "r \<in> set (rw_pending w)"
    and app: "append_record decode sha256 fresh (rw_dir w) r = (d, res)"
    and clash: "no_clash sha256 (rw_made w)" and dec: "decodes decode (sealed sha256 w)"
  shows "\<exists>vs' torn' m'. run_inv decode sha256 i (w\<lparr>rw_dir := d, rw_pending := remove1 r (rw_pending w)\<rparr>) vs' torn' m'
    \<and> run_moves vs m vs' m' \<and> (returned res \<longrightarrow> vs' = vs @ [seal_record sha256 r] \<and> m' = length vs')"
proof -
  let ?r = "seal_record sha256 r"
  have shape: "dir_shape decode sha256 (rw_dir w) vs torn m" and law: "lawful i vs" and known: "set vs \<subseteq> sealed sha256 w"
    using inv by (simp_all add: run_inv_def)
  have err: "\<not> returned (Inl e)" for e :: run_error by (simp add: returned_def)
  consider "dir_shape decode sha256 d vs torn m" "res = Inl Journal_Concurrent_Write"
    | "chain_tail vs = jr_prev r" "dir_shape decode sha256 d (vs @ [?r]) False (length (vs @ [?r]))"
    | "dir_shape decode sha256 d (butlast vs) True m" "res = Inl Journal_Lost_Record"
    using append_record_shape [OF shape refl run_inv_decodes [OF inv r dec] app] by blast
  then show ?thesis
  proof cases
    case 1
    then show ?thesis using run_inv_write [OF inv _ law known] run_moves_refl err by blast
  next
    case 2
    note new = 2(2)
    have ext: "lawful i (vs @ [?r])" "?r \<in> sealed sha256 w" using pending_extends [OF inv r clash 2(1)] by simp_all
    have "run_moves vs m (vs @ [?r]) (length (vs @ [?r]))"
      using dir_shape_bound [OF shape] by (intro run_moves_append) simp_all
    then show ?thesis using run_inv_write [OF inv new ext(1)] ext(2) known by fastforce
  next
    case lost: 3
    have "set (butlast vs) \<subseteq> sealed sha256 w" using known by (auto dest: in_set_butlastD)
    then show ?thesis
      using run_inv_write [OF inv lost(1) lawful_butlast [OF law]] run_moves_butlast [OF dir_shape_bound [OF lost(1)]]
        lost(2) err by blast
  qed
qed

lemma run_inv_crashed:
  assumes inv: "run_inv decode sha256 i w vs torn m" and r: "r \<in> set (rw_pending w)"
    and app: "append_torn decode sha256 fresh k (rw_dir w) r = d"
    and clash: "no_clash sha256 (rw_made w)" and dec: "decodes decode (sealed sha256 w)"
  shows "\<exists>vs' torn'. run_inv decode sha256 i (w\<lparr>rw_dir := d, rw_pending := remove1 r (rw_pending w)\<rparr>) vs' torn' m
    \<and> run_moves vs m vs' m"
proof -
  have shape: "dir_shape decode sha256 (rw_dir w) vs torn m" and law: "lawful i vs" and known: "set vs \<subseteq> sealed sha256 w"
    using inv by (simp_all add: run_inv_def)
  obtain ws tn where new: "dir_shape decode sha256 d ws tn m"
      "ws = vs \<or> ws = butlast vs \<or> ws = vs @ [seal_record sha256 r] \<and> chain_tail vs = jr_prev r"
    using append_torn_shape [OF shape refl run_inv_decodes [OF inv r dec] app] by blast
  have "lawful i ws \<and> set ws \<subseteq> sealed sha256 w \<and> run_moves vs m ws m"
    using new(2)
  proof (elim disjE conjE)
    assume ws: "ws = butlast vs"
    then have "run_moves vs m ws m" using run_moves_butlast dir_shape_bound [OF new(1)] by simp
    then show ?thesis using ws law known lawful_butlast by (auto dest: in_set_butlastD)
  next
    assume "ws = vs @ [seal_record sha256 r]" "chain_tail vs = jr_prev r"
    then show ?thesis
      using pending_extends [OF inv r clash] known dir_shape_bound [OF shape] by (simp add: run_moves_append)
  qed (use law known in simp)
  then show ?thesis using run_inv_write [OF inv new(1)] by blast
qed

lemma replay_shows:
  assumes "replay_dir decode sha256 (rw_dir w) = Inr v" "run_inv decode sha256 i w vs torn m"
  shows "jv_records v = vs \<and> jv_tail v = chain_tail vs"
  using assms shape_replay [of decode sha256 "rw_dir w" vs torn m] by (auto simp: run_inv_def)

lemma run_inv_step:
  assumes step: "run_step decode sha256 i w w'" and inv: "run_inv decode sha256 i w vs torn m"
    and clash: "no_clash sha256 (rw_made w')" and dec: "decodes decode (sealed sha256 w')"
  shows "\<exists>vs' torn' m'. run_inv decode sha256 i w' vs' torn' m' \<and> run_moves vs m vs' m'"
  using step
proof cases
  case (read_transition v target reason a lease r)
  then have "builds i vs r" using replay_shows [OF _ inv] unfolding builds_def by blast
  then show ?thesis using run_inv_read [OF inv _ read_transition(1)] run_moves_refl by blast
next
  case (read_pin v manifest a r)
  then have "builds i vs r" using replay_shows [OF _ inv] unfolding builds_def by blast
  then show ?thesis using run_inv_read [OF inv _ read_pin(1)] run_moves_refl by blast
next
  case (committed r fresh d res)
  then show ?thesis using run_inv_committed [OF inv committed(2,3)] clash dec by (auto simp: sealed_def)
next
  case (crashed r fresh k d)
  then show ?thesis using run_inv_crashed [OF inv crashed(2,3)] clash dec by (fastforce simp: sealed_def)
qed

lemma run_step_made: "run_step decode sha256 i w w' \<Longrightarrow> rw_made w \<subseteq> rw_made w'"
  by (induction rule: run_step.induct) auto

lemma run_assms_before:
  assumes "rw_made w \<subseteq> rw_made w'" "no_clash sha256 (rw_made w')" "decodes decode (sealed sha256 w')"
  shows "no_clash sha256 (rw_made w) \<and> decodes decode (sealed sha256 w)"
  using assms no_clash_subset decodes_subset [of decode "sealed sha256 w'" "sealed sha256 w"]
  by (auto simp: sealed_def)

lemma run_inv_reached:
  assumes "run_reached decode sha256 i now w" "no_clash sha256 (rw_made w)" "decodes decode (sealed sha256 w)"
  shows "\<exists>vs torn m. run_inv decode sha256 i w vs torn m"
  using assms
proof (induction rule: run_reached.induct)
  case start
  have "builds i [] (genesis_record i now)" by (simp add: builds_def) blast
  moreover have "lawful i []" by (simp add: lawful_def legal_run_def)
  moreover have "dir_shape decode sha256 empty_dir [] False 0" by (simp add: dir_shape_def decodes_def)
  ultimately have "run_inv decode sha256 i (run_start i now) [] False 0"
    by (auto simp: run_inv_def run_start_def founded_def intro: exI [of _ "[]"])
  then show ?case by blast
next
  case (step w w')
  have "no_clash sha256 (rw_made w) \<and> decodes decode (sealed sha256 w)"
    using run_assms_before [OF run_step_made [OF step(2)] step.prems] .
  then obtain vs torn m where "run_inv decode sha256 i w vs torn m" using step.IH by blast
  then show ?case using run_inv_step [OF step(2) _ step.prems] by blast
qed

lemma run_inv_later:
  assumes "(run_step decode sha256 i)\<^sup>*\<^sup>* w w'" "run_inv decode sha256 i w vs torn m"
    "no_clash sha256 (rw_made w')" "decodes decode (sealed sha256 w')"
  shows "\<exists>vs' torn' m'. run_inv decode sha256 i w' vs' torn' m' \<and> run_moves vs m vs' m'"
  using assms
proof (induction rule: rtranclp_induct)
  case base
  then show ?case using run_moves_refl by blast
next
  case (step y z)
  have "no_clash sha256 (rw_made y) \<and> decodes decode (sealed sha256 y)"
    using run_assms_before [OF run_step_made [OF step(2)] step.prems(2,3)] .
  then obtain vs' torn' m' where "run_inv decode sha256 i y vs' torn' m'" "run_moves vs m vs' m'"
    using step.IH step.prems(1) by blast
  then show ?case using run_inv_step [OF step(2) _ step.prems(2,3)] run_moves_trans by blast
qed

subsection \<open>What a replay shows\<close>

text \<open>Claim C4. Processes share a run store: in every interleaving of replays, appends and appends that
  die in the middle of a line, a replay returns, and what it shows is a lawful history. Its states are
  a path of the edge table from \<open>PLANNED\<close>; the sealed lane is entered at most once and nothing follows
  its completion; the sequence numbers count from one; at most one manifest is pinned, the one the
  identity carries if it does.\<close>

theorem run_history:
  assumes "run_reached decode sha256 i now w" "no_clash sha256 (rw_made w)" "decodes decode (sealed sha256 w)"
  shows "\<exists>v. replay_dir decode sha256 (rw_dir w) = Inr v
    \<and> legal_run (states_of (jv_records v))
    \<and> count_list (states_of (jv_records v)) SEALED_RUNNING \<le> 1
    \<and> (SEALED_COMPLETE \<in> set (states_of (jv_records v)) \<longrightarrow> view_state v = Some SEALED_COMPLETE)
    \<and> map jr_seq (jv_records v) = map int [1..<length (jv_records v) + 1]
    \<and> (\<exists>m. pins (jv_records v) \<subseteq> {Some m})
    \<and> (ri_capture_manifest i \<noteq> None \<longrightarrow> pins (jv_records v) \<subseteq> {ri_capture_manifest i})"
proof -
  obtain vs torn m where inv: "run_inv decode sha256 i w vs torn m" using run_inv_reached [OF assms] by blast
  let ?v = "\<lparr>jv_records = vs, jv_tail = chain_tail vs, jv_damaged = torn\<rparr>"
  have "dir_shape decode sha256 (rw_dir w) vs torn m" using inv by (simp add: run_inv_def)
  then have "replay_dir decode sha256 (rw_dir w) = Inr ?v" by (rule shape_replay)
  moreover have law: "lawful i vs" using inv by (simp add: run_inv_def)
  moreover have "legal_run (states_of vs)" using law by (simp add: lawful_def)
  moreover note legal_run_sealed [OF this]
  ultimately show ?thesis by (intro exI [of _ ?v]) (auto simp: lawful_def view_state_last)
qed

text \<open>Claim C15. An acknowledged record survives: when an append returned, the record is the last that a
  replay shows, and whatever calls and crashes follow, later replays show the same records first.\<close>

theorem acknowledged_survives:
  assumes "run_reached decode sha256 i now w" "r \<in> set (rw_pending w)"
    and "append_record decode sha256 fresh (rw_dir w) r = (d, Inr h)"
    and "(run_step decode sha256 i)\<^sup>*\<^sup>* (w\<lparr>rw_dir := d, rw_pending := remove1 r (rw_pending w)\<rparr>) w'"
    and "no_clash sha256 (rw_made w')" "decodes decode (sealed sha256 w')"
  shows "\<exists>v v'. replay_dir decode sha256 d = Inr v \<and> replay_dir decode sha256 (rw_dir w') = Inr v'
    \<and> last (jv_records v) = seal_record sha256 r \<and> (\<exists>more_records. jv_records v' = jv_records v @ more_records)"
proof -
  let ?w = "w\<lparr>rw_dir := d, rw_pending := remove1 r (rw_pending w)\<rparr>"
  have "rw_made ?w \<subseteq> rw_made w'"
    using assms(4) by (induction rule: rtranclp_induct) (use run_step_made in blast)+
  then have early: "no_clash sha256 (rw_made w)" "decodes decode (sealed sha256 w)"
    using run_assms_before [of w w'] assms(5,6) by simp_all
  obtain vs torn m where "run_inv decode sha256 i w vs torn m" using run_inv_reached [OF assms(1) early] by blast
  then obtain torn' where inv: "run_inv decode sha256 i ?w (vs @ [seal_record sha256 r]) torn' (length vs + 1)"
    using run_inv_committed [OF _ assms(2,3) early] by (fastforce simp: returned_def)
  obtain us tn k where later: "run_inv decode sha256 i w' us tn k" "run_moves (vs @ [seal_record sha256 r]) (length vs + 1) us k"
    using run_inv_later [OF assms(4) inv assms(5,6)] by blast
  then have us: "us = vs @ [seal_record sha256 r] @ drop (length vs + 1) us"
    using append_take_drop_id [of "length vs + 1" us] by (simp add: run_moves_def)
  have shapes: "dir_shape decode sha256 d (vs @ [seal_record sha256 r]) torn' (length vs + 1)"
      "dir_shape decode sha256 (rw_dir w') us tn k"
    using inv later(1) by (simp_all add: run_inv_def)
  show ?thesis
    by (intro exI conjI, rule shape_replay [OF shapes(1)], rule shape_replay [OF shapes(2)]) (use us in simp_all)
qed

subsection \<open>Replaced contents\<close>

lemma replay_lines_chain:
  assumes "replay_lines decode sha256 n prev acc ls = Inr v"
  shows "\<exists>rs. jv_records v = rev acc @ rs \<and> chain sha256 prev rs \<and> jv_tail v = (if rs = [] then prev else jr_sha (last rs))"
  using assms
proof (induction ls arbitrary: n prev acc)
  case Nil
  then have "v = \<lparr>jv_records = rev acc, jv_tail = prev, jv_damaged = False\<rparr>" by simp
  then show ?case by (intro exI [of _ "[]"]) simp
next
  case (Cons l ls)
  show ?case
  proof (cases "good_record decode sha256 prev l")
    case None
    then have "v = \<lparr>jv_records = rev acc, jv_tail = prev, jv_damaged = True\<rparr>"
      using Cons.prems by (simp split: if_splits)
    then show ?thesis by (intro exI [of _ "[]"]) simp
  next
    case (Some r)
    then have "verify_chain sha256 r prev" by (auto simp: good_record_def split: option.splits if_splits)
    moreover obtain rs where "jv_records v = rev (r # acc) @ rs" "chain sha256 (jr_sha r) rs"
        "jv_tail v = (if rs = [] then jr_sha r else jr_sha (last rs))"
      using Cons.IH Cons.prems Some by fastforce
    ultimately show ?thesis by (intro exI [of _ "r # rs"]) simp
  qed
qed

lemma replay_text_chain:
  "replay_text decode sha256 raw = Inr v \<Longrightarrow> chain sha256 genesis_prev (jv_records v) \<and> jv_tail v = chain_tail (jv_records v)"
  using replay_lines_chain [of decode sha256 1 genesis_prev "[]" "split_lines [] raw" v]
  by (auto simp: replay_text_def chain_tail_def)

lemma replay_lines_prefix:
  assumes "replay_lines decode sha256 n prev acc ls = Inr p" "\<not> jv_damaged p"
    "replay_lines decode sha256 n prev acc (ls @ ks) = Inr v"
  shows "\<exists>ss. jv_records v = jv_records p @ ss"
  using assms
proof (induction ls arbitrary: n prev acc)
  case Nil
  then show ?case using replay_lines_chain [of decode sha256 n prev acc ks v] by auto
next
  case (Cons l ls)
  show ?case
  proof (cases "good_record decode sha256 prev l")
    case None
    then have "p = \<lparr>jv_records = rev acc, jv_tail = prev, jv_damaged = True\<rparr>"
      using Cons.prems(1) by (simp split: if_splits)
    then show ?thesis using Cons.prems(2) by simp
  next
    case (Some r)
    then show ?thesis using Cons.IH [of "n + 1" "jr_sha r" "r # acc"] Cons.prems by simp
  qed
qed

lemma split_lines_prefix: "split_lines acc (s @ LF # t) = split_lines acc (s @ [LF]) @ split_lines [] t"
proof (induction acc s rule: split_lines.induct)
  case (1 acc)
  then show ?case by (simp add: split_lines_line [of "[]", simplified])
next
  case (2 acc c s)
  have lf: "line_break LF" by (simp add: line_break_def Let_def)
  show ?case
  proof (cases "line_break c")
    case False
    then show ?thesis using 2 by simp
  next
    case True
    then show ?thesis using 2 lf by (cases s) (auto split: list.splits)
  qed
qed

text \<open>Claim C16. Whatever a journal file holds, if the replay and the committed-extent check accept it,
  the records that were acknowledged when the extent was pinned are the first it shows. A truncation,
  a rewrite in place and a longer chain that forgets a record are refused, unless the digest collides
  on the records at hand.\<close>

theorem extent_rejects_rewrites:
  assumes "chain sha256 genesis_prev rs" "nb_tail b = chain_tail rs"
    and "replay_text decode sha256 raw = Inr view" "check_committed_extent decode sha256 b view raw = Inr ()"
    and "no_clash sha256 (set rs \<union> set (jv_records view))"
  shows "\<exists>ss. jv_records view = rs @ ss"
proof -
  have view: "chain sha256 genesis_prev (jv_records view)" "jv_tail view = chain_tail (jv_records view)"
    using replay_text_chain [OF assms(3)] by simp_all
  show ?thesis
  proof (cases "length raw = nb_extent b")
    case True
    then have "chain_tail rs = chain_tail (jv_records view)"
      using assms(2,4) view(2) by (simp add: check_committed_extent_def split: if_splits)
    then have "rs = jv_records view" by (rule chain_unique [OF assms(5,1) view(1)])
    then show ?thesis by simp
  next
    case False
    define prefix where "prefix = take (nb_extent b) raw"
    obtain p where p: "replay_text decode sha256 prefix = Inr p" "\<not> jv_damaged p" "jv_tail p = nb_tail b"
        and edge: "0 < nb_extent b \<longrightarrow> last prefix = LF" "nb_extent b \<le> length raw"
      using assms(4) False
      by (auto simp: check_committed_extent_def Let_def prefix_def split: if_splits sum.splits)
    have "\<exists>ss. jv_records view = jv_records p @ ss"
    proof (cases "nb_extent b = 0")
      case True
      then have "jv_records p = []" using p(1) by (auto simp: prefix_def replay_text_def)
      then show ?thesis by simp
    next
      case False
      then have ne: "prefix \<noteq> []" using edge(2) by (auto simp: prefix_def)
      then have "prefix = butlast prefix @ [LF]" using edge(1) False by (metis append_butlast_last_id neq0_conv)
      moreover have "raw = prefix @ drop (nb_extent b) raw" by (simp add: prefix_def)
      ultimately have "raw = butlast prefix @ LF # drop (nb_extent b) raw" by (metis append.assoc append_Cons append_Nil)
      then have "split_lines [] raw = split_lines [] prefix @ split_lines [] (drop (nb_extent b) raw)"
        using split_lines_prefix \<open>prefix = butlast prefix @ [LF]\<close> by metis
      then show ?thesis
        using replay_lines_prefix [of decode sha256 1 genesis_prev "[]" "split_lines [] prefix" p] p(1,2) assms(3)
        by (simp add: replay_text_def)
    qed
    then obtain ss where ss: "jv_records view = jv_records p @ ss" by blast
    have "chain sha256 genesis_prev (jv_records p)" "chain_tail rs = chain_tail (jv_records p)"
      using replay_text_chain [OF p(1)] p(3) assms(2) by simp_all
    moreover have "no_clash sha256 (set rs \<union> set (jv_records p))"
      using assms(5) ss by (auto elim: no_clash_subset)
    ultimately have "rs = jv_records p" using chain_unique assms(1) by blast
    then show ?thesis using ss by blast
  qed
qed

subsection \<open>Liveness verdicts\<close>

text \<open>The states in which the journal expects no process and the run is not over.\<close>

definition waiting_states :: "run_state set" where
  "waiting_states = {PLANNED, CAPTURE_COMPLETE, INSPECTION_FAILED, INSPECTED, AMENDMENT_PENDING_OWNER,
     AMENDMENT_READY, BARS_READY, BARS_COMPLETE, SEALED_PREFLIGHT_READY, UNKNOWN}"

text \<open>Claim C40. What an observer concludes, verdict by verdict. A run is over exactly in a terminal
  state; silence never ends one. Reconciliation is required exactly when, in a state that is not terminal,
  process or not, a heartbeat names another state than the journal, or when the sealed lane has no
  heartbeat or its owner is gone. A run is alive exactly when the journal expects no process and no
  heartbeat contradicts it, or when a process state has a fresh agreeing beat whose owner is there; it is
  silently alive exactly when that beat is stale. It is resumable exactly when a resumable state has no
  beat or an agreeing one whose owner is gone, and before the first record.\<close>

theorem liveness_verdicts:
  "(classify_beat fs boot now stale beat (Some s) = DEAD_TERMINAL \<longleftrightarrow> s \<in> {SEALED_COMPLETE, FAILED})
   \<and> (classify_beat fs boot now stale beat (Some s) = UNKNOWN_RECONCILIATION_REQUIRED
        \<longleftrightarrow> s \<in> - {SEALED_COMPLETE, FAILED} \<and> (\<exists>b. beat = Some b \<and> hb_state b \<noteq> s)
          \<or> s = SEALED_RUNNING \<and> (beat = None \<or> (\<exists>b. beat = Some b \<and> owner_gone fs boot b)))
   \<and> (classify_beat fs boot now stale beat (Some s) = ALIVE
        \<longleftrightarrow> s \<in> waiting_states \<and> (beat = None \<or> (\<exists>b. beat = Some b \<and> hb_state b = s))
          \<or> s \<in> {CAPTURING, INSPECTION_RUNNING, BARS_CAPTURING, SEALED_RUNNING}
            \<and> (\<exists>b. beat = Some b \<and> hb_state b = s \<and> \<not> owner_gone fs boot b \<and> now - hb_at b \<le> stale))
   \<and> (classify_beat fs boot now stale beat (Some s) = ALIVE_SILENT
        \<longleftrightarrow> s \<in> {CAPTURING, INSPECTION_RUNNING, BARS_CAPTURING, SEALED_RUNNING}
          \<and> (\<exists>b. beat = Some b \<and> hb_state b = s \<and> \<not> owner_gone fs boot b \<and> stale < now - hb_at b))
   \<and> (classify_beat fs boot now stale beat (Some s) = UNKNOWN_RESUMABLE
        \<longleftrightarrow> s \<in> {CAPTURING, INSPECTION_RUNNING, BARS_CAPTURING}
          \<and> (beat = None \<or> (\<exists>b. beat = Some b \<and> hb_state b = s \<and> owner_gone fs boot b)))
   \<and> classify_beat fs boot now stale beat None = UNKNOWN_RESUMABLE"
proof -
  have sets: "set terminal_states = {SEALED_COMPLETE, FAILED}"
      "set process_states = {CAPTURING, INSPECTION_RUNNING, BARS_CAPTURING, SEALED_RUNNING}"
      "set resumable_states = {CAPTURING, INSPECTION_RUNNING, BARS_CAPTURING}"
    by (auto simp: terminal_states_def process_states_def resumable_states_def)
  show ?thesis
  proof (cases beat)
    case None
    then show ?thesis unfolding classify_beat_def sets waiting_states_def by (cases s) simp_all
  next
    case (Some b)
    then show ?thesis
      unfolding classify_beat_def sets Let_def waiting_states_def
      by (cases "hb_state b = s"; cases s; cases "owner_gone fs boot b") auto
  qed
qed

subsection \<open>Two surprises\<close>

text \<open>An append that died between the line and its line feed leaves a record that replays show and that
  the next append destroys: the two lines become one that no longer decodes, and the history falls back
  behind the record, with a tail that refuses every later append.\<close>

lemma bare_line_lost:
  assumes ch: "chain sha256 genesis_prev (rs @ [q])" and r: "r = seal_record sha256 r0" "jr_prev r0 = jr_sha q"
    and dec: "decodes decode (insert r (set (rs @ [q])))"
    and d: "rd_journal d = Some (nb_inode b, render rs @ record_line q)" "rd_binding d = Some (Some b)" "binding_covers b rs m"
  shows "(\<exists>v. replay_dir decode sha256 d = Inr v \<and> jv_records v = rs @ [q] \<and> \<not> jv_damaged v)
    \<and> (\<exists>d' v'. append_record decode sha256 fresh d r0 = (d', Inl Journal_Lost_Record)
          \<and> replay_dir decode sha256 d' = Inr v' \<and> jv_records v' = rs \<and> jv_damaged v')"
proof -
  have decs: "decodes decode (set (rs @ [q]))" "decodes decode (insert q (set rs))"
    using dec by (auto elim: decodes_subset)
  have "rest_shows decode rs (record_line q) (rs @ [q]) False" by (simp add: rest_shows_def)
  then have shape: "dir_shape decode sha256 d (rs @ [q]) False m"
    using dir_shapeI [OF ch decs(1) d(1,2)] d(3) by blast
  have op: "open_journal d fresh = (d, nb_inode b, render rs @ record_line q)" using d(1) by (simp add: open_journal_def)
  have load: "load_or_bind d (nb_inode b) (render rs @ record_line q) = Inr (d, b)"
    using d(2) by (simp add: load_or_bind_def load_name_binding_def verify_name_binding_def)
  obtain d2 b2 where g: "append_guards decode sha256 d (nb_inode b) (render rs @ record_line q) r = (d2, Inr b2)"
      "rd_binding d2 = Some (Some b2)"
    using append_guards_shape [OF shape op, of r] r by auto
  then have "d2 = d" "b2 = b" using load d(2) by (auto simp: append_guards_def)
  moreover have "chain sha256 genesis_prev rs" using ch by simp
  ultimately obtain d' where "append_record decode sha256 fresh d r0 = (d', Inl Journal_Lost_Record)"
      "dir_shape decode sha256 d' rs True m"
    using append_bare_line [OF refl _ decs(2) d(2) refl d(3) r(1) op] g(1) by blast
  then show ?thesis using shape_replay [OF shape] shape_replay by fastforce
qed

text \<open>A failed capture may restart in the lane of the bars: the edge table lets a run reach the sealed
  lane without an inspection and without the owner's amendment.\<close>

lemma inspection_skipped:
  "legal_run [PLANNED, CAPTURING, FAILED, BARS_CAPTURING, BARS_COMPLETE, SEALED_PREFLIGHT_READY, SEALED_RUNNING]"
  by (simp add: legal_run_def is_legal_iff legal_edges_def)

subsection \<open>A store to run the claims on\<close>

text \<open>A line determines its record, and no line continues another. So looking a line up among the
  records that were written is a decoding as the claims need it, whatever the records are; and the
  identity is a digest without clashes.\<close>

lemma record_line_unique: "record_line r @ x = record_line r' @ y \<longleftrightarrow> r = r' \<and> x = y"
proof
  assume "record_line r @ x = record_line r' @ y"
  then have "jr_boot r = jr_boot r' \<and> jr_pid r = jr_pid r' \<and> jr_at r = jr_at r' \<and> jr_from r = jr_from r'
      \<and> jr_kind r = jr_kind r' \<and> jr_manifest r = jr_manifest r' \<and> jr_prev r = jr_prev r'
      \<and> jr_reason r = jr_reason r' \<and> jr_sha r = jr_sha r' \<and> jr_seq r = jr_seq r' \<and> jr_to r = jr_to r' \<and> x = y"
    by (simp add: record_line_def json_head_def json_rest_def json_state_def str.comma_unique num.comma_unique
        state.enum.null.comma_unique state.enum.null.brace_unique str.null.comma_unique)
  then show "r = r' \<and> x = y" by (cases r; cases r') simp
qed simp

definition lookup_decode :: "journal_record list \<Rightarrow> string \<Rightarrow> journal_record option" where
  "lookup_decode rs l = find (\<lambda>r. record_line r = l) rs"

lemma lookup_decode_None: "(\<And>r. r \<in> set rs \<Longrightarrow> record_line r \<noteq> l) \<Longrightarrow> lookup_decode rs l = None"
  by (auto simp: lookup_decode_def find_None_iff)

lemma decodes_lookup: "decodes (lookup_decode rs) (set rs)"
  unfolding decodes_def
proof (intro ballI conjI allI impI)
  fix r assume r: "r \<in> set rs"
  have "record_line q = record_line r \<longleftrightarrow> q = r" for q using record_line_unique [of q "[]" r "[]"] by simp
  then show "lookup_decode rs (record_line r) = Some r"
    using r by (induction rs) (auto simp: lookup_decode_def)
  show "lookup_decode rs (take k (record_line r)) = None" if "k < length (record_line r)" for k
  proof (rule lookup_decode_None)
    fix q show "record_line q \<noteq> take k (record_line r)"
    proof
      assume "record_line q = take k (record_line r)"
      then have "record_line q @ drop k (record_line r) = record_line r @ []" by simp
      then show False using that by (simp only: record_line_unique) simp
    qed
  qed
  show "lookup_decode rs (record_line r @ CHR ''{'' # x) = None" for x
  proof (rule lookup_decode_None)
    fix q show "record_line q \<noteq> record_line r @ CHR ''{'' # x"
      using record_line_unique [of q "[]" r "CHR ''{'' # x"] by simp
  qed
qed

lemma no_clash_id: "no_clash (\<lambda>s. s) rs"
  by (auto simp: no_clash_def record_hash_def journal_domain_def genesis_prev_def numeral_eq_Suc)

definition sample_identity :: run_identity where
  "sample_identity = \<lparr>ri_run_id = ''r'', ri_campaign = ''c'', ri_protocol_hash = ''p'', ri_code_sha = ''s'',
     ri_provider = ''v'', ri_capture_version = ''1'', ri_universe_sha = ''u'', ri_capture_manifest = None,
     ri_boot = ''b'', ri_pid = 7, ri_ticks = 100, ri_started = 0, ri_args_hash = ''a'', ri_nonce = None\<rparr>"

definition sample_genesis :: journal_record where "sample_genesis = genesis_record sample_identity 5"

definition sample_view :: journal_view where
  "sample_view = \<lparr>jv_records = [seal_record (\<lambda>s. s) sample_genesis], jv_tail = record_hash (\<lambda>s. s) sample_genesis,
     jv_damaged = False\<rparr>"

definition sample_transition :: journal_record where
  "sample_transition = projr (transition_record sample_view CAPTURING ''go'' \<lparr>ac_pid = 7, ac_boot = ''b'', ac_at = 6\<rparr> None)"

definition sample_lines :: "string \<Rightarrow> journal_record option" where
  "sample_lines = lookup_decode [seal_record (\<lambda>s. s) sample_genesis, seal_record (\<lambda>s. s) sample_transition]"

definition sample_dir :: run_dir where
  "sample_dir = fst (append_record sample_lines (\<lambda>s. s) 1 empty_dir sample_genesis)"

definition created_store :: run_world where
  "created_store = \<lparr>rw_dir = sample_dir, rw_pending = [], rw_made = {sample_genesis}\<rparr>"

text \<open>The store after the genesis record was acknowledged and an append of the first transition died
  after ten characters.\<close>

definition crashed_store :: run_world where
  "crashed_store = \<lparr>rw_dir = append_torn sample_lines (\<lambda>s. s) 1 10 sample_dir sample_transition, rw_pending = [],
     rw_made = {sample_transition, sample_genesis}\<rparr>"

lemma store_created:
  assumes dec: "decodes decode {seal_record sha256 (genesis_record i now)}"
    and app: "append_record decode sha256 fresh empty_dir (genesis_record i now) = (d, res)"
  shows "res = Inr (record_hash sha256 (genesis_record i now))
    \<and> dir_shape decode sha256 d [seal_record sha256 (genesis_record i now)] False 1"
proof -
  have "dir_shape decode sha256 empty_dir [] False 0" by (simp add: dir_shape_def decodes_def)
  moreover have "chain_tail [] = jr_prev (genesis_record i now)" by (simp add: genesis_record_def)
  ultimately show ?thesis
    using append_record_shape [of decode sha256 empty_dir "[]" False 0, OF _ refl _ app] dec by simp
qed

lemma sample_decodes: "decodes sample_lines (sealed (\<lambda>s. s) crashed_store)"
  using decodes_lookup [of "[seal_record (\<lambda>s. s) sample_genesis, seal_record (\<lambda>s. s) sample_transition]"]
  by (simp add: sample_lines_def sealed_def crashed_store_def insert_commute)

lemma sample_append:
  "append_record sample_lines (\<lambda>s. s) 1 empty_dir sample_genesis = (sample_dir, Inr (record_hash (\<lambda>s. s) sample_genesis))"
    and sample_shape: "dir_shape sample_lines (\<lambda>s. s) sample_dir [seal_record (\<lambda>s. s) sample_genesis] False 1"
proof -
  have "decodes sample_lines {seal_record (\<lambda>s. s) sample_genesis}"
    using sample_decodes by (auto elim: decodes_subset simp: sealed_def crashed_store_def)
  then show "append_record sample_lines (\<lambda>s. s) 1 empty_dir sample_genesis = (sample_dir, Inr (record_hash (\<lambda>s. s) sample_genesis))"
      "dir_shape sample_lines (\<lambda>s. s) sample_dir [seal_record (\<lambda>s. s) sample_genesis] False 1"
    using store_created [of sample_lines "\<lambda>s. s" sample_identity 5 1 sample_dir
        "snd (append_record sample_lines (\<lambda>s. s) 1 empty_dir sample_genesis)"]
    by (simp_all add: sample_dir_def sample_genesis_def [symmetric] prod_eq_iff)
qed

lemma sample_replay: "replay_dir sample_lines (\<lambda>s. s) sample_dir = Inr sample_view"
  using shape_replay [OF sample_shape] by (simp add: sample_view_def chain_tail_def)

lemma sample_transition: "transition_record sample_view CAPTURING ''go'' \<lparr>ac_pid = 7, ac_boot = ''b'', ac_at = 6\<rparr> None
    = Inr sample_transition"
proof -
  have "returned (transition_record sample_view CAPTURING ''go'' \<lparr>ac_pid = 7, ac_boot = ''b'', ac_at = 6\<rparr> None)"
    by (simp add: returned_def transition_record_def view_state_last sample_view_def states_of_def map_filter_simps
        seal_record_def sample_genesis_def genesis_record_def is_legal_iff legal_edges_def)
  then show ?thesis unfolding sample_transition_def by (rule returned_projr)
qed

lemma sample_start: "run_start sample_identity 5 = \<lparr>rw_dir = empty_dir, rw_pending = [sample_genesis], rw_made = {sample_genesis}\<rparr>"
  by (simp add: run_start_def sample_genesis_def)

lemma created_reached: "run_reached sample_lines (\<lambda>s. s) sample_identity 5 created_store"
proof (rule run_reached.step [OF run_reached.start])
  have "run_step sample_lines (\<lambda>s. s) sample_identity (run_start sample_identity 5)
      ((run_start sample_identity 5)\<lparr>rw_dir := sample_dir, rw_pending := remove1 sample_genesis [sample_genesis]\<rparr>)"
    using run_step.committed [of sample_genesis "run_start sample_identity 5" sample_lines "\<lambda>s. s" 1] sample_append
    by (simp add: sample_start)
  then show "run_step sample_lines (\<lambda>s. s) sample_identity (run_start sample_identity 5) created_store"
    by (simp add: sample_start created_store_def)
qed

lemma crash_follows: "(run_step sample_lines (\<lambda>s. s) sample_identity)\<^sup>*\<^sup>* created_store crashed_store"
proof -
  let ?w = "created_store\<lparr>rw_pending := [sample_transition], rw_made := {sample_transition, sample_genesis}\<rparr>"
  have "run_step sample_lines (\<lambda>s. s) sample_identity created_store ?w"
    using run_step.read_transition [of sample_lines "\<lambda>s. s" created_store, OF _ sample_transition]
    by (simp add: created_store_def sample_replay)
  moreover have "run_step sample_lines (\<lambda>s. s) sample_identity ?w crashed_store"
    using run_step.crashed [of sample_transition ?w sample_lines "\<lambda>s. s" 1 10]
    by (simp add: created_store_def crashed_store_def)
  ultimately show ?thesis by (meson converse_rtranclp_into_rtranclp r_into_rtranclp)
qed

lemma crashed_reached: "run_reached sample_lines (\<lambda>s. s) sample_identity 5 crashed_store"
  using crash_follows created_reached by (induction rule: rtranclp_induct) (blast intro: run_reached.step)+

theorem run_history_witness:
  "\<exists>v. replay_dir sample_lines (\<lambda>s. s) (rw_dir crashed_store) = Inr v \<and> legal_run (states_of (jv_records v))"
  using run_history [OF crashed_reached no_clash_id sample_decodes] by blast

theorem acknowledged_survives_witness:
  "\<exists>v. replay_dir sample_lines (\<lambda>s. s) (rw_dir crashed_store) = Inr v
     \<and> (\<exists>more_records. jv_records v = seal_record (\<lambda>s. s) sample_genesis # more_records)"
proof -
  have "run_reached sample_lines (\<lambda>s. s) sample_identity 5 (run_start sample_identity 5)" by (rule run_reached.start)
  moreover have "sample_genesis \<in> set (rw_pending (run_start sample_identity 5))" by (simp add: sample_start)
  moreover have "append_record sample_lines (\<lambda>s. s) 1 (rw_dir (run_start sample_identity 5)) sample_genesis
      = (sample_dir, Inr (record_hash (\<lambda>s. s) sample_genesis))" using sample_append by (simp add: sample_start)
  moreover have "(run_step sample_lines (\<lambda>s. s) sample_identity)\<^sup>*\<^sup>*
      ((run_start sample_identity 5)\<lparr>rw_dir := sample_dir, rw_pending := remove1 sample_genesis (rw_pending (run_start sample_identity 5))\<rparr>)
      crashed_store"
    using crash_follows by (simp add: sample_start created_store_def)
  ultimately obtain v v' where "replay_dir sample_lines (\<lambda>s. s) sample_dir = Inr v"
      "replay_dir sample_lines (\<lambda>s. s) (rw_dir crashed_store) = Inr v'"
      "\<exists>more_records. jv_records v' = jv_records v @ more_records"
    using acknowledged_survives [OF _ _ _ _ no_clash_id sample_decodes] by blast
  then show ?thesis using sample_replay by (auto simp: sample_view_def)
qed

text \<open>The pinned extent of the created store, and the contents of the crashed one.\<close>

theorem extent_rejects_rewrites_witness:
  "\<exists>ss. jv_records sample_view = [seal_record (\<lambda>s. s) sample_genesis] @ ss"
proof -
  let ?g = "seal_record (\<lambda>s. s) sample_genesis"
  let ?b = "\<lparr>nb_inode = 1, nb_extent = length (render [?g]), nb_tail = jr_sha ?g\<rparr>"
  have ch: "chain (\<lambda>s. s) genesis_prev [?g]" and dec: "decodes sample_lines (set [?g])"
    using sample_shape by (simp_all add: dir_shape_def)
  have "replay_text sample_lines (\<lambda>s. s) (render [?g]) = Inr sample_view"
    using replay_text_render [OF dec ch] by (simp add: sample_view_def chain_tail_def)
  moreover have "check_committed_extent sample_lines (\<lambda>s. s) ?b sample_view (render [?g]) = Inr ()"
    by (simp add: check_committed_extent_def sample_view_def)
  moreover have "nb_tail ?b = chain_tail [?g]" by (simp add: chain_tail_def)
  ultimately show ?thesis using extent_rejects_rewrites [OF ch _ _ _ no_clash_id] by blast
qed

end
