(* ===== verification/Spec2Isabelle.thy ===== *)
theory Spec2Isabelle
  imports Calendar Splitting Market Options Trading Ledger Conservation Fills
    Securities Availability Fitting Snapshots Authority Labels PaperLaws Candidates RegistryLaws GraphLaws DefinedRisk RunHistory
begin

text \<open>
  A verification library for the research and execution core of \<open>tree_options\<close>: the Python package
  under \<open>src/src/tree_options\<close> that turns vendor snapshots into point-in-time data, splits them into
  walk-forward folds, prices simulated fills into a ledger, and drives a paper broker, a trial registry
  and long campaigns whose state has to survive crashes.

  \<^bold>\<open>How the parts interact.\<close> A snapshot of raw rows and corporate actions is ingested, hashed and
  checked for quality; the query authority reads it only as of an instant, through the ticker resolver
  and the availability gate; labels look forward from a decision and are purged by the splitter; the
  fitting guard records which sessions each fitted artifact saw. Candidates are filtered by rules over
  quotes and bars. Orders are executed by the fill engine, which alone mints fills; the ledger book
  applies fills, dividends and exercises and can be checked against an independent replay. The paper
  broker turns intents into execution records, the lifecycle reduces records to a state, and the
  reconciliation and evidence modules read verdicts and money off that state. Every trial is opened and
  closed in a registry with a budget. Action plans and trade plans are checked before they are used.
  A campaign holds an exclusive lease, appends to a hash-chained journal and shows a heartbeat.

  \<^bold>\<open>Theories and sources\<close> (paths below \<open>src/src/tree_options\<close>).

  \<^item> \<open>Prelude\<close>: identifiers, session dates, instants (\<open>int\<close> microseconds), exact decimals (\<open>rat\<close>) with
    the grids of \<open>schemas/common.py\<close>, the result monad (a sum, \<open>Inl\<close> the error) and the shared lemmas.
  \<^item> \<open>Calendar\<close>, \<open>Civil\<close>: \<open>time/calendar.py\<close>, \<open>time/sessions.py\<close>; civil dates, \<open>time/expiries.py\<close>,
    \<open>time/monthlies.py\<close>, \<open>time/nanoseconds.py\<close>. The third Friday, its uniqueness in a month and the
    round trip of nanoseconds are proved.
  \<^item> \<open>Splitting\<close>: \<open>splitting/splitter.py\<close> and \<open>splitting/checks.py\<close>. Each fold the
    splitter makes passes the independent checks, the list of them too unless its test blocks overlap (a
    roll shorter than the test window); whatever passes the checks is purged and embargoed.
  \<^item> \<open>Market\<close>, \<open>Options\<close>, \<open>Trading\<close>: quotes, bars, option contracts, settlement events
    (\<open>options/settlement.py\<close>), exercise (\<open>options/exercise.py\<close>), orders, fills, fee models.
  \<^item> \<open>Ledger\<close>, \<open>Conservation\<close>: \<open>ledger/book.py\<close>. The book is a record of lots, entries and positions,
    every operation returns the new book and a result; the running totals equal the replay after every
    sequence of calls, refused calls change nothing, sales close the oldest lots.
  \<^item> \<open>Fills\<close>: \<open>guards/fills.py\<close>, check by check: what a minted fill implies about time, price, quantity,
    participation and identity.
  \<^item> \<open>Securities\<close>, \<open>Availability\<close>, \<open>Fitting\<close>, \<open>Snapshots\<close>, \<open>Authority\<close>, \<open>Labels\<close>: the data layer,
    with the absence of look-ahead as the theme of the properties.
  \<^item> \<open>ExecRecords\<close>, \<open>Lifecycle\<close>, \<open>Projection\<close>, \<open>ExecutionLaws\<close>, \<open>Adjudication\<close>: \<open>execution/records.py\<close>,
    \<open>lifecycle.py\<close>, \<open>reconciliation.py\<close>, \<open>evidence.py\<close>. A reached lifecycle is the projection of its own
    records, so order and redelivery do not matter; authority to replace is fail closed; evidence adds up.
  \<^item> \<open>PaperBroker\<close>, \<open>PaperLaws\<close>: \<open>execution/paper.py\<close> and its composition with the lifecycle.
  \<^item> \<open>Candidates\<close>: \<open>candidates/filters.py\<close>, rules with a tri-state verdict.
  \<^item> \<open>Json\<close>, \<open>Registry\<close>, \<open>RegistryLaws\<close>: canonical JSON texts; \<open>registry/\<close> and \<open>schemas/trial.py\<close>, the four
    tables as a record, with the three statements of \<open>mark_running\<close> as separate steps of an interleaving.
  \<^item> \<open>ActionGraph\<close>, \<open>GraphLaws\<close>: \<open>action_graph/proposal.py\<close>; the scheduler against the dependency graph.
  \<^item> \<open>TradePlans\<close>, \<open>DefinedRisk\<close>: \<open>trex/plan.py\<close>; the payoff of a validated structure is bounded below.
  \<^item> \<open>Lease\<close>, \<open>LeaseLaws\<close>: \<open>runstate/lease.py\<close> interleaved with births, deaths, reuse of a pid, reboots.
  \<^item> \<open>RunLifecycle\<close>, \<open>RunJournal\<close>, \<open>RunStore\<close>, \<open>RunLaws\<close>, \<open>RunHistory\<close>: \<open>runstate/states.py\<close>,
    \<open>heartbeat.py\<close>, \<open>journal.py\<close> with the binding of \<open>custody.py\<close>, \<open>store.py\<close>; the reachable stores under
    crashes in the middle of an append.

  \<^bold>\<open>How code is rendered.\<close> A pydantic model or dataclass is a \<open>record\<close>, its validators are one function
  that returns the first error; an enum is a \<open>datatype\<close>; an exception is an \<open>Inl\<close>; a dict is a map or,
  where iteration order shows, an association list; a string is a list of characters, so code points from
  256 on are outside the model. A method that changes \<open>self\<close> returns the new record beside its result, also
  when it raises, so that what an error leaves behind is visible. Shared state is a step relation
  (registry, lease, run store) whose reachable states carry an invariant by rule induction.
  Interfaces are locales (fee schedules, read gates, reducers, delimited texts, and the like) interpreted
  on the model's own definitions.

  \<^bold>\<open>Numbers, loops and bounds.\<close> Python's \<open>int\<close> is \<open>int\<close> or \<open>nat\<close> without a bound. \<open>Decimal\<close> is \<open>rat\<close>:
  additions and products of grid values are exact in the code too while they stay within 28 digits, and
  explicit quantizations are written out with their rounding mode; a result past 28 digits would be
  rounded by the code and is not by the model. No definition needs fuel: loops over lists and ranges are
  structural, the scheduling loop of \<open>ActionGraph\<close> and the digit and calendar walks recurse on a measure.

  \<^bold>\<open>Parameters\<close>, code that is not in the repository: the New York zone offsets, the digests of rows, of
  payloads and of scopes (SHA-256), the JSON-schema library, SQLite's \<open>json_valid\<close>, the decoding of one
  line of JSON, the canonical bytes of a record, and the fee model of the fill engine where the protocol
  leaves it open. A hypothesis on one of them is named in the theorem that needs it (no two of the strings
  at hand collide; the decoder inverts the renderer on the records at hand) and its witness instantiates
  it. Ghost components that the code does not store, such as the events that produced a database, are
  marked where they are declared.

  \<^bold>\<open>Not modelled.\<close> File, socket and subprocess plumbing, logging and the texts of messages except where a
  text is itself the result; the parsing of untyped input before the schemas; the checks of \<open>custody.py\<close>
  that a name still denotes the inode that is held; network clients and vendor parsers of \<open>data/\<close>; the
  SnapTrade adapter, which translates a third-party API; \<open>backtest\<close>, \<open>evaluation\<close>, \<open>models\<close>, \<open>research\<close>,
  \<open>strategy_lab\<close>: floating point over numpy and pandas frames, where a theorem over the reals would not be
  about the code; \<open>seal\<close>, \<open>trials\<close>, \<open>desk\<close>, \<open>trex\<close> beyond its plans, \<open>trex_web\<close>, \<open>scripts\<close>: services, command
  lines and sealed-data handling over files and processes; \<open>synth\<close>: random generators for tests.
\<close>

text \<open>Claim C1. The engine and the ledger together: whatever calls a fresh engine serves, its fills
  applied in order to a fresh book conserve cash, fees, positions and realized PnL, and none of them
  is refused as a duplicate.\<close>

theorem engine_fills_conserve:
  assumes "make_engine cal fees age lock fsf closes = Inr en" and "run_calls en ks = (en', tr)"
  shows "assert_conservation (run_events (new_book x) (map (FillEvent \<circ> snd) tr)) = Inr ()
    \<and> (\<forall>n < length tr. snd (apply_fill (run_events (new_book x) (map (FillEvent \<circ> snd) (take n tr)))
         (snd (tr ! n))) \<noteq> Inl DUPLICATE_FILL)"
proof -
  have ok: "event_ok (FillEvent (snd t))" if "t \<in> set tr" for t
    using run_calls_inv [OF assms] that by (simp add: engine_inv_def event_ok_def)
  then have "\<forall>e \<in> set (map (FillEvent \<circ> snd) tr). event_ok e" by auto
  then have inv: "book_inv (run_events (new_book x) (map (FillEvent \<circ> snd) tr))"
    by (intro book_inv_run book_inv_new)
  have ids: "distinct (map (fl_fill_id \<circ> snd) tr)" using run_calls_ids [OF assms] .
  have sub: "bk_fill_ids (run_events b (map (FillEvent \<circ> snd) ts))
      \<subseteq> bk_fill_ids b \<union> (fl_fill_id \<circ> snd) ` set ts" for b and ts :: "(fill_call \<times> fill) list"
    using apply_fill_ids by (induction ts arbitrary: b) fastforce+
  have "snd (apply_fill (run_events (new_book x) (map (FillEvent \<circ> snd) (take n tr))) (snd (tr ! n)))
      \<noteq> Inl DUPLICATE_FILL" if n: "n < length tr" for n
  proof -
    have "fl_fill_id (snd (tr ! n)) \<notin> (fl_fill_id \<circ> snd) ` set (take n tr)"
    proof
      assume "fl_fill_id (snd (tr ! n)) \<in> (fl_fill_id \<circ> snd) ` set (take n tr)"
      then obtain z where z: "z \<in> set (take n tr)" "fl_fill_id (snd (tr ! n)) = fl_fill_id (snd z)"
        by (auto simp del: set_take_subset)
      from z(1) obtain i where "i < n" "z = tr ! i" using n by (auto simp: in_set_conv_nth)
      with z(2) have i: "i < n" "fl_fill_id (snd (tr ! n)) = fl_fill_id (snd (tr ! i))" by simp_all
      show False using ids n i by (auto simp: distinct_conv_nth)
    qed
    then have "fl_fill_id (snd (tr ! n)) \<notin> bk_fill_ids (run_events (new_book x) (map (FillEvent \<circ> snd) (take n tr)))"
      using sub [of "new_book x" "take n tr"] by (auto simp: new_book_def)
    then show ?thesis by (rule apply_fill_not_duplicate)
  qed
  then show ?thesis using book_inv_conserved [OF inv] by blast
qed

theorem engine_fills_conserve_witness:
  "assert_conservation (run_events (new_book 100000) (map (FillEvent \<circ> snd) sample_trace)) = Inr ()
   \<and> length sample_trace = 2"
proof
  obtain en' where r: "run_calls sample_engine [sample_call, sample_bar_call, sample_bar_call] = (en', sample_trace)"
    by (cases "run_calls sample_engine [sample_call, sample_bar_call, sample_bar_call]")
       (simp add: sample_trace_def)
  show "assert_conservation (run_events (new_book 100000) (map (FillEvent \<circ> snd) sample_trace)) = Inr ()"
    using engine_fills_conserve [OF sample_engine_made r] by blast
  show "length sample_trace = 2" by code_simp
qed

end
